(* ===== verification/Prelude.thy ===== *)
theory Prelude
  imports Main "HOL-Library.Word"
begin

text \<open>
  Shared vocabulary of the development: the machine integers of the C++ sources, the
  carry and borrow idioms of unsigned arithmetic, little-endian values of word arrays and
  generic facts on lists that several components use.
\<close>

unbundle bit_operations_syntax

section \<open>Machine integers\<close>

type_synonym u8 = "8 word"
type_synonym u16 = "16 word"
type_synonym u32 = "32 word"
type_synonym u64 = "64 word"
type_synonym octets = "u8 list"

named_theorems carry_simps \<open>values of unsigned sums and differences with their carry\<close>
named_theorems mp_value \<open>values of limb arrays computed by the multiprecision routines\<close>
named_theorems len_simps \<open>lengths of the arrays the routines return\<close>

text \<open>
  The carry idiom \<open>s = x + y; carry = s < y\<close> and the borrow idioms
  \<open>borrow = x < y\<close> and \<open>d = x - y; borrow = d > x\<close> of unsigned arithmetic.
\<close>

lemma uint_add_carry [carry_simps]:
  fixes x y :: "'a::len word"
  shows "uint (x + y) + 2 ^ LENGTH('a) * of_bool (x + y < y) = uint x + uint y"
  using uint_bounded [of x] uint_bounded [of y]
  by (auto simp: uint_plus_if' word_less_def split: if_splits)

lemma uint_sub_borrow [carry_simps]:
  fixes x y :: "'a::len word"
  shows "uint (x - y) - 2 ^ LENGTH('a) * of_bool (x < y) = uint x - uint y"
  using uint_bounded [of x] uint_bounded [of y]
  by (auto simp: uint_sub_if' word_less_def split: if_splits)

lemma sub_wraps_iff:
  fixes x y :: "'a::len word"
  shows "x < x - y \<longleftrightarrow> x < y"
  using uint_bounded [of x] uint_bounded [of y]
  by (auto simp: uint_sub_if' word_less_def)

lemma uint_of_bool_word [simp]:
  "uint (of_bool b :: 'a::len word) = of_bool b"
  by (cases b) simp_all

lemma full_adder:
  fixes x y k :: "'a::len word"
  assumes "uint k \<le> 1"
  shows "uint (x + k + y) + 2 ^ LENGTH('a) * of_bool (x + k < k \<or> x + k + y < y) =
    uint x + uint y + uint k"
proof -
  define N :: int where "N = 2 ^ LENGTH('a)"
  have "uint x < N" "uint y < N"
    unfolding N_def by (rule uint_bounded)+
  then show ?thesis
    using uint_add_carry [of x k, folded N_def] uint_add_carry [of "x + k" y, folded N_def]
      assms uint_nonnegative [of "x + k + y"]
    unfolding N_def [symmetric]
    by (cases "x + k < k"; cases "x + k + y < y") simp_all
qed

lemma full_subtractor:
  fixes x y k :: "'a::len word"
  assumes "uint k \<le> 1"
  shows "uint (x - k - y) - 2 ^ LENGTH('a) * of_bool (x < x - k \<or> x - k < x - k - y) =
    uint x - uint y - uint k"
proof -
  define N :: int where "N = 2 ^ LENGTH('a)"
  have "uint y < N" "uint (x - k - y) < N"
    unfolding N_def by (rule uint_bounded)+
  then show ?thesis
    using uint_sub_borrow [of x k, folded N_def] uint_sub_borrow [of "x - k" y, folded N_def]
      assms uint_nonnegative [of x]
    unfolding N_def [symmetric]
    by (cases "x < k"; cases "x - k < y") (simp_all add: sub_wraps_iff)
qed

lemma uint_flag:
  assumes "uint k \<le> 1"
  shows "uint k = of_bool (k \<noteq> 0)"
proof (cases "k = 0")
  case False
  then have "uint k \<noteq> 0" by (simp add: uint_0_iff)
  then have "uint k = 1"
    using assms uint_nonnegative [of k] by linarith
  with False show ?thesis by simp
qed simp

lemma uint_push_bit:
  fixes w :: "'a::len word"
  shows "uint (push_bit n w) = (2 ^ n * uint w) mod 2 ^ LENGTH('a)"
  by (subst unsigned_push_bit_eq) (simp add: take_bit_eq_mod push_bit_eq_mult mult.commute)

lemma uint_drop_bit:
  fixes w :: "'a::len word"
  shows "uint (drop_bit n w) = uint w div 2 ^ n"
  by (subst unsigned_drop_bit_eq) (simp add: drop_bit_eq_div take_bit_int_eq_self)

lemma or_of_bool_word [simp]:
  "(of_bool a OR of_bool b :: 'a::len word) = of_bool (a \<or> b)"
  by (cases a; cases b) simp_all

end
