(* ===== verification/Multiprecision.thy ===== *)
theory Multiprecision
  imports Prelude
begin

text \<open>
  The multiprecision arithmetic of \<open>stack/smp/p_256_multprecision.cc\<close> that does not
  depend on the curve. A number is an array of \<open>KEY_LENGTH_DWORDS_P256\<close> little-endian
  32-bit words. A routine \<open>f(c, a, b)\<close> that fills the buffer \<open>c\<close> is a function
  that returns the new contents of \<open>c\<close>, paired with the C return value where there is
  one; a loop over the index \<open>i\<close> is a recursion over the words of its arrays in the
  order of the loop. Every loop reads its operands at an index before it writes the
  result there, so the in-place calls \<open>f(c, c, b)\<close> of the source are covered too.
\<close>

unbundle bit_operations_syntax

section \<open>The model\<close>

definition DWORD_BITS :: nat where
  "DWORD_BITS = 32"

definition DWORD_BITS_SHIFT :: nat where
  "DWORD_BITS_SHIFT = 5"

definition KEY_LENGTH_DWORDS_P256 :: nat where
  "KEY_LENGTH_DWORDS_P256 = 8"

definition multiprecision_init :: "u32 list \<Rightarrow> u32 list" where
  "multiprecision_init c = replicate KEY_LENGTH_DWORDS_P256 0 @ drop KEY_LENGTH_DWORDS_P256 c"

definition multiprecision_copy :: "u32 list \<Rightarrow> u32 list \<Rightarrow> u32 list" where
  "multiprecision_copy c a =
     take KEY_LENGTH_DWORDS_P256 a @ drop KEY_LENGTH_DWORDS_P256 c"

text \<open>The loop of \<open>multiprecision_compare\<close> runs from the top word down.\<close>

fun compare_loop :: "u32 list \<Rightarrow> u32 list \<Rightarrow> int" where
  "compare_loop (x # xs) (y # ys) =
     (if y < x then 1 else if x < y then -1 else compare_loop xs ys)"
| "compare_loop _ _ = 0"

definition multiprecision_compare :: "u32 list \<Rightarrow> u32 list \<Rightarrow> int" where
  "multiprecision_compare a b = compare_loop (rev a) (rev b)"

fun multiprecision_iszero :: "u32 list \<Rightarrow> bool" where
  "multiprecision_iszero [] = True"
| "multiprecision_iszero (x # xs) = (if x \<noteq> 0 then False else multiprecision_iszero xs)"

text \<open>\<open>for (i = 0; i < DWORD_BITS; i++, a >>= 1) if (a == 0) break;\<close>\<close>

fun dword_bits_loop :: "nat \<Rightarrow> u32 \<Rightarrow> nat" where
  "dword_bits_loop 0 a = 0"
| "dword_bits_loop (Suc n) a = (if a = 0 then 0 else Suc (dword_bits_loop n (drop_bit 1 a)))"

definition multiprecision_dword_bits :: "u32 \<Rightarrow> nat" where
  "multiprecision_dword_bits a = dword_bits_loop DWORD_BITS a"

text \<open>The index of the top nonzero word plus one, scanning from the top.\<close>

fun most_signdwords_loop :: "u32 list \<Rightarrow> nat" where
  "most_signdwords_loop [] = 0"
| "most_signdwords_loop (x # xs) = (if x \<noteq> 0 then Suc (length xs) else most_signdwords_loop xs)"

definition multiprecision_most_signdwords :: "u32 list \<Rightarrow> nat" where
  "multiprecision_most_signdwords a = most_signdwords_loop (rev a)"

definition multiprecision_most_signbits :: "u32 list \<Rightarrow> nat" where
  "multiprecision_most_signbits a =
     (let aMostSignDWORDs = multiprecision_most_signdwords a
      in if aMostSignDWORDs = 0 then 0
         else push_bit DWORD_BITS_SHIFT (aMostSignDWORDs - 1) +
              multiprecision_dword_bits (a ! (aMostSignDWORDs - 1)))"

fun add_loop :: "u32 \<Rightarrow> u32 list \<Rightarrow> u32 list \<Rightarrow> u32 list \<times> u32" where
  "add_loop carrier (x # xs) (y # ys) =
     (let temp = x + carrier;
          carrier = of_bool (temp < carrier);
          temp = temp + y;
          carrier = carrier OR of_bool (temp < y);
          (c, carrier) = add_loop carrier xs ys
      in (temp # c, carrier))"
| "add_loop carrier _ _ = ([], carrier)"

definition multiprecision_add :: "u32 list \<Rightarrow> u32 list \<Rightarrow> u32 list \<times> u32" where
  "multiprecision_add a b = add_loop 0 a b"

fun sub_loop :: "u32 \<Rightarrow> u32 list \<Rightarrow> u32 list \<Rightarrow> u32 list \<times> u32" where
  "sub_loop borrow (x # xs) (y # ys) =
     (let temp = x - borrow;
          borrow = of_bool (x < temp);
          c_i = temp - y;
          borrow = borrow OR of_bool (temp < c_i);
          (c, borrow) = sub_loop borrow xs ys
      in (c_i # c, borrow))"
| "sub_loop borrow _ _ = ([], borrow)"

definition multiprecision_sub :: "u32 list \<Rightarrow> u32 list \<Rightarrow> u32 list \<times> u32" where
  "multiprecision_sub a b = sub_loop 0 a b"

fun lshift_loop :: "u32 \<Rightarrow> u32 list \<Rightarrow> u32 list \<times> u32" where
  "lshift_loop carrier (temp # as) =
     (let c_i = push_bit 1 temp OR carrier;
          (c, carrier) = lshift_loop (drop_bit (DWORD_BITS - 1) temp) as
      in (c_i # c, carrier))"
| "lshift_loop carrier [] = ([], carrier)"

definition multiprecision_lshift :: "u32 list \<Rightarrow> u32 list \<times> u32" where
  "multiprecision_lshift a = lshift_loop 0 a"

text \<open>The right shift runs from the top word down.\<close>

fun rshift_loop :: "u32 \<Rightarrow> u32 list \<Rightarrow> u32 list" where
  "rshift_loop carrier (temp # as) =
     (drop_bit 1 temp OR carrier) # rshift_loop (push_bit (DWORD_BITS - 1) temp) as"
| "rshift_loop carrier [] = []"

definition multiprecision_rshift :: "u32 list \<Rightarrow> u32 list" where
  "multiprecision_rshift a = rev (rshift_loop 0 (rev a))"

text \<open>
  Schoolbook multiplication into a buffer \<open>c\<close> of \<open>2 * KEY_LENGTH_DWORDS_P256\<close> words whose
  upper half is not initialised by the callee: \<open>mult_inner\<close> is the loop over \<open>j\<close>
  and \<open>mult_outer\<close> the loop over \<open>i\<close>. The product \<open>result\<close> is 64 bits wide.
\<close>

fun mult_inner :: "u32 \<Rightarrow> nat \<Rightarrow> u32 list \<Rightarrow> u32 list \<times> u32 \<Rightarrow> u32 list \<times> u32" where
  "mult_inner a_i k [] (c, U) = (c, U)"
| "mult_inner a_i k (b_j # bs) (c, U) =
     (let result = (ucast a_i :: u64) * ucast b_j;
          W = (ucast (drop_bit 32 result) :: u32);
          V = a_i * b_j;
          V = V + U;
          U = of_bool (V < U);
          U = U + W;
          V = V + c ! k;
          U = U + of_bool (V < c ! k)
      in mult_inner a_i (Suc k) bs (c[k := V], U))"

fun mult_outer :: "nat \<Rightarrow> u32 list \<Rightarrow> u32 list \<Rightarrow> u32 list \<Rightarrow> u32 list" where
  "mult_outer i [] b c = c"
| "mult_outer i (a_i # as) b c =
     (let (c, U) = mult_inner a_i i b (c, 0)
      in mult_outer (Suc i) as b (c[i + KEY_LENGTH_DWORDS_P256 := U]))"

definition multiprecision_mult :: "u32 list \<Rightarrow> u32 list \<Rightarrow> u32 list \<Rightarrow> u32 list" where
  "multiprecision_mult c a b = mult_outer 0 a b (multiprecision_init c)"

section \<open>Values of word arrays\<close>

fun mpval :: "u32 list \<Rightarrow> int" where
  "mpval [] = 0"
| "mpval (w # ws) = uint w + 2 ^ 32 * mpval ws"

lemma mpval_nonneg [simp]: "0 \<le> mpval ws"
  by (induction ws) simp_all

lemma mpval_less: "mpval ws < 2 ^ (32 * length ws)"
proof (induction ws)
  case (Cons w ws)
  have "uint w < 2 ^ 32"
    using uint_bounded [of w] by simp
  moreover have "mpval ws + 1 \<le> 2 ^ (32 * length ws)"
    using Cons.IH by simp
  then have "2 ^ 32 * (mpval ws + 1) \<le> 2 ^ 32 * 2 ^ (32 * length ws)"
    by (rule mult_left_mono) simp
  ultimately show ?case
    by (simp add: power_add algebra_simps)
qed simp

lemma mpval_append: "mpval (xs @ ys) = mpval xs + 2 ^ (32 * length xs) * mpval ys"
  by (induction xs) (simp_all add: power_add algebra_simps)

lemma mpval_replicate_0 [simp]: "mpval (replicate n 0) = 0"
  by (induction n) simp_all

lemma mpval_update:
  "k < length ws \<Longrightarrow> mpval (ws[k := v]) = mpval ws + 2 ^ (32 * k) * (uint v - uint (ws ! k))"
proof (induction ws arbitrary: k)
  case (Cons w ws)
  show ?case
    using Cons.prems by (cases k) (simp_all add: Cons.IH power_add algebra_simps)
qed simp

section \<open>Correctness of the routines\<close>

subsection \<open>Addition, subtraction and shifts\<close>

lemma add_loop_value:
  assumes "length a = length b" and "uint k \<le> 1" and "add_loop k a b = (c, k')"
  shows "mpval c + 2 ^ (32 * length a) * uint k' = mpval a + mpval b + uint k \<and>
    uint k' \<le> 1 \<and> length c = length a"
  using assms
proof (induction k a b arbitrary: c k' rule: add_loop.induct)
  case (1 k x xs y ys)
  define k1 :: u32 where "k1 = of_bool (x + k < k \<or> x + k + y < y)"
  from "1.prems"(3) obtain c1 where step: "add_loop k1 xs ys = (c1, k')" "c = (x + k + y) # c1"
    by (auto simp: Let_def k1_def split: prod.splits)
  have "uint (x + k + y) + 2 ^ 32 * uint k1 = uint x + uint y + uint k"
    using full_adder [of k x y] "1.prems"(2) by (simp add: k1_def)
  moreover have "mpval c1 + 2 ^ (32 * length xs) * uint k' = mpval xs + mpval ys + uint k1 \<and>
      uint k' \<le> 1 \<and> length c1 = length xs"
    using "1.IH" [OF refl refl refl refl, of c1 k'] "1.prems"(1) step by (simp add: k1_def)
  ultimately show ?case
    using step(2) by (simp add: power_add algebra_simps)
qed auto

lemma sub_loop_value:
  assumes "length a = length b" and "uint k \<le> 1" and "sub_loop k a b = (c, k')"
  shows "mpval c - 2 ^ (32 * length a) * uint k' = mpval a - mpval b - uint k \<and>
    uint k' \<le> 1 \<and> length c = length a"
  using assms
proof (induction k a b arbitrary: c k' rule: sub_loop.induct)
  case (1 k x xs y ys)
  define k1 :: u32 where "k1 = of_bool (x < x - k \<or> x - k < x - k - y)"
  from "1.prems"(3) obtain c1 where step: "sub_loop k1 xs ys = (c1, k')" "c = (x - k - y) # c1"
    by (auto simp: Let_def k1_def split: prod.splits)
  have "uint (x - k - y) - 2 ^ 32 * uint k1 = uint x - uint y - uint k"
    using full_subtractor [of k x y] "1.prems"(2) by (simp add: k1_def)
  moreover have "mpval c1 - 2 ^ (32 * length xs) * uint k' = mpval xs - mpval ys - uint k1 \<and>
      uint k' \<le> 1 \<and> length c1 = length xs"
    using "1.IH" [OF refl refl refl refl, of c1 k'] "1.prems"(1) step by (simp add: k1_def)
  ultimately show ?case
    using step(2) by (simp add: power_add algebra_simps)
qed auto

lemma uint_shift_in_low:
  fixes x k :: u32
  assumes "uint k \<le> 1"
  shows "uint (push_bit 1 x OR k) + 2 ^ 32 * (uint x div 2 ^ 31) = 2 * uint x + uint k"
proof -
  define q where "q = uint x div 2 ^ 31"
  define r where "r = uint x mod 2 ^ 31"
  have x: "uint x = 2 ^ 31 * q + r"
    unfolding q_def r_def by simp
  have k: "uint k = 0 \<or> uint k = 1"
    using assms uint_nonnegative [of k] by linarith
  have p: "uint (push_bit 1 x) = 2 * r"
    using mult_mod_right [of 2 "uint x" "2 ^ 31"] by (simp only: uint_push_bit r_def) simp
  then have "even (uint (push_bit 1 x))"
    by (simp only: p) simp
  with k have "uint (push_bit 1 x OR k) = 2 * r + uint k"
    by (auto simp only: unsigned_or_eq or_one_eq p) simp_all
  then have "uint (push_bit 1 x OR k) + 2 ^ 32 * q = 2 * uint x + uint k"
    using x by simp
  then show ?thesis
    unfolding q_def .
qed

lemma lshift_loop_value:
  assumes "uint k \<le> 1" and "lshift_loop k a = (c, k')"
  shows "mpval c + 2 ^ (32 * length a) * uint k' = 2 * mpval a + uint k \<and>
    uint k' \<le> 1 \<and> length c = length a"
  using assms
proof (induction a arbitrary: k c k')
  case (Cons x xs)
  define k1 :: u32 where "k1 = drop_bit 31 x"
  have k1: "uint k1 = uint x div 2 ^ 31"
    by (simp only: k1_def uint_drop_bit)
  have k1_le: "uint k1 \<le> 1"
    using uint_bounded [of x] k1 by simp
  from Cons.prems(2) obtain c1 where step: "lshift_loop k1 xs = (c1, k')"
      "c = (push_bit 1 x OR k) # c1"
    by (auto simp: Let_def k1_def DWORD_BITS_def split: prod.splits)
  have "uint (push_bit 1 x OR k) + 2 ^ 32 * uint k1 = 2 * uint x + uint k"
    using uint_shift_in_low [OF Cons.prems(1)] k1 by simp
  moreover have "mpval c1 + 2 ^ (32 * length xs) * uint k' = 2 * mpval xs + uint k1 \<and>
      uint k' \<le> 1 \<and> length c1 = length xs"
    using Cons.IH [OF k1_le step(1)] .
  ultimately show ?case
    using step(2) by (simp add: power_add algebra_simps)
qed auto

lemma uint_shift_in_high:
  fixes x y :: u32
  shows "uint (drop_bit 1 x OR push_bit 31 y) = uint x div 2 + 2 ^ 31 * (uint y mod 2)"
proof -
  have "drop_bit 1 x AND push_bit 31 y = 0"
    by (rule bit_word_eqI) (auto simp: bit_simps dest: bit_imp_le_length)
  then have "uint (drop_bit 1 x OR push_bit 31 y) = uint (drop_bit 1 x) + uint (push_bit 31 y)"
    by (metis disjunctive_add_eq_or unsigned_or_eq unsigned_and_eq unsigned_0)
  moreover have "uint (push_bit 31 y) = 2 ^ 31 * (uint y mod 2)"
    using mult_mod_right [of "2 ^ 31" "uint y" 2] by (simp only: uint_push_bit) simp
  ultimately show ?thesis
    by (simp only: uint_drop_bit) simp
qed

lemma length_rshift_loop [simp]: "length (rshift_loop k l) = length l"
  by (induction l arbitrary: k) simp_all

lemma rshift_loop_value:
  "mpval (rev (rshift_loop (push_bit 31 y) l)) =
     (mpval (rev l) + 2 ^ (32 * length l) * (uint y mod 2)) div 2"
proof (induction l arbitrary: y)
  case (Cons x l)
  define N :: int where "N = 2 ^ (32 * length l)"
  define q where "q = uint x div 2"
  define r where "r = uint x mod 2"
  have x: "uint x = 2 * q + r"
    by (simp add: q_def r_def)
  have "mpval (rev (rshift_loop (push_bit 31 y) (x # l))) =
      (mpval (rev l) + N * r) div 2 + N * (q + 2 ^ 31 * (uint y mod 2))"
    by (simp add: DWORD_BITS_def mpval_append uint_shift_in_high [simplified] Cons.IH
        N_def q_def r_def)
  also have "\<dots> = (mpval (rev l) + N * r + 2 * (N * (q + 2 ^ 31 * (uint y mod 2)))) div 2"
    by simp
  also have "mpval (rev l) + N * r + 2 * (N * (q + 2 ^ 31 * (uint y mod 2))) =
      mpval (rev (x # l)) + 2 ^ (32 * length (x # l)) * (uint y mod 2)"
    by (simp add: mpval_append x N_def power_add algebra_simps)
  finally show ?case .
qed simp_all
subsection \<open>Comparison, zero test and bit length\<close>

lemma compare_loop_value:
  assumes "length xs = length ys"
  shows "compare_loop xs ys = sgn (mpval (rev xs) - mpval (rev ys))"
  using assms
proof (induction xs ys rule: list_induct2)
  case (Cons x xs y ys)
  define N :: int where "N = 2 ^ (32 * length xs)"
  have lt: "mpval (rev xs) < N" "mpval (rev ys) < N"
    using mpval_less [of "rev xs"] mpval_less [of "rev ys"] Cons.hyps by (simp_all add: N_def)
  have v: "mpval (rev (x # xs)) - mpval (rev (y # ys)) =
      mpval (rev xs) - mpval (rev ys) + N * (uint x - uint y)"
    using Cons.hyps by (simp add: mpval_append N_def algebra_simps)
  consider "uint x = uint y" | "uint x - uint y \<ge> 1" | "uint x - uint y \<le> -1"
    by linarith
  then show ?case
  proof cases
    case 1
    then show ?thesis using Cons.IH v by (simp add: word_less_def)
  next
    case 2
    then have "N * 1 \<le> N * (uint x - uint y)"
      by (intro mult_left_mono) (simp_all add: N_def)
    then have "0 < mpval (rev (x # xs)) - mpval (rev (y # ys))"
      using v lt mpval_nonneg [of "rev xs"] by linarith
    then show ?thesis using 2 by (simp add: word_less_def)
  next
    case 3
    then have "N * (uint x - uint y) \<le> N * (-1)"
      by (intro mult_left_mono) (simp_all add: N_def)
    then have "mpval (rev (x # xs)) - mpval (rev (y # ys)) < 0"
      using v lt mpval_nonneg [of "rev ys"] by linarith
    then show ?thesis using 3 by (simp add: word_less_def)
  qed
qed simp

lemma multiprecision_compare_value [mp_value]:
  "length a = length b \<Longrightarrow> multiprecision_compare a b = sgn (mpval a - mpval b)"
  by (simp add: multiprecision_compare_def compare_loop_value)

lemma multiprecision_iszero_value [mp_value]: "multiprecision_iszero a \<longleftrightarrow> mpval a = 0"
proof (induction a)
  case (Cons w ws)
  then show ?case
    using mpval_nonneg [of ws] uint_nonnegative [of w] by (auto simp: uint_0_iff add_nonneg_eq_0_iff)
qed simp

lemma dword_bits_loop_bounds:
  assumes "uint a < 2 ^ n"
  shows "uint a < 2 ^ dword_bits_loop n a \<and> (a \<noteq> 0 \<longrightarrow> 2 ^ (dword_bits_loop n a - 1) \<le> uint a) \<and>
    (dword_bits_loop n a = 0 \<longleftrightarrow> a = 0)"
  using assms
proof (induction n arbitrary: a)
  case (Suc n a)
  show ?case
  proof (cases "a = 0")
    case False
    let ?h = "drop_bit 1 a" and ?k = "dword_bits_loop n (drop_bit 1 a)"
    have h: "uint ?h = uint a div 2"
      using uint_drop_bit [of 1 a] by simp
    have IH: "uint ?h < 2 ^ ?k" "?h \<noteq> 0 \<Longrightarrow> 2 ^ (?k - 1) \<le> uint ?h" "?k = 0 \<longleftrightarrow> ?h = 0"
      using Suc.IH [of ?h] Suc.prems h by auto
    have pos: "0 < uint a"
      using False uint_nonnegative [of a] by (simp add: uint_0_iff order_less_le) 
    have "uint a < 2 * 2 ^ ?k"
      using IH(1) h by linarith
    moreover have "2 ^ ?k \<le> uint a"
    proof (cases "?h = 0")
      case True
      then show ?thesis using IH(3) pos by simp
    next
      case hnz: False
      then have "2 * 2 ^ (?k - 1) \<le> 2 * (uint a div 2)"
        using IH(2) h by simp
      moreover have "2 * 2 ^ (?k - 1) = (2::int) ^ ?k"
        using IH(3) hnz by (cases ?k) simp_all
      ultimately show ?thesis by linarith
    qed
    ultimately show ?thesis using False by simp
  qed simp
next
  case 0
  then have "uint a < 1" by (simp only: power_0)
  then have "uint a = 0"
    using uint_nonnegative [of a] by linarith
  then show ?case by (simp add: uint_0_iff)
qed


lemma most_signdwords_snoc [simp]:
  "multiprecision_most_signdwords (xs @ [x]) =
     (if x \<noteq> 0 then Suc (length xs) else multiprecision_most_signdwords xs)"
  "multiprecision_most_signdwords [] = 0"
  by (simp_all add: multiprecision_most_signdwords_def)

lemma most_signdwords_split:
  "multiprecision_most_signdwords a \<le> length a \<and>
   mpval a = mpval (take (multiprecision_most_signdwords a) a) \<and>
   (multiprecision_most_signdwords a \<noteq> 0 \<longrightarrow> a ! (multiprecision_most_signdwords a - 1) \<noteq> 0)"
  by (induction a rule: rev_induct) (auto simp: mpval_append nth_append)

lemma most_signbits_value:
  shows "mpval a < 2 ^ multiprecision_most_signbits a"
    and "mpval a \<noteq> 0 \<Longrightarrow> 2 ^ (multiprecision_most_signbits a - 1) \<le> mpval a"
proof -
  define k where "k = multiprecision_most_signdwords a"
  have k: "k \<le> length a" "mpval a = mpval (take k a)" "k \<noteq> 0 \<Longrightarrow> a ! (k - 1) \<noteq> 0"
    using most_signdwords_split [of a] by (auto simp: k_def)
  have "mpval a < 2 ^ multiprecision_most_signbits a \<and>
    (mpval a \<noteq> 0 \<longrightarrow> 2 ^ (multiprecision_most_signbits a - 1) \<le> mpval a)"
  proof (cases k)
    case 0
    then show ?thesis
      using k by (simp add: multiprecision_most_signbits_def k_def)
  next
    case (Suc m)
    define w where "w = a ! m"
    define d where "d = multiprecision_dword_bits w"
    have bits: "multiprecision_most_signbits a = 32 * m + d"
      using Suc by (simp add: multiprecision_most_signbits_def k_def [symmetric] w_def d_def
          DWORD_BITS_SHIFT_def push_bit_eq_mult)
    have v: "mpval a = mpval (take m a) + 2 ^ (32 * m) * uint w"
      using k(1,2) Suc by (simp add: take_Suc_conv_app_nth mpval_append w_def)
    have "w \<noteq> 0" using k(3) Suc by (simp add: w_def)
    then have d: "uint w + 1 \<le> 2 ^ d" "2 ^ (d - 1) \<le> uint w" "d \<noteq> 0"
      using dword_bits_loop_bounds [of w 32] uint_bounded [of w]
      by (auto simp: d_def multiprecision_dword_bits_def DWORD_BITS_def)
    have low: "mpval (take m a) < 2 ^ (32 * m)"
      using mpval_less [of "take m a"] k(1) Suc by simp
    have "2 ^ (32 * m) * (uint w + 1) \<le> (2::int) ^ (32 * m) * 2 ^ d"
      using d(1) by (intro mult_left_mono) simp_all
    then have "mpval a < 2 ^ (32 * m + d)"
      using v low by (simp add: power_add algebra_simps)
    moreover have "(2::int) ^ (32 * m) * 2 ^ (d - 1) \<le> 2 ^ (32 * m) * uint w"
      using d(2) by (intro mult_left_mono) simp_all
    moreover have "(2::int) ^ (32 * m) * 2 ^ (d - 1) = 2 ^ (32 * m + d - 1)"
      using d(3) by (simp add: power_add [symmetric])
    ultimately have "mpval a < 2 ^ (32 * m + d)" "2 ^ (32 * m + d - 1) \<le> mpval a"
      using v mpval_nonneg [of "take m a"] by linarith+
    then show ?thesis by (simp add: bits)
  qed
  then show "mpval a < 2 ^ multiprecision_most_signbits a"
    and "mpval a \<noteq> 0 \<Longrightarrow> 2 ^ (multiprecision_most_signbits a - 1) \<le> mpval a"
    by blast+
qed

subsection \<open>Multiplication\<close>

lemma uint_mult_split:
  fixes a b :: u32
  shows "uint (a * b) + 2 ^ 32 * uint (ucast (drop_bit 32 ((ucast a :: u64) * ucast b)) :: u32) =
    uint a * uint b"
proof -
  define P where "P = uint a * uint b"
  have P: "0 \<le> P" "P < 2 ^ 64"
  proof -
    have "uint a * uint b \<le> (2 ^ 32 - 1) * (2 ^ 32 - 1)"
      using uint_bounded [of a] uint_bounded [of b] by (intro mult_mono) simp_all
    then show "P < 2 ^ 64" by (simp add: P_def)
  qed (simp add: P_def)
  have "uint ((ucast a :: u64) * ucast b) = P"
  proof -
    have "uint (ucast a :: u64) = uint a" "uint (ucast b :: u64) = uint b"
      using uint_bounded [of a] uint_bounded [of b]
      by (simp_all add: unsigned_ucast_eq take_bit_int_eq_self)
    then show ?thesis
      using P by (simp add: uint_word_ariths P_def)
  qed
  then have "uint (ucast (drop_bit 32 ((ucast a :: u64) * ucast b)) :: u32) = P div 2 ^ 32"
    using P uint_drop_bit [of 32 "(ucast a :: u64) * ucast b"]
    by (simp add: unsigned_ucast_eq take_bit_eq_mod)
  moreover have "uint (a * b) = P mod 2 ^ 32"
    by (simp add: uint_word_ariths P_def)
  ultimately show ?thesis
    by (simp add: P_def [symmetric])
qed

lemma mult_step_value:
  fixes a b U c :: u32
  defines "W \<equiv> (ucast (drop_bit 32 ((ucast a :: u64) * ucast b)) :: u32)"
  defines "V1 \<equiv> a * b + U"
  defines "V2 \<equiv> V1 + c"
  shows "uint V2 + 2 ^ 32 * uint (of_bool (V1 < U) + W + of_bool (V2 < c)) =
    uint a * uint b + uint U + uint c"
proof -
  define T where "T = of_bool (V1 < U) + uint W + of_bool (V2 < c)"
  have eq: "uint V2 + 2 ^ 32 * T = uint a * uint b + uint U + uint c"
    using uint_add_carry [of "a * b" U] uint_add_carry [of V1 c] uint_mult_split [of a b]
    by (simp add: V1_def V2_def W_def T_def algebra_simps)
  have "uint a * uint b \<le> 4294967295 * 4294967295"
    using uint_bounded [of a] uint_bounded [of b] by (intro mult_mono) simp_all
  moreover have "uint U < 4294967296" "uint c < 4294967296"
    using uint_bounded [of U] uint_bounded [of c] by simp_all
  moreover have "uint V2 + 4294967296 * T = uint a * uint b + uint U + uint c"
    using eq by simp
  ultimately have "T < 4294967296"
    using uint_nonnegative [of V2] by linarith
  then have "T < 2 ^ 32" by simp
  moreover have "0 \<le> T" by (simp add: T_def)
  moreover have "uint (of_bool (V1 < U) + W + of_bool (V2 < c)) = T mod 2 ^ 32"
    by (simp add: uint_word_ariths T_def mod_simps)
  ultimately show ?thesis using eq by simp
qed

lemma mult_inner_value:
  assumes "k + length bs \<le> length c" and "mult_inner a k bs (c, U) = (c', U')"
  shows "mpval (take (k + length bs) c') + 2 ^ (32 * (k + length bs)) * uint U' =
      mpval (take (k + length bs) c) + 2 ^ (32 * k) * (uint U + uint a * mpval bs) \<and>
    length c' = length c"
  using assms
proof (induction bs arbitrary: k c U)
  case (Cons b bs)
  define W where "W = (ucast (drop_bit 32 ((ucast a :: u64) * ucast b)) :: u32)"
  define V where "V = a * b + U + c ! k"
  define U1 where "U1 = of_bool (a * b + U < U) + W + of_bool (V < c ! k)"
  have "mult_inner a (Suc k) bs (c[k := V], U1) = (c', U')"
    using Cons.prems(2) by (simp add: Let_def W_def V_def U1_def)
  then have IH: "mpval (take (Suc k + length bs) c') + 2 ^ (32 * (Suc k + length bs)) * uint U' =
      mpval (take (Suc k + length bs) (c[k := V])) +
      2 ^ (32 * Suc k) * (uint U1 + uint a * mpval bs) \<and> length c' = length (c[k := V])"
    using Cons.prems(1) by (intro Cons.IH) simp_all
  have k: "k < length (take (Suc k + length bs) c)"
    using Cons.prems(1) by simp
  have "mpval (take (Suc k + length bs) (c[k := V])) =
      mpval (take (Suc k + length bs) c) + 2 ^ (32 * k) * (uint V - uint (c ! k))"
    using mpval_update [OF k, of V] by (simp add: take_update_swap)
  moreover have "uint V + 2 ^ 32 * uint U1 = uint a * uint b + uint U + uint (c ! k)"
    using mult_step_value [of a b U "c ! k"] by (simp add: W_def V_def U1_def)
  then have "2 ^ (32 * k) * (uint V + 2 ^ 32 * uint U1) =
      2 ^ (32 * k) * (uint a * uint b + uint U + uint (c ! k))"
    by simp
  ultimately show ?case
    using IH by (simp add: power_add algebra_simps)
qed simp

lemma mult_outer_value:
  assumes "length b = 8" and "i + length as + 8 \<le> length c" 
  shows "mpval (take (i + length as + 8) (mult_outer i as b c)) =
      mpval (take (i + 8) c) + 2 ^ (32 * i) * (mpval as * mpval b) \<and>
    length (mult_outer i as b c) = length c"
  using assms(2)
proof (induction as arbitrary: i c)
  case (Cons a as)
  obtain c1 U where inner: "mult_inner a i b (c, 0) = (c1, U)"
    by fastforce
  have v1: "mpval (take (i + 8) c1) + 2 ^ (32 * (i + 8)) * uint U =
      mpval (take (i + 8) c) + 2 ^ (32 * i) * (uint a * mpval b)" and len: "length c1 = length c"
    using mult_inner_value [OF _ inner] Cons.prems assms(1) by auto
  define c2 where "c2 = c1[i + 8 := U]"
  have "take (Suc i + 8) c2 = take (i + 8) c1 @ [U]"
    using take_Suc_conv_app_nth [of "i + 8" c2] Cons.prems len by (simp add: c2_def)
  then have v2: "mpval (take (Suc i + 8) c2) =
      mpval (take (i + 8) c) + 2 ^ (32 * i) * (uint a * mpval b)"
    using v1 Cons.prems len by (simp add: mpval_append)
  have "mpval (take (Suc i + length as + 8) (mult_outer (Suc i) as b c2)) =
      mpval (take (Suc i + 8) c2) + 2 ^ (32 * Suc i) * (mpval as * mpval b) \<and>
    length (mult_outer (Suc i) as b c2) = length c2"
    using Cons.prems len by (intro Cons.IH) (simp add: c2_def)
  then show ?case
    using v2 len inner
    by (simp add: KEY_LENGTH_DWORDS_P256_def c2_def [symmetric] power_add algebra_simps)
      (simp add: c2_def)
qed simp


subsection \<open>The routines\<close>

lemma multiprecision_add_value:
  assumes "length a = length b" and "multiprecision_add a b = (c, k)"
  shows "mpval c + 2 ^ (32 * length a) * uint k = mpval a + mpval b"
    and "uint k \<le> 1" and "length c = length a"
  using add_loop_value [of a b 0 c k] assms by (auto simp: multiprecision_add_def)

lemma multiprecision_sub_value:
  assumes "length a = length b" and "multiprecision_sub a b = (c, k)"
  shows "mpval c - 2 ^ (32 * length a) * uint k = mpval a - mpval b"
    and "uint k \<le> 1" and "length c = length a"
  using sub_loop_value [of a b 0 c k] assms by (auto simp: multiprecision_sub_def)

lemma multiprecision_lshift_value:
  assumes "multiprecision_lshift a = (c, k)"
  shows "mpval c + 2 ^ (32 * length a) * uint k = 2 * mpval a"
    and "uint k \<le> 1" and "length c = length a"
  using lshift_loop_value [of 0 a c k] assms by (auto simp: multiprecision_lshift_def)

lemma multiprecision_rshift_value [mp_value]: "mpval (multiprecision_rshift a) = mpval a div 2"
  using rshift_loop_value [of 0 "rev a"] by (simp add: multiprecision_rshift_def)

lemma length_multiprecision_rshift [len_simps]: "length (multiprecision_rshift a) = length a"
  by (simp add: multiprecision_rshift_def)

lemma multiprecision_mult_value:
  assumes "length a = 8" and "length b = 8" and "length c = 16"
  shows "mpval (multiprecision_mult c a b) = mpval a * mpval b"
    and "length (multiprecision_mult c a b) = 16"
proof -
  let ?c = "multiprecision_init c"
  have c: "length ?c = 16" "take 8 ?c = replicate 8 0"
    using assms by (simp_all add: multiprecision_init_def KEY_LENGTH_DWORDS_P256_def)
  have "mpval (take (0 + length a + 8) (mult_outer 0 a b ?c)) =
      mpval (take (0 + 8) ?c) + 2 ^ (32 * 0) * (mpval a * mpval b) \<and>
    length (mult_outer 0 a b ?c) = length ?c"
    using assms c by (intro mult_outer_value) simp_all
  then show "mpval (multiprecision_mult c a b) = mpval a * mpval b"
    and "length (multiprecision_mult c a b) = 16"
    using c assms by (auto simp: multiprecision_mult_def)
qed

section \<open>The fixed-width interface\<close>

text \<open>
  What the modular routines rely on: numbers below a radix power \<open>R\<close> with an addition
  that returns its carry, a subtraction that returns its borrow, and a comparison.
\<close>

locale fixed_width =
  fixes wf :: "'n \<Rightarrow> bool"
    and val :: "'n \<Rightarrow> int"
    and R :: int
    and add :: "'n \<Rightarrow> 'n \<Rightarrow> 'n \<times> u32"
    and sub :: "'n \<Rightarrow> 'n \<Rightarrow> 'n \<times> u32"
    and cmp :: "'n \<Rightarrow> 'n \<Rightarrow> int"
  assumes val_range: "wf x \<Longrightarrow> 0 \<le> val x \<and> val x < R"
    and add_law: "wf x \<Longrightarrow> wf y \<Longrightarrow> add x y = (z, k) \<Longrightarrow>
      wf z \<and> uint k \<le> 1 \<and> val z + R * uint k = val x + val y"
    and sub_law: "wf x \<Longrightarrow> wf y \<Longrightarrow> sub x y = (z, k) \<Longrightarrow>
      wf z \<and> uint k \<le> 1 \<and> val z - R * uint k = val x - val y"
    and cmp_law: "wf x \<Longrightarrow> wf y \<Longrightarrow> cmp x y = sgn (val x - val y)"
begin

lemma wf_fst_add [simp]: "wf x \<Longrightarrow> wf y \<Longrightarrow> wf (fst (add x y))"
  using add_law [of x y "fst (add x y)" "snd (add x y)"] by simp

lemma wf_fst_sub [simp]: "wf x \<Longrightarrow> wf y \<Longrightarrow> wf (fst (sub x y))"
  using sub_law [of x y "fst (sub x y)" "snd (sub x y)"] by simp

lemma val_add_mod:
  assumes "wf x" and "wf y"
  shows "val (fst (add x y)) = (val x + val y) mod R"
proof (cases "add x y")
  case (Pair z k)
  then have z: "wf z" "val x + val y = val z + R * uint k"
    using add_law [OF assms, of z k] by simp_all
  then have "(val x + val y) mod R = val z mod R"
    by simp
  then show ?thesis
    using val_range [OF z(1)] Pair by simp
qed

lemma val_sub_mod:
  assumes "wf x" and "wf y"
  shows "val (fst (sub x y)) = (val x - val y) mod R"
proof (cases "sub x y")
  case (Pair z k)
  then have z: "wf z" "val x - val y = val z - R * uint k"
    using sub_law [OF assms, of z k] by simp_all
  then have "(val x - val y) mod R = val z mod R"
    by (simp add: mod_diff_eq [symmetric, of "val z" "R * uint k"] mod_diff_left_eq)
  then show ?thesis
    using val_range [OF z(1)] Pair by simp
qed

lemma cond_sub_reduces:
  assumes wf: "wf c" "wf m" and k: "uint k \<le> 1"
    and lt: "val c + R * uint k < 2 * val m"
  defines "r \<equiv> (if k \<noteq> 0 then fst (sub c m) else if 0 \<le> cmp c m then fst (sub c m) else c)"
  shows "wf r \<and> val r = (val c + R * uint k) mod val m"
proof -
  have rng: "0 \<le> val c" "val c < R" "0 \<le> val m" "val m < R"
    using val_range wf by blast+
  have one: "t mod val m = t - val m" if "val m \<le> t" "t < 2 * val m" for t
    using that mod_pos_pos_trivial [of "t - val m" "val m"] by simp
  have kk: "k \<noteq> 0 \<longleftrightarrow> uint k = 1"
    using uint_flag [OF k] by simp
  show ?thesis
  proof (cases "k \<noteq> 0")
    case True
    then have "val r = (val c - val m) mod R"
      using wf by (simp add: r_def val_sub_mod)
    also have "\<dots> = (val c - val m + R) mod R" by simp
    also have "\<dots> = val c - val m + R"
      using rng lt True kk by (intro mod_pos_pos_trivial) auto
    finally show ?thesis
      using True kk one [of "val c + R"] rng lt wf by (simp add: r_def)
  next
    case k0: False
    then have u: "uint k = 0" by simp
    show ?thesis
    proof (cases "val m \<le> val c")
      case True
      then have "0 \<le> cmp c m" by (simp add: cmp_law [OF wf] sgn_if)
      then have "val r = (val c - val m) mod R"
        using wf k0 by (simp add: r_def val_sub_mod)
      then show ?thesis
        using True rng lt u one [of "val c"] wf \<open>0 \<le> cmp c m\<close> k0 by (simp add: r_def)
    next
      case False
      then have "\<not> 0 \<le> cmp c m" by (simp add: cmp_law [OF wf] sgn_if)
      then show ?thesis using False rng u k0 wf by (simp add: r_def)
    qed
  qed
qed

lemma borrow_add_reduces:
  assumes wf: "wf a" "wf b" "wf m" and lt: "val a < val m" "val b < val m"
    and d: "sub a b = (c, k)"
  defines "r \<equiv> (if k \<noteq> 0 then fst (add c m) else c)"
  shows "wf r \<and> val r = (val a - val b) mod val m"
proof -
  have rng: "0 \<le> val a" "0 \<le> val b" "val m < R"
    using val_range wf by blast+
  have c: "wf c" "uint k \<le> 1" "val c - R * uint k = val a - val b"
    using sub_law [OF wf(1,2) d] by blast+
  show ?thesis
  proof (cases "k = 0")
    case True
    then show ?thesis
      using c val_range [OF c(1)] lt rng by (simp add: r_def mod_pos_pos_trivial)
  next
    case False
    then have k: "uint k = 1"
      using uint_flag [OF c(2)] by simp
    have s: "val c + val m = val a - val b + val m + R"
      using c(3) k by simp
    have "val r = (val c + val m) mod R"
      using False c(1) wf by (simp add: r_def val_add_mod)
    also have "\<dots> = (val a - val b + val m) mod R"
      unfolding s by (rule mod_add_self2)
    also have "\<dots> = val a - val b + val m"
      using lt rng c(3) k val_range [OF c(1)] by (intro mod_pos_pos_trivial) auto
    also have "\<dots> = (val a - val b + val m) mod val m"
      using lt rng c(3) k val_range [OF c(1)] by (intro mod_pos_pos_trivial [symmetric]) auto
    finally show ?thesis
      using False c(1) wf by (simp add: r_def)
  qed
qed

end

abbreviation mp_wf :: "u32 list \<Rightarrow> bool" where
  "mp_wf a \<equiv> length a = 8"

interpretation mp: fixed_width mp_wf mpval "2 ^ 256" multiprecision_add multiprecision_sub
    multiprecision_compare
proof unfold_locales
  fix x y z k
  show "mp_wf x \<Longrightarrow> 0 \<le> mpval x \<and> mpval x < 2 ^ 256"
    using mpval_less [of x] by simp
  show "mp_wf x \<Longrightarrow> mp_wf y \<Longrightarrow> multiprecision_add x y = (z, k) \<Longrightarrow>
      mp_wf z \<and> uint k \<le> 1 \<and> mpval z + 2 ^ 256 * uint k = mpval x + mpval y"
    using multiprecision_add_value [of x y z k] by simp
  show "mp_wf x \<Longrightarrow> mp_wf y \<Longrightarrow> multiprecision_sub x y = (z, k) \<Longrightarrow>
      mp_wf z \<and> uint k \<le> 1 \<and> mpval z - 2 ^ 256 * uint k = mpval x - mpval y"
    using multiprecision_sub_value [of x y z k] by simp
  show "mp_wf x \<Longrightarrow> mp_wf y \<Longrightarrow> multiprecision_compare x y = sgn (mpval x - mpval y)"
    by (simp add: multiprecision_compare_value)
qed

end
