(* ===== verification/P256_Field.thy ===== *)
theory P256_Field
  imports Multiprecision
begin

text \<open>
  The arithmetic modulo the P-256 prime of \<open>stack/smp/p_256_multprecision.cc\<close> and the
  curve constants of \<open>stack/smp/p_256_curvepara.cc\<close>. The global \<open>curve_p256.p\<close> that the
  routines read is the argument \<open>modp\<close>.
\<close>

unbundle bit_operations_syntax

section \<open>Curve parameters\<close>

record Point =
  pt_x :: "u32 list"
  pt_y :: "u32 list"
  pt_z :: "u32 list"

record elliptic_curve_t =
  coeff_a :: "u32 list"
  coeff_b :: "u32 list"
  a_minus3 :: bool
  prime_p :: "u32 list"
  omega :: "u32 list"
  base_G :: Point

text \<open>
  \<open>memset(dst, 0, KEY_LENGTH_DWORDS_P256)\<close> clears that many bytes, that is the first two
  words of the array.
\<close>

definition memset_zero_bytes :: "nat \<Rightarrow> u32 list \<Rightarrow> u32 list" where
  "memset_zero_bytes n ws = replicate (n div 4) 0 @ drop (n div 4) ws"

definition p_256_init_curve :: "elliptic_curve_t \<Rightarrow> elliptic_curve_t" where
  "p_256_init_curve ec =
     ec\<lparr>prime_p := [0xFFFFFFFF, 0xFFFFFFFF, 0xFFFFFFFF, 0x0, 0x0, 0x0, 0x00000001, 0xFFFFFFFF],
       omega := memset_zero_bytes KEY_LENGTH_DWORDS_P256 (omega ec),
       coeff_a := memset_zero_bytes KEY_LENGTH_DWORDS_P256 (coeff_a ec),
       a_minus3 := True,
       coeff_b := [0x27d2604b, 0x3bce3c3e, 0xcc53b0f6, 0x651d06b0,
                   0x769886bc, 0xb3ebbd55, 0xaa3a93e7, 0x5ac635d8],
       base_G := (base_G ec)
         \<lparr>pt_x := [0xd898c296, 0xf4a13945, 0x2deb33a0, 0x77037d81,
                0x63a440f2, 0xf8bce6e5, 0xe12c4247, 0x6b17d1f2],
          pt_y := [0x37bf51f5, 0xcbb64068, 0x6b315ece, 0x2bce3357,
                0x7c0f9e16, 0x8ee7eb4a, 0xfe1a7f9b, 0x4fe342e2]\<rparr>\<rparr>"

text \<open>A zero-initialised global, and the curve the routines run on.\<close>

definition zero_Point :: Point where
  "zero_Point = \<lparr>pt_x = replicate 8 0, pt_y = replicate 8 0, pt_z = replicate 8 0\<rparr>"

definition zero_curve :: elliptic_curve_t where
  "zero_curve = \<lparr>coeff_a = replicate 8 0, coeff_b = replicate 8 0, a_minus3 = False,
     prime_p = replicate 8 0, omega = replicate 8 0, base_G = zero_Point\<rparr>"

definition curve_p256 :: elliptic_curve_t where
  "curve_p256 = p_256_init_curve zero_curve"

section \<open>Modular addition, subtraction and doubling\<close>

definition multiprecision_lshift_mod :: "u32 list \<Rightarrow> u32 list \<Rightarrow> u32 list" where
  "multiprecision_lshift_mod modp a =
     (let (c, carrier) = multiprecision_lshift a
      in if carrier \<noteq> 0 then fst (multiprecision_sub c modp)
         else if 0 \<le> multiprecision_compare c modp then fst (multiprecision_sub c modp)
         else c)"

definition multiprecision_add_mod :: "u32 list \<Rightarrow> u32 list \<Rightarrow> u32 list \<Rightarrow> u32 list" where
  "multiprecision_add_mod modp a b =
     (let (c, carrier) = multiprecision_add a b
      in if carrier \<noteq> 0 then fst (multiprecision_sub c modp)
         else if 0 \<le> multiprecision_compare c modp then fst (multiprecision_sub c modp)
         else c)"

definition multiprecision_sub_mod :: "u32 list \<Rightarrow> u32 list \<Rightarrow> u32 list \<Rightarrow> u32 list" where
  "multiprecision_sub_mod modp a b =
     (let (c, borrow) = multiprecision_sub a b
      in if borrow \<noteq> 0 then fst (multiprecision_add c modp) else c)"

section \<open>Fast reduction modulo the P-256 prime\<close>

text \<open>
  The idioms \<open>c += x; U += (c < x)\<close> and \<open>U -= (c < x); c -= x\<close> on a word and its
  carry; the carry is \<open>uint8_t\<close> in the sums \<open>A\<close> to \<open>G\<close> and \<open>uint32_t\<close> in \<open>U\<close>.
\<close>

definition acc_add :: "u32 \<times> 'u::len word \<Rightarrow> u32 \<Rightarrow> u32 \<times> 'u word" where
  "acc_add = (\<lambda>(c, U) v. (c + v, U + of_bool (c + v < v)))"

definition acc_sub :: "u32 \<times> 'u::len word \<Rightarrow> u32 \<Rightarrow> u32 \<times> 'u word" where
  "acc_sub = (\<lambda>(c, U) v. (c - v, U - of_bool (c < v)))"

text \<open>\<open>U += k\<close> and \<open>U -= k\<close> for one of the 8-bit carries.\<close>

definition carry_add :: "u32 \<times> u32 \<Rightarrow> u8 \<Rightarrow> u32 \<times> u32" where
  "carry_add = (\<lambda>(c, U) k. (c, U + ucast k))"

definition carry_sub :: "u32 \<times> u32 \<Rightarrow> u8 \<Rightarrow> u32 \<times> u32" where
  "carry_sub = (\<lambda>(c, U) k. (c, U - ucast k))"

text \<open>
  The step between two words: \<open>U\<close>, negative in two's complement when its top bit is set,
  goes into the next word \<open>a_i\<close>.
\<close>

definition carry_into :: "u32 \<Rightarrow> u32 \<Rightarrow> u32 \<times> u32" where
  "carry_into a_i U =
     (if U AND 0x80000000 \<noteq> 0
      then (let UU = 0 - U in (a_i - UU, of_bool (a_i < UU)))
      else (let c = a_i + U in (c, of_bool (c < a_i))))"

definition mod_C :: "u32 list \<Rightarrow> u32 \<times> u8" where
  "mod_C a = acc_add (acc_add (a ! 13, 0) (a ! 14)) (a ! 15)"

definition mod_E :: "u32 list \<Rightarrow> u32 \<times> u8" where
  "mod_E a = acc_add (a ! 8, 0) (a ! 9)"

definition mod_F :: "u32 list \<Rightarrow> u32 \<times> u8" where
  "mod_F a = acc_add (a ! 9, 0) (a ! 10)"

definition mod_G :: "u32 list \<Rightarrow> u32 \<times> u8" where
  "mod_G a = acc_add (a ! 10, 0) (a ! 11)"

definition mod_B :: "u32 list \<Rightarrow> u32 \<times> u8" where
  "mod_B a = acc_add (mod_C a) (a ! 12)"

definition mod_A :: "u32 list \<Rightarrow> u32 \<times> u8" where
  "mod_A a = acc_sub (acc_add (mod_B a) (a ! 11)) (a ! 15)"

definition mod_D :: "u32 list \<Rightarrow> u32 \<times> u8" where
  "mod_D a = acc_sub (acc_add (mod_A a) (a ! 10)) (a ! 14)"

text \<open>\<open>mod_c i\<close> is the pair of \<open>c[i]\<close> and \<open>U\<close> after the code for \<open>c[i]\<close>.\<close>

definition mod_c0 :: "u32 list \<Rightarrow> u32 \<times> u32" where
  "mod_c0 a =
     (let (A, UA) = mod_A a; (E, UE) = mod_E a;
          s = acc_add (a ! 0, 0) E;
          s = carry_add s UE;
          s = acc_sub s A
      in carry_sub s UA)"

definition mod_c1 :: "u32 list \<Rightarrow> u32 \<times> u32" where
  "mod_c1 a =
     (let (B, UB) = mod_B a; (F, UF) = mod_F a;
          s = carry_into (a ! 1) (snd (mod_c0 a));
          s = acc_add s F;
          s = carry_add s UF;
          s = acc_sub s B
      in carry_sub s UB)"

definition mod_c2 :: "u32 list \<Rightarrow> u32 \<times> u32" where
  "mod_c2 a =
     (let (C, UC) = mod_C a; (G, UG) = mod_G a;
          s = carry_into (a ! 2) (snd (mod_c1 a));
          s = acc_add s G;
          s = carry_add s UG;
          s = acc_sub s C
      in carry_sub s UC)"

definition mod_c3 :: "u32 list \<Rightarrow> u32 \<times> u32" where
  "mod_c3 a =
     (let (A, UA) = mod_A a; (E, UE) = mod_E a;
          s = carry_into (a ! 3) (snd (mod_c2 a));
          s = acc_add s A;
          s = carry_add s UA;
          s = acc_add s (a ! 11);
          s = acc_add s (a ! 12);
          s = acc_sub s (a ! 14);
          s = acc_sub s (a ! 15);
          s = acc_sub s E
      in carry_sub s UE)"

definition mod_c4 :: "u32 list \<Rightarrow> u32 \<times> u32" where
  "mod_c4 a =
     (let (B, UB) = mod_B a; (F, UF) = mod_F a;
          s = carry_into (a ! 4) (snd (mod_c3 a));
          s = acc_add s B;
          s = carry_add s UB;
          s = acc_sub s (a ! 15);
          s = acc_add s (a ! 12);
          s = acc_add s (a ! 13);
          s = acc_sub s F
      in carry_sub s UF)"

definition mod_c5 :: "u32 list \<Rightarrow> u32 \<times> u32" where
  "mod_c5 a =
     (let (C, UC) = mod_C a; (G, UG) = mod_G a;
          s = carry_into (a ! 5) (snd (mod_c4 a));
          s = acc_add s C;
          s = carry_add s UC;
          s = acc_add s (a ! 13);
          s = acc_add s (a ! 14);
          s = acc_sub s G
      in carry_sub s UG)"

definition mod_c6 :: "u32 list \<Rightarrow> u32 \<times> u32" where
  "mod_c6 a =
     (let (C, UC) = mod_C a; (E, UE) = mod_E a;
          s = carry_into (a ! 6) (snd (mod_c5 a));
          s = acc_add s C;
          s = carry_add s UC;
          s = acc_add s (a ! 14);
          s = acc_add s (a ! 14);
          s = acc_add s (a ! 15);
          s = acc_sub s E
      in carry_sub s UE)"

definition mod_c7 :: "u32 list \<Rightarrow> u32 \<times> u32" where
  "mod_c7 a =
     (let (D, UD) = mod_D a;
          s = carry_into (a ! 7) (snd (mod_c6 a));
          s = acc_add s (a ! 15);
          s = acc_add s (a ! 15);
          s = acc_add s (a ! 15);
          s = acc_add s (a ! 8);
          s = acc_sub s D
      in carry_sub s UD)"

definition mod_words :: "u32 list \<Rightarrow> u32 list" where
  "mod_words a = [fst (mod_c0 a), fst (mod_c1 a), fst (mod_c2 a), fst (mod_c3 a),
                  fst (mod_c4 a), fst (mod_c5 a), fst (mod_c6 a), fst (mod_c7 a)]"

text \<open>\<open>while (U) { multiprecision_add(c, c, modp); U++; }\<close> and its counterpart.\<close>

function add_modp_while :: "u32 list \<Rightarrow> u32 list \<Rightarrow> u32 \<Rightarrow> u32 list" where
  "add_modp_while modp c U =
     (if U = 0 then c else add_modp_while modp (fst (multiprecision_add c modp)) (U + 1))"
  by pat_completeness auto
termination
proof (relation "measure (\<lambda>(modp, c, U). unat (- U))")
  fix U :: u32
  assume "U \<noteq> 0"
  then have "- U \<noteq> 0" by simp
  then have "unat (- U - 1) < unat (- U)"
    by (metis add_diff_cancel_left' diff_less unat_minus_one unat_gt_0 zero_less_one)
  then show "((modp, fst (multiprecision_add c modp), U + 1), (modp, c, U))
      \<in> measure (\<lambda>(modp, c, U). unat (- U))" for modp c
    by simp
qed simp

function sub_modp_while :: "u32 list \<Rightarrow> u32 list \<Rightarrow> u32 \<Rightarrow> u32 list" where
  "sub_modp_while modp c U =
     (if U = 0 then c else sub_modp_while modp (fst (multiprecision_sub c modp)) (U - 1))"
  by pat_completeness auto
termination
  by (relation "measure (\<lambda>(modp, c, U). unat U)") (simp_all add: measure_unat)

declare add_modp_while.simps [simp del] sub_modp_while.simps [simp del]

definition multiprecision_fast_mod_P256 :: "u32 list \<Rightarrow> u32 list \<Rightarrow> u32 list" where
  "multiprecision_fast_mod_P256 modp a =
     (let c = mod_words a;
          U = snd (mod_c7 a);
          c = (if U AND 0x80000000 \<noteq> 0 then add_modp_while modp c U
               else if U \<noteq> 0 then sub_modp_while modp c U
               else c)
      in if 0 \<le> multiprecision_compare c modp then fst (multiprecision_sub c modp) else c)"

definition multiprecision_mersenns_mult_mod :: "u32 list \<Rightarrow> u32 list \<Rightarrow> u32 list \<Rightarrow> u32 list" where
  "multiprecision_mersenns_mult_mod modp a b =
     multiprecision_fast_mod_P256 modp
       (multiprecision_mult (replicate (2 * KEY_LENGTH_DWORDS_P256) 0) a b)"

definition multiprecision_mersenns_squa_mod :: "u32 list \<Rightarrow> u32 list \<Rightarrow> u32 list" where
  "multiprecision_mersenns_squa_mod modp a = multiprecision_mersenns_mult_mod modp a a"

section \<open>Modular inversion\<close>

text \<open>
  One halving of a coefficient: \<open>A\<close> if it is even, \<open>A + p\<close> with its carry word
  \<open>A[KEY_LENGTH_DWORDS_P256]\<close> otherwise.
\<close>

definition halve_mod :: "u32 list \<Rightarrow> u32 list \<Rightarrow> u32 list" where
  "halve_mod modp A =
     (if A ! 0 AND 0x01 = 0 then multiprecision_rshift A
      else (let (A, top) = multiprecision_add A modp;
                A = multiprecision_rshift A
            in A[KEY_LENGTH_DWORDS_P256 - 1 :=
                 A ! (KEY_LENGTH_DWORDS_P256 - 1) OR push_bit 31 top]))"

text \<open>\<open>while (!(u[0] & 0x01)) { ... }\<close>: \<open>None\<close> is a loop that does not end.\<close>

partial_function (option) halve_loop ::
    "u32 list \<Rightarrow> u32 list \<Rightarrow> u32 list \<Rightarrow> (u32 list \<times> u32 list) option" where
  "halve_loop modp u A =
     (if u ! 0 AND 0x01 = 0
      then halve_loop modp (multiprecision_rshift u) (halve_mod modp A)
      else Some (u, A))"

partial_function (option) inv_loop ::
    "u32 list \<Rightarrow> u32 list \<Rightarrow> u32 list \<Rightarrow> u32 list \<Rightarrow> u32 list \<Rightarrow> u32 list option" where
  "inv_loop modp u v A C =
     (if multiprecision_iszero u then Some C
      else Option.bind (halve_loop modp u A) (\<lambda>(u, A).
           Option.bind (halve_loop modp v C) (\<lambda>(v, C).
           if 0 \<le> multiprecision_compare u v
           then inv_loop modp (fst (multiprecision_sub u v)) v (multiprecision_sub_mod modp A C) C
           else inv_loop modp u (fst (multiprecision_sub v u)) A
                  (multiprecision_sub_mod modp C A))))"

definition multiprecision_inv_mod :: "u32 list \<Rightarrow> u32 list \<Rightarrow> u32 list option" where
  "multiprecision_inv_mod modp u =
     map_option
       (\<lambda>C. if 0 \<le> multiprecision_compare C modp then fst (multiprecision_sub C modp) else C)
       (inv_loop modp u modp ((replicate KEY_LENGTH_DWORDS_P256 0)[0 := 1])
          (replicate KEY_LENGTH_DWORDS_P256 0))"

end
