(* ===== verification/P256_Reduction.thy ===== *)
theory P256_Reduction
  imports P256_Field
begin

text \<open>
  Correctness of \<open>multiprecision_fast_mod_P256\<close> and of the multiplication modulo the
  P-256 prime. A pair of a word and its carry is read as one signed number; each group of
  lemmas follows one idiom of the source, and the eight words together give the value of
  the reduction. Two defects of the source are stated exactly: a borrow out of
  \<open>carry_into\<close> comes back as \<open>+1\<close> (\<open>lost_borrow\<close>), and the final correction by multiples of
  the prime works modulo \<open>2 ^ 256\<close> without looking at its own carry.
\<close>

unbundle bit_operations_syntax

section \<open>Words with a signed carry\<close>

definition sval :: "u32 \<times> 'u::len word \<Rightarrow> int" where
  "sval s = uint (fst s) + 2 ^ 32 * sint (snd s)"

text \<open>\<open>tracks n v s\<close>: the pair \<open>s\<close> holds \<open>v\<close> and its carry is at most \<open>n\<close> in size.\<close>

definition tracks :: "int \<Rightarrow> int \<Rightarrow> u32 \<times> 'u::len word \<Rightarrow> bool" where
  "tracks n v s \<longleftrightarrow> sval s = v \<and> \<bar>sint (snd s)\<bar> \<le> n"

lemma sint_add_small:
  fixes a b :: "'u::len word"
  assumes "- (2 ^ (LENGTH('u) - 1)) \<le> sint a + sint b" "sint a + sint b < 2 ^ (LENGTH('u) - 1)"
  shows "sint (a + b) = sint a + sint b"
  using assms by (simp add: sint_word_ariths signed_take_bit_int_eq_self)

lemma sint_diff_small:
  fixes a b :: "'u::len word"
  assumes "- (2 ^ (LENGTH('u) - 1)) \<le> sint a - sint b" "sint a - sint b < 2 ^ (LENGTH('u) - 1)"
  shows "sint (a - b) = sint a - sint b"
  using assms by (simp add: sint_word_ariths signed_take_bit_int_eq_self)

lemma sint_of_bool8 [simp]: "sint (of_bool b :: u8) = of_bool b"
  by (cases b) simp_all
lemma sint_of_bool32 [simp]: "sint (of_bool b :: u32) = of_bool b"
  by (cases b) simp_all

lemma tracks_start: "tracks 0 (uint c) (c, 0)"
  by (simp add: tracks_def sval_def)

lemma tracks_acc_add:
  fixes s :: "u32 \<times> 'u::len word"
  assumes "tracks n v s" and "n + 1 < 2 ^ (LENGTH('u) - 1)"
    and b: "\<And>b. sint (of_bool b :: 'u word) = of_bool b"
  shows "tracks (n + 1) (v + uint x) (acc_add s x)"
proof -
  obtain c U where s: "s = (c, U)" by fastforce
  have U: "\<bar>sint U\<bar> \<le> n" "uint c + 2 ^ 32 * sint U = v"
    using assms(1) by (simp_all add: tracks_def sval_def s)
  have "sint (U + of_bool (c + x < x)) = sint U + of_bool (c + x < x)"
    using U assms(2) by (subst sint_add_small) (auto simp: abs_le_iff b)
  then show ?thesis
    using U uint_add_carry [of c x]
    by (auto simp: tracks_def sval_def s acc_add_def algebra_simps abs_le_iff)
qed

lemma tracks_acc_sub:
  fixes s :: "u32 \<times> 'u::len word"
  assumes "tracks n v s" and "n + 1 < 2 ^ (LENGTH('u) - 1)"
    and b: "\<And>b. sint (of_bool b :: 'u word) = of_bool b"
  shows "tracks (n + 1) (v - uint x) (acc_sub s x)"
proof -
  obtain c U where s: "s = (c, U)" by fastforce
  have U: "\<bar>sint U\<bar> \<le> n" "uint c + 2 ^ 32 * sint U = v"
    using assms(1) by (simp_all add: tracks_def sval_def s)
  have "sint (U - of_bool (c < x)) = sint U - of_bool (c < x)"
    using U assms(2) by (subst sint_diff_small) (auto simp: abs_le_iff b)
  then show ?thesis
    using U uint_sub_borrow [of c x]
    by (auto simp: tracks_def sval_def s acc_sub_def algebra_simps abs_le_iff)
qed

lemmas tracks_add8 = tracks_acc_add [where 'u = 8, OF _ _ sint_of_bool8, simplified]
lemmas tracks_sub8 = tracks_acc_sub [where 'u = 8, OF _ _ sint_of_bool8, simplified]
lemmas tracks_add32 = tracks_acc_add [where 'u = 32, OF _ _ sint_of_bool32, simplified]
lemmas tracks_sub32 = tracks_acc_sub [where 'u = 32, OF _ _ sint_of_bool32, simplified]

definition sum8 :: "int \<Rightarrow> u32 \<times> u8 \<Rightarrow> bool" where
  "sum8 w s \<longleftrightarrow> uint (fst s) + 2 ^ 32 * uint (snd s) = w \<and> uint (snd s) \<le> 10"

lemma uint_eq_sint:
  fixes w :: "'u::len word"
  assumes "0 \<le> sint w"
  shows "uint w = sint w"
proof -
  have "sint w < 2 ^ LENGTH('u)"
    using sint_lt [of w] power_increasing [of "LENGTH('u) - 1" "LENGTH('u)" "2 :: int"] by linarith
  then show ?thesis
    using assms by (simp only: uint_sint take_bit_int_eq_self)
qed

lemma sum8I:
  assumes "tracks n w s" and "n \<le> 10" and "0 \<le> w"
  shows "sum8 w s"
proof -
  obtain c k where s: "s = (c, k)" by fastforce
  have v: "uint c + 4294967296 * sint k = w" and k: "\<bar>sint k\<bar> \<le> n"
    using assms(1) by (simp_all add: tracks_def sval_def s)
  have "uint c < 4294967296" using uint_bounded [of c] by simp
  then have nn: "0 \<le> sint k" using v assms(3) by linarith
  have "uint k = sint k"
    by (rule uint_eq_sint [OF nn])
  then show ?thesis
    using v k assms(2) nn by (simp add: sum8_def s)
qed

lemma sint_ucast8 [simp]: "sint (ucast (k :: u8) :: u32) = uint k"
proof -
  have "uint k < 2147483648"
    using uint_bounded [of k] by simp
  moreover have "- 2147483648 \<le> uint k"
    using uint_nonnegative [of k] by linarith
  ultimately show ?thesis
    by (simp add: signed_ucast_eq signed_take_bit_int_eq_self)
qed

lemma tracks_sum_add:
  assumes "tracks n v s" and "n \<le> 1000" and "sum8 w (A, k)"
  shows "tracks (n + 11) (v + w) (carry_add (acc_add s A) k)"
proof -
  obtain c U where s: "acc_add s A = (c, U)" by fastforce
  have U: "\<bar>sint U\<bar> \<le> n + 1" "uint c + 2 ^ 32 * sint U = v + uint A"
    using tracks_add32 [OF assms(1), of A] assms(2) by (simp_all add: tracks_def sval_def s)
  define j where "j = sint (ucast k :: u32)"
  have j: "uint A + 2 ^ 32 * j = w" "0 \<le> j" "j \<le> 10"
    using assms(3) by (simp_all add: sum8_def j_def)
  have "sint (U + ucast k) = sint U + j"
    unfolding j_def using U assms(2) j [unfolded j_def]
    by (intro sint_add_small) (auto simp: abs_le_iff simp del: sint_ucast8)
  then show ?thesis
    using U j by (simp add: tracks_def sval_def s carry_add_def abs_le_iff) 
qed

lemma tracks_sum_sub:
  assumes "tracks n v s" and "n \<le> 1000" and "sum8 w (A, k)"
  shows "tracks (n + 11) (v - w) (carry_sub (acc_sub s A) k)"
proof -
  obtain c U where s: "acc_sub s A = (c, U)" by fastforce
  have U: "\<bar>sint U\<bar> \<le> n + 1" "uint c + 2 ^ 32 * sint U = v - uint A"
    using tracks_sub32 [OF assms(1), of A] assms(2) by (simp_all add: tracks_def sval_def s)
  define j where "j = sint (ucast k :: u32)"
  have j: "uint A + 2 ^ 32 * j = w" "0 \<le> j" "j \<le> 10"
    using assms(3) by (simp_all add: sum8_def j_def)
  have "sint (U - ucast k) = sint U - j"
    unfolding j_def using U assms(2) j [unfolded j_def]
    by (intro sint_diff_small) (auto simp: abs_le_iff simp del: sint_ucast8)
  then show ?thesis
    using U j by (simp add: tracks_def sval_def s carry_sub_def abs_le_iff) 
qed

lemma top_bit_neg:
  fixes U :: u32
  shows "U AND 0x80000000 \<noteq> 0 \<longleftrightarrow> sint U < 0"
  using and_exp_eq_0_iff_not_bit [of U 31] bit_last_iff [of U] by simp

definition lost_borrow :: "u32 \<Rightarrow> u32 \<Rightarrow> bool" where
  "lost_borrow a_i U \<longleftrightarrow> sint U < 0 \<and> uint a_i + sint U < 0"

lemma tracks_carry_into:
  assumes "\<bar>sint U\<bar> \<le> 1000" and "\<not> lost_borrow a_i U"
  shows "tracks 1 (uint a_i + sint U) (carry_into a_i U)"
proof (cases "sint U < 0")
  case True
  have "sint (0 - U) = sint (0 :: u32) - sint U"
    using assms(1) True by (intro sint_diff_small) simp_all
  then have u: "uint (- U) = - sint U"
    using True uint_eq_sint [of "- U"] by simp
  have "\<not> a_i < - U"
    using assms(2) True u by (simp add: lost_borrow_def word_less_def)
  then show ?thesis
    using True u uint_sub_borrow [of a_i "- U"] top_bit_neg [of U]
    by (simp add: carry_into_def Let_def tracks_def sval_def)
next
  case False
  then have u: "uint U = sint U"
    by (intro uint_eq_sint) simp
  show ?thesis
    using False u uint_add_carry [of U a_i] top_bit_neg [of U]
    by (simp add: carry_into_def Let_def tracks_def sval_def add.commute)
qed

lemma tracks_carry: "tracks n v s \<Longrightarrow> \<bar>sint (snd s)\<bar> \<le> n"
  by (simp add: tracks_def)

lemma tracks_eq: "tracks n v s \<Longrightarrow> uint (fst s) + 2 ^ 32 * sint (snd s) = v"
  by (simp add: tracks_def sval_def)

lemma tracks_mono: "tracks n v s \<Longrightarrow> n \<le> m \<Longrightarrow> tracks m v s"
  by (simp add: tracks_def)

subsection \<open>The sums\<close>

abbreviation limb :: "u32 list \<Rightarrow> nat \<Rightarrow> int" where
  "limb a i \<equiv> uint (a ! i)"

lemma tracks_C: "tracks 2 (limb a 13 + limb a 14 + limb a 15) (mod_C a)"
  using tracks_add8 [OF tracks_add8 [OF tracks_start], of "a ! 13" "a ! 14" "a ! 15"]
  by (simp add: mod_C_def)

lemma sum_C: "sum8 (limb a 13 + limb a 14 + limb a 15) (mod_C a)"
  by (rule sum8I [OF tracks_C]) simp_all

lemma sum_E: "sum8 (limb a 8 + limb a 9) (mod_E a)"
  using tracks_add8 [OF tracks_start, of "a ! 8" "a ! 9"]
  by (intro sum8I [where n = 1]) (simp_all add: mod_E_def)

lemma sum_F: "sum8 (limb a 9 + limb a 10) (mod_F a)"
  using tracks_add8 [OF tracks_start, of "a ! 9" "a ! 10"]
  by (intro sum8I [where n = 1]) (simp_all add: mod_F_def)

lemma sum_G: "sum8 (limb a 10 + limb a 11) (mod_G a)"
  using tracks_add8 [OF tracks_start, of "a ! 10" "a ! 11"]
  by (intro sum8I [where n = 1]) (simp_all add: mod_G_def)

lemma tracks_B: "tracks 3 (limb a 13 + limb a 14 + limb a 15 + limb a 12) (mod_B a)"
  using tracks_add8 [OF tracks_C [of a], of "a ! 12"] by (simp add: mod_B_def)

lemma sum_B: "sum8 (limb a 12 + limb a 13 + limb a 14 + limb a 15) (mod_B a)"
  using tracks_B [of a] by (intro sum8I [where n = 3]) (simp_all add: algebra_simps)

lemma tracks_A: "tracks 5 (limb a 11 + limb a 12 + limb a 13 + limb a 14) (mod_A a)"
  using tracks_sub8 [OF tracks_add8 [OF tracks_B [of a], of "a ! 11"], of "a ! 15"]
  by (simp add: mod_A_def algebra_simps)

lemma sum_A: "sum8 (limb a 11 + limb a 12 + limb a 13 + limb a 14) (mod_A a)"
  by (rule sum8I [OF tracks_A]) simp_all

lemma sum_D: "sum8 (limb a 10 + limb a 11 + limb a 12 + limb a 13) (mod_D a)"
  using tracks_sub8 [OF tracks_add8 [OF tracks_A [of a], of "a ! 10"], of "a ! 14"]
  by (intro sum8I [where n = 7]) (simp_all add: mod_D_def algebra_simps)

subsection \<open>The words\<close>

lemma tracks_c0:
  "tracks 22 (limb a 0 + (limb a 8 + limb a 9) - (limb a 11 + limb a 12 + limb a 13 + limb a 14))
     (mod_c0 a)"
proof -
  obtain E UE A UA where E: "mod_E a = (E, UE)" and A: "mod_A a = (A, UA)"
    by fastforce
  show ?thesis
    using tracks_sum_sub [OF tracks_sum_add [OF tracks_start [of "a ! 0"] _ sum_E [of a, unfolded E]] _ sum_A [of a, unfolded A]]
    by (simp add: mod_c0_def Let_def E A)
qed

lemma tracks_c1:
  assumes "\<not> lost_borrow (a ! 1) (snd (mod_c0 a))" and "\<bar>sint (snd (mod_c0 a))\<bar> \<le> 1000"
  shows "tracks 23 (limb a 1 + sint (snd (mod_c0 a)) + (limb a 9 + limb a 10) - (limb a 12 + limb a 13 + limb a 14 + limb a 15))
     (mod_c1 a)"
proof -
  obtain F UF B UB where F: "mod_F a = (F, UF)" and B: "mod_B a = (B, UB)"
    by fastforce
  show ?thesis
    using tracks_sum_sub [OF tracks_sum_add [OF tracks_carry_into [OF assms(2,1)] _ sum_F [of a, unfolded F]] _ sum_B [of a, unfolded B]]
    by (simp add: mod_c1_def Let_def F B)
qed

lemma tracks_c2:
  assumes "\<not> lost_borrow (a ! 2) (snd (mod_c1 a))" and "\<bar>sint (snd (mod_c1 a))\<bar> \<le> 1000"
  shows "tracks 23 (limb a 2 + sint (snd (mod_c1 a)) + (limb a 10 + limb a 11) - (limb a 13 + limb a 14 + limb a 15))
     (mod_c2 a)"
proof -
  obtain G UG C UC where G: "mod_G a = (G, UG)" and C: "mod_C a = (C, UC)"
    by fastforce
  show ?thesis
    using tracks_sum_sub [OF tracks_sum_add [OF tracks_carry_into [OF assms(2,1)] _ sum_G [of a, unfolded G]] _ sum_C [of a, unfolded C]]
    by (simp add: mod_c2_def Let_def G C)
qed

lemma tracks_c3:
  assumes "\<not> lost_borrow (a ! 3) (snd (mod_c2 a))" and "\<bar>sint (snd (mod_c2 a))\<bar> \<le> 1000"
  shows "tracks 27 (limb a 3 + sint (snd (mod_c2 a)) + (limb a 11 + limb a 12 + limb a 13 + limb a 14) + limb a 11 + limb a 12 - limb a 14 - limb a 15 - (limb a 8 + limb a 9))
     (mod_c3 a)"
proof -
  obtain A UA E UE where A: "mod_A a = (A, UA)" and E: "mod_E a = (E, UE)"
    by fastforce
  show ?thesis
    using tracks_sum_sub [OF tracks_sub32 [OF tracks_sub32 [OF tracks_add32 [OF tracks_add32 [OF tracks_sum_add [OF tracks_carry_into [OF assms(2,1)] _ sum_A [of a, unfolded A]], of "a ! 11"], of "a ! 12"], of "a ! 14"], of "a ! 15"] _ sum_E [of a, unfolded E]]
    by (simp add: mod_c3_def Let_def A E)
qed

lemma tracks_c4:
  assumes "\<not> lost_borrow (a ! 4) (snd (mod_c3 a))" and "\<bar>sint (snd (mod_c3 a))\<bar> \<le> 1000"
  shows "tracks 26 (limb a 4 + sint (snd (mod_c3 a)) + (limb a 12 + limb a 13 + limb a 14 + limb a 15) - limb a 15 + limb a 12 + limb a 13 - (limb a 9 + limb a 10))
     (mod_c4 a)"
proof -
  obtain B UB F UF where B: "mod_B a = (B, UB)" and F: "mod_F a = (F, UF)"
    by fastforce
  show ?thesis
    using tracks_sum_sub [OF tracks_add32 [OF tracks_add32 [OF tracks_sub32 [OF tracks_sum_add [OF tracks_carry_into [OF assms(2,1)] _ sum_B [of a, unfolded B]], of "a ! 15"], of "a ! 12"], of "a ! 13"] _ sum_F [of a, unfolded F]]
    by (simp add: mod_c4_def Let_def B F)
qed

lemma tracks_c5:
  assumes "\<not> lost_borrow (a ! 5) (snd (mod_c4 a))" and "\<bar>sint (snd (mod_c4 a))\<bar> \<le> 1000"
  shows "tracks 25 (limb a 5 + sint (snd (mod_c4 a)) + (limb a 13 + limb a 14 + limb a 15) + limb a 13 + limb a 14 - (limb a 10 + limb a 11))
     (mod_c5 a)"
proof -
  obtain C UC G UG where C: "mod_C a = (C, UC)" and G: "mod_G a = (G, UG)"
    by fastforce
  show ?thesis
    using tracks_sum_sub [OF tracks_add32 [OF tracks_add32 [OF tracks_sum_add [OF tracks_carry_into [OF assms(2,1)] _ sum_C [of a, unfolded C]], of "a ! 13"], of "a ! 14"] _ sum_G [of a, unfolded G]]
    by (simp add: mod_c5_def Let_def C G)
qed

lemma tracks_c6:
  assumes "\<not> lost_borrow (a ! 6) (snd (mod_c5 a))" and "\<bar>sint (snd (mod_c5 a))\<bar> \<le> 1000"
  shows "tracks 26 (limb a 6 + sint (snd (mod_c5 a)) + (limb a 13 + limb a 14 + limb a 15) + limb a 14 + limb a 14 + limb a 15 - (limb a 8 + limb a 9))
     (mod_c6 a)"
proof -
  obtain C UC E UE where C: "mod_C a = (C, UC)" and E: "mod_E a = (E, UE)"
    by fastforce
  show ?thesis
    using tracks_sum_sub [OF tracks_add32 [OF tracks_add32 [OF tracks_add32 [OF tracks_sum_add [OF tracks_carry_into [OF assms(2,1)] _ sum_C [of a, unfolded C]], of "a ! 14"], of "a ! 14"], of "a ! 15"] _ sum_E [of a, unfolded E]]
    by (simp add: mod_c6_def Let_def C E)
qed

lemma tracks_c7:
  assumes "\<not> lost_borrow (a ! 7) (snd (mod_c6 a))" and "\<bar>sint (snd (mod_c6 a))\<bar> \<le> 1000"
  shows "tracks 16 (limb a 7 + sint (snd (mod_c6 a)) + limb a 15 + limb a 15 + limb a 15 + limb a 8 - (limb a 10 + limb a 11 + limb a 12 + limb a 13))
     (mod_c7 a)"
proof -
  obtain D UD where D: "mod_D a = (D, UD)"
    by fastforce
  show ?thesis
    using tracks_sum_sub [OF tracks_add32 [OF tracks_add32 [OF tracks_add32 [OF tracks_add32 [OF tracks_carry_into [OF assms(2,1)], of "a ! 15"], of "a ! 15"], of "a ! 15"], of "a ! 8"] _ sum_D [of a, unfolded D]]
    by (simp add: mod_c7_def Let_def D)
qed


section \<open>Value of the reduction\<close>

definition p256 :: int where
  "p256 = 2 ^ 256 - 2 ^ 224 + 2 ^ 192 + 2 ^ 96 - 1"

definition no_lost_borrow :: "u32 list \<Rightarrow> bool" where
  "no_lost_borrow a \<longleftrightarrow>
     \<not> lost_borrow (a ! 1) (snd (mod_c0 a)) \<and> \<not> lost_borrow (a ! 2) (snd (mod_c1 a)) \<and>
     \<not> lost_borrow (a ! 3) (snd (mod_c2 a)) \<and> \<not> lost_borrow (a ! 4) (snd (mod_c3 a)) \<and>
     \<not> lost_borrow (a ! 5) (snd (mod_c4 a)) \<and> \<not> lost_borrow (a ! 6) (snd (mod_c5 a)) \<and>
     \<not> lost_borrow (a ! 7) (snd (mod_c6 a))"

lemma mpval_16:
  assumes "length a = 16"
  shows "mpval a = limb a 0 + 2 ^ 32 * limb a 1 + 2 ^ 64 * limb a 2 + 2 ^ 96 * limb a 3 + 2 ^ 128 * limb a 4 +
    2 ^ 160 * limb a 5 + 2 ^ 192 * limb a 6 + 2 ^ 224 * limb a 7 + 2 ^ 256 * limb a 8 + 2 ^ 288 * limb a 9 +
    2 ^ 320 * limb a 10 + 2 ^ 352 * limb a 11 + 2 ^ 384 * limb a 12 + 2 ^ 416 * limb a 13 +
    2 ^ 448 * limb a 14 + 2 ^ 480 * limb a 15"
proof -
  have "a = map ((!) a) [0..<16]"
    using map_nth [of a] assms by simp
  then have "mpval a = mpval (map ((!) a) [0..<16])"
    by simp
  also have "[0..<16] = [0, 1, 2, 3, 4, 5, 6, 7, 8, 9, 10, 11, 12, 13, 14, 15 :: nat]"
    by code_simp
  finally show ?thesis
    by (simp add: algebra_simps)
qed

lemma mod_words_value:
  assumes len: "length a = 16" and ok: "no_lost_borrow a"
  shows "mpval (mod_words a) + 2 ^ 256 * sint (snd (mod_c7 a)) =
      mpval a - p256 * (limb a 8 + 4294967297 * limb a 9 + 18446744078004518912 * limb a 10 +
        79228162532711081667253501951 * limb a 11 + 340282367000166625977638945021017194495 * limb a 12 +
        1461501637671185285124623296161210883009696235519 * limb a 13 +
        6277101736848182401166692341332123086285927382448418586623 * limb a 14 +
        26959946673427741530053695850515137729844644212646842236464328081408 * limb a 15)"
    and "\<bar>sint (snd (mod_c7 a))\<bar> \<le> 1000"
proof -
  from ok have o:
    "\<not> lost_borrow (a ! 1) (snd (mod_c0 a))"
    "\<not> lost_borrow (a ! 2) (snd (mod_c1 a))"
    "\<not> lost_borrow (a ! 3) (snd (mod_c2 a))"
    "\<not> lost_borrow (a ! 4) (snd (mod_c3 a))"
    "\<not> lost_borrow (a ! 5) (snd (mod_c4 a))"
    "\<not> lost_borrow (a ! 6) (snd (mod_c5 a))"
    "\<not> lost_borrow (a ! 7) (snd (mod_c6 a))"
    by (simp_all add: no_lost_borrow_def)
  note c0 = tracks_c0 [of a]
  note c1 = tracks_c1 [OF o(1) order_trans [OF tracks_carry [OF c0]], simplified]
  note c2 = tracks_c2 [OF o(2) order_trans [OF tracks_carry [OF c1]], simplified]
  note c3 = tracks_c3 [OF o(3) order_trans [OF tracks_carry [OF c2]], simplified]
  note c4 = tracks_c4 [OF o(4) order_trans [OF tracks_carry [OF c3]], simplified]
  note c5 = tracks_c5 [OF o(5) order_trans [OF tracks_carry [OF c4]], simplified]
  note c6 = tracks_c6 [OF o(6) order_trans [OF tracks_carry [OF c5]], simplified]
  note c7 = tracks_c7 [OF o(7) order_trans [OF tracks_carry [OF c6]], simplified]
  have solve: "c + 2 ^ 32 * k = v \<Longrightarrow> c = v - 2 ^ 32 * k" for c k v :: int
    by simp
  note eqs = c0 [THEN tracks_eq] c1 [THEN tracks_eq] c2 [THEN tracks_eq] c3 [THEN tracks_eq]
    c4 [THEN tracks_eq] c5 [THEN tracks_eq] c6 [THEN tracks_eq] c7 [THEN tracks_eq]
  show "\<bar>sint (snd (mod_c7 a))\<bar> \<le> 1000"
    using tracks_carry [OF c7] by simp
  show "mpval (mod_words a) + 2 ^ 256 * sint (snd (mod_c7 a)) =
      mpval a - p256 * (limb a 8 + 4294967297 * limb a 9 + 18446744078004518912 * limb a 10 +
        79228162532711081667253501951 * limb a 11 + 340282367000166625977638945021017194495 * limb a 12 +
        1461501637671185285124623296161210883009696235519 * limb a 13 +
        6277101736848182401166692341332123086285927382448418586623 * limb a 14 +
        26959946673427741530053695850515137729844644212646842236464328081408 * limb a 15)"
    by (simp add: mod_words_def mpval_16 [OF len] p256_def eqs [THEN solve] algebra_simps)
qed
section \<open>The final correction\<close>

lemma p256_prime_words [simp]:
  "mp_wf (prime_p curve_p256)" "mpval (prime_p curve_p256) = p256"
  by (simp_all add: curve_p256_def p_256_init_curve_def p256_def)

lemma p256_bounds: "0 < p256" "p256 < 2 ^ 256" "2 ^ 256 < 2 * p256" 
  by (simp_all add: p256_def)

lemma modp_while_0 [simp]:
  "add_modp_while modp c 0 = c" "sub_modp_while modp c 0 = c"
  by (simp_all add: add_modp_while.simps sub_modp_while.simps)

lemma add_modp_while_value:
  assumes "mp_wf modp" and "mp_wf c"
  shows "mp_wf (add_modp_while modp c U) \<and>
    mpval (add_modp_while modp c U) = (mpval c + uint (- U) * mpval modp) mod 2 ^ 256"
  using assms
proof (induction modp c U rule: add_modp_while.induct)
  case (1 modp c U)
  show ?case
  proof (cases "U = 0")
    case True
    then show ?thesis
      using "1.prems" mp.val_range [of c] by simp
  next
    case False
    let ?c = "fst (multiprecision_add c modp)"
    have u: "uint (- (U + 1)) = uint (- U) - 1"
    proof -
      have "- U \<noteq> 0" using False by simp
      then show ?thesis using uint_minus_simple_alt [of 1 "- U"]
        by (simp add: word_le_nat_alt unat_gt_0 Suc_le_eq)
    qed
    have wf: "mp_wf (add_modp_while modp c U)" and
        "mpval (add_modp_while modp c U) = (mpval ?c + uint (- (U + 1)) * mpval modp) mod 2 ^ 256"
      using "1.IH" [OF False] "1.prems" mp.wf_fst_add [of c modp] False
      by (simp_all add: add_modp_while.simps [of modp c U])
    note this(2)
    also have "mpval ?c = (mpval c + mpval modp) mod 2 ^ 256"
      using "1.prems" by (intro mp.val_add_mod) simp_all
    also have "((mpval c + mpval modp) mod 2 ^ 256 + uint (- (U + 1)) * mpval modp) mod 2 ^ 256 =
        (mpval c + mpval modp + uint (- (U + 1)) * mpval modp) mod 2 ^ 256"
      by (rule mod_add_left_eq)
    finally show ?thesis
      using wf by (simp only: u) (simp add: algebra_simps)
  qed
qed

lemma sub_modp_while_value:
  assumes "mp_wf modp" and "mp_wf c"
  shows "mp_wf (sub_modp_while modp c U) \<and>
    mpval (sub_modp_while modp c U) = (mpval c - uint U * mpval modp) mod 2 ^ 256"
  using assms
proof (induction modp c U rule: sub_modp_while.induct)
  case (1 modp c U)
  show ?case
  proof (cases "U = 0")
    case True
    then show ?thesis
      using "1.prems" mp.val_range [of c] by simp
  next
    case False
    let ?c = "fst (multiprecision_sub c modp)"
    have u: "uint (U - 1) = uint U - 1"
      using False uint_minus_simple_alt [of 1 U]
        by (simp add: word_le_nat_alt unat_gt_0 Suc_le_eq)
    have wf: "mp_wf (sub_modp_while modp c U)" and
        "mpval (sub_modp_while modp c U) = (mpval ?c - uint (U - 1) * mpval modp) mod 2 ^ 256"
      using "1.IH" [OF False] "1.prems" mp.wf_fst_sub [of c modp] False
      by (simp_all add: sub_modp_while.simps [of modp c U])
    note this(2)
    also have "mpval ?c = (mpval c - mpval modp) mod 2 ^ 256"
      using "1.prems" by (intro mp.val_sub_mod) simp_all
    also have "((mpval c - mpval modp) mod 2 ^ 256 - uint (U - 1) * mpval modp) mod 2 ^ 256 =
        (mpval c - mpval modp - uint (U - 1) * mpval modp) mod 2 ^ 256"
      by (rule mod_diff_left_eq)
    finally show ?thesis
      using wf by (simp only: u) (simp add: algebra_simps)
  qed
qed

definition fast_mod_exact :: "u32 list \<Rightarrow> bool" where
  "fast_mod_exact a \<longleftrightarrow> no_lost_borrow a \<and>
     (let s = mpval (mod_words a) + sint (snd (mod_c7 a)) * (2 ^ 256 - p256)
      in 0 \<le> s \<and> s < 2 ^ 256)"

lemma uint_minus_neg:
  fixes U :: u32
  assumes "sint U < 0"
  shows "uint (- U) = - sint U"
proof -
  have "- U = word_of_int (- sint U)"
    by simp
  then have "uint (- U) = take_bit 32 (- sint U)"
    by (simp only: uint_word_of_int_eq) simp
  moreover have "- sint U < 2 ^ 32"
    using sint_ge [of U] by simp
  ultimately show ?thesis
    using assms by (simp add: take_bit_int_eq_self)
qed

lemma final_correction:
  fixes c :: "u32 list" and U :: u32
  assumes "mp_wf modp" and "mp_wf c"
  defines "r \<equiv> (if U AND 0x80000000 \<noteq> 0 then add_modp_while modp c U
               else if U \<noteq> 0 then sub_modp_while modp c U else c)"
  shows "mp_wf r \<and> mpval r = (mpval c + sint U * (2 ^ 256 - mpval modp)) mod 2 ^ 256"
proof -
  have eq: "(mpval c + sint U * (2 ^ 256 - mpval modp)) mod 2 ^ 256 =
      (mpval c - sint U * mpval modp) mod 2 ^ 256"
  proof -
    have "mpval c + sint U * (2 ^ 256 - mpval modp) = mpval c - sint U * mpval modp + sint U * 2 ^ 256"
      by (simp add: right_diff_distrib)
    then show ?thesis by (simp only: mod_mult_self1)
  qed
  show ?thesis
  proof (cases "sint U < 0")
    case True
    then have "uint (- U) = - sint U" by (rule uint_minus_neg)
    then show ?thesis
      using True add_modp_while_value [OF assms(1,2), of U] top_bit_neg [of U]
      unfolding eq by (simp add: r_def)
  next
    case False
    then have "uint U = sint U" by (intro uint_eq_sint) simp
    then show ?thesis
      using False sub_modp_while_value [OF assms(1,2), of U] top_bit_neg [of U]
        mp.val_range [OF assms(2)] assms(2)
      unfolding eq by (auto simp: r_def)
  qed
qed

lemma fast_mod_range:
  assumes "length a = 16"
  shows "mp_wf (multiprecision_fast_mod_P256 (prime_p curve_p256) a)"
    and "mpval (multiprecision_fast_mod_P256 (prime_p curve_p256) a) =
      ((mpval (mod_words a) + sint (snd (mod_c7 a)) * (2 ^ 256 - p256)) mod 2 ^ 256) mod p256"
proof -
  let ?m = "prime_p curve_p256" and ?U = "snd (mod_c7 a)"
  define c where "c = (if ?U AND 0x80000000 \<noteq> 0 then add_modp_while ?m (mod_words a) ?U
      else if ?U \<noteq> 0 then sub_modp_while ?m (mod_words a) ?U else mod_words a)"
  have c: "mp_wf c" "mpval c = (mpval (mod_words a) + sint ?U * (2 ^ 256 - p256)) mod 2 ^ 256"
    using final_correction [of ?m "mod_words a" ?U] by (simp_all add: c_def mod_words_def)
  have "mpval c + 2 ^ 256 * uint (0 :: u32) < 2 * mpval ?m"
    using mp.val_range [OF c(1)] p256_bounds by simp
  then have "mp_wf (if 0 \<le> multiprecision_compare c ?m then fst (multiprecision_sub c ?m) else c) \<and>
    mpval (if 0 \<le> multiprecision_compare c ?m then fst (multiprecision_sub c ?m) else c) = mpval c mod p256"
    using mp.cond_sub_reduces [of c ?m 0] c(1) by simp
  moreover have "multiprecision_fast_mod_P256 ?m a =
      (if 0 \<le> multiprecision_compare c ?m then fst (multiprecision_sub c ?m) else c)"
    by (simp add: multiprecision_fast_mod_P256_def Let_def c_def)
  ultimately show "mp_wf (multiprecision_fast_mod_P256 (prime_p curve_p256) a)"
    and "mpval (multiprecision_fast_mod_P256 (prime_p curve_p256) a) =
      ((mpval (mod_words a) + sint (snd (mod_c7 a)) * (2 ^ 256 - p256)) mod 2 ^ 256) mod p256"
    by (simp_all only: c(2))
qed

lemma fast_mod_value:
  assumes "length a = 16" and "fast_mod_exact a"
  shows "mpval (multiprecision_fast_mod_P256 (prime_p curve_p256) a) = mpval a mod p256"
proof -
  define c where "c = mpval (mod_words a)"
  define U where "U = sint (snd (mod_c7 a))"
  have "no_lost_borrow a" and rng: "0 \<le> c + U * (2 ^ 256 - p256)" "c + U * (2 ^ 256 - p256) < 2 ^ 256"
    using assms(2) by (simp_all add: fast_mod_exact_def Let_def c_def U_def)
  then obtain q where q: "c + 2 ^ 256 * U = mpval a - p256 * q"
    using mod_words_value(1) [OF assms(1)] unfolding c_def U_def by blast
  have "mpval (multiprecision_fast_mod_P256 (prime_p curve_p256) a) = (c + U * (2 ^ 256 - p256)) mod p256"
    using fast_mod_range(2) [OF assms(1)] rng unfolding c_def [symmetric] U_def [symmetric] by simp
  also have "c + U * (2 ^ 256 - p256) = mpval a + p256 * (- q - U)"
    using q by (simp add: algebra_simps)
  finally show ?thesis by simp
qed

abbreviation modp :: "u32 list" where
  "modp \<equiv> prime_p curve_p256"

definition mult_mod_exact :: "u32 list \<Rightarrow> u32 list \<Rightarrow> bool" where
  "mult_mod_exact a b \<longleftrightarrow>
     fast_mod_exact (multiprecision_mult (replicate (2 * KEY_LENGTH_DWORDS_P256) 0) a b)"

lemma mult_mod_value:
  assumes "mp_wf a" and "mp_wf b"
  shows "mp_wf (multiprecision_mersenns_mult_mod modp a b)"
    and "mpval (multiprecision_mersenns_mult_mod modp a b) < p256"
    and "mult_mod_exact a b \<Longrightarrow>
      mpval (multiprecision_mersenns_mult_mod modp a b) = (mpval a * mpval b) mod p256"
proof -
  let ?c = "multiprecision_mult (replicate (2 * KEY_LENGTH_DWORDS_P256) 0) a b"
  have c: "length ?c = 16" "mpval ?c = mpval a * mpval b"
    using multiprecision_mult_value [OF assms, of "replicate (2 * KEY_LENGTH_DWORDS_P256) 0"]
    by (simp_all add: KEY_LENGTH_DWORDS_P256_def)
  show "mp_wf (multiprecision_mersenns_mult_mod modp a b)"
    and "mpval (multiprecision_mersenns_mult_mod modp a b) < p256"
    using fast_mod_range [OF c(1)] p256_bounds
    by (simp_all add: multiprecision_mersenns_mult_mod_def)
  assume "mult_mod_exact a b"
  then show "mpval (multiprecision_mersenns_mult_mod modp a b) = (mpval a * mpval b) mod p256"
    using fast_mod_value [OF c(1)] c(2)
    by (simp add: multiprecision_mersenns_mult_mod_def mult_mod_exact_def)
qed


lemma mpval_inject:
  assumes "length a = length b"
  shows "mpval a = mpval b \<longleftrightarrow> a = b"
  using assms
proof (induction a b rule: list_induct2)
  case (Cons v vs u us)
  have "uint v = uint u \<and> mpval vs = mpval us"
    if eq: "uint v + 2 ^ 32 * mpval vs = uint u + 2 ^ 32 * mpval us"
  proof
    have "(uint v + 2 ^ 32 * mpval vs) mod 2 ^ 32 = (uint u + 2 ^ 32 * mpval us) mod 2 ^ 32"
      using eq by simp
    then show "uint v = uint u"
      using uint_bounded [of v] uint_bounded [of u] by simp
    with eq show "mpval vs = mpval us" by simp
  qed
  then show ?case
    using Cons.IH by (auto simp: word_uint_eq_iff)
qed simp

text \<open>The product does not depend on what the result buffer held before.\<close>

lemma multiprecision_mult_eqI:
  assumes "mp_wf a" "mp_wf b" "length c = 16" "length r = 16" "mpval r = mpval a * mpval b"
  shows "multiprecision_mult c a b = r"
  using multiprecision_mult_value [OF assms(1-3)] assms(4,5) mpval_inject [of "multiprecision_mult c a b" r]
  by simp

section \<open>Addition, subtraction and doubling modulo the prime\<close>

lemma add_mod_value:
  assumes "mp_wf a" "mp_wf b" "mpval a < p256" "mpval b < p256"
  shows "mp_wf (multiprecision_add_mod modp a b) \<and>
    mpval (multiprecision_add_mod modp a b) = (mpval a + mpval b) mod p256"
proof -
  obtain c k where c: "multiprecision_add a b = (c, k)" by fastforce
  have l: "mp_wf c" "uint k \<le> 1" "mpval c + 2 ^ 256 * uint k = mpval a + mpval b"
    using mp.add_law [OF assms(1,2) c] by auto
  have "mpval c + 2 ^ 256 * uint k < 2 * mpval modp"
    using l(3) assms by simp
  then show ?thesis
    using mp.cond_sub_reduces [of c modp k] l c by (simp add: multiprecision_add_mod_def)
qed

lemma lshift_mod_value:
  assumes "mp_wf a" "mpval a < p256"
  shows "mp_wf (multiprecision_lshift_mod modp a) \<and>
    mpval (multiprecision_lshift_mod modp a) = (2 * mpval a) mod p256"
proof -
  obtain c k where c: "multiprecision_lshift a = (c, k)" by fastforce
  have l: "mp_wf c" "uint k \<le> 1" "mpval c + 2 ^ 256 * uint k = 2 * mpval a"
    using multiprecision_lshift_value [OF c] assms by auto
  have "mpval c + 2 ^ 256 * uint k < 2 * mpval modp"
    using l(3) assms by simp
  then show ?thesis
    using mp.cond_sub_reduces [of c modp k] l c by (simp add: multiprecision_lshift_mod_def)
qed

lemma sub_mod_value:
  assumes "mp_wf a" "mp_wf b" "mpval a < p256" "mpval b < p256"
  shows "mp_wf (multiprecision_sub_mod modp a b) \<and>
    mpval (multiprecision_sub_mod modp a b) = (mpval a - mpval b) mod p256"
proof -
  obtain c k where c: "multiprecision_sub a b = (c, k)" by fastforce
  show ?thesis
    using mp.borrow_add_reduces [OF assms(1,2) _ _ _ c, of modp] assms c
    by (simp add: multiprecision_sub_mod_def)
qed

end
