(* ===== verification/P256_Inverse.thy ===== *)
theory P256_Inverse
  imports P256_Reduction
begin

unbundle bit_operations_syntax

text \<open>
  The binary inversion of \<^verbatim>\<open>multiprecision_inv_mod\<close>: both of its loops end on every input, and
  the result is the modular inverse whenever one exists.  The proof follows the invariant of
  the algorithm: with \<open>g\<close> the value to invert, \<open>u = A * g\<close> and \<open>v = C * g\<close> modulo
  the prime, while the greatest common divisor of \<open>u\<close> and \<open>v\<close> never changes.
\<close>

section \<open>Halving modulo an odd number\<close>

lemma p256_odd: "odd p256"
  by (simp add: p256_def)

lemma low_bit_even:
  assumes "mp_wf a"
  shows "a ! 0 AND 0x01 = 0 \<longleftrightarrow> even (mpval a)"
proof -
  obtain v vs where a: "a = v # vs" using assms by (cases a) auto
  have "v AND 1 = 0 \<longleftrightarrow> uint (v AND 1) = 0"
    by (simp only: uint_0_iff)
  also have "uint (v AND 1) = uint v mod 2"
    by (subst unsigned_and_eq) (simp add: and_one_eq)
  finally show ?thesis
    by (simp add: a even_iff_mod_2_eq_zero [symmetric])
qed

lemma uint_or_top:
  fixes r t :: u32
  assumes "uint r < 2 ^ 31" and "uint t \<le> 1"
  shows "uint (r OR push_bit 31 t) = uint r + 2 ^ 31 * uint t"
proof -
  have "uint (push_bit 1 r) = 2 * uint r"
    using assms(1) by (simp only: uint_push_bit) simp
  then have "drop_bit 1 (push_bit 1 r) = r"
    using uint_drop_bit [of 1 "push_bit 1 r"] by (simp only: word_uint_eq_iff) simp
  then have "uint (r OR push_bit 31 t) = uint (push_bit 1 r) div 2 + 2 ^ 31 * (uint t mod 2)"
    using uint_shift_in_high [of "push_bit 1 r" t] by simp
  then show ?thesis
    using \<open>uint (push_bit 1 r) = 2 * uint r\<close> assms(2) uint_flag [of t] by simp
qed

lemma top_word_bound:
  assumes "mp_wf r" and "mpval r < 2 ^ 255"
  shows "uint (r ! 7) < 2 ^ 31"
proof -
  have "mpval (r[7 := 0]) = mpval r - 2 ^ 224 * uint (r ! 7)"
    using mpval_update [of 7 r 0] assms(1) by simp
  then have "2 ^ 224 * uint (r ! 7) \<le> mpval r"
    using mpval_nonneg [of "r[7 := 0]"] by linarith
  then have "2 ^ 224 * uint (r ! 7) < 2 ^ 224 * 2 ^ 31"
    using assms(2) by simp
  then show ?thesis by simp
qed

lemma halve_mod_value:
  assumes "mp_wf A" and "mpval A < p256"
  shows "mp_wf (halve_mod modp A)" and "mpval (halve_mod modp A) < p256"
    and "2 * mpval (halve_mod modp A) = (if even (mpval A) then mpval A else mpval A + p256)"
proof -
  have "mp_wf (halve_mod modp A) \<and> mpval (halve_mod modp A) < p256 \<and>
    2 * mpval (halve_mod modp A) = (if even (mpval A) then mpval A else mpval A + p256)"
  proof (cases "even (mpval A)")
    case True
    then have "halve_mod modp A = multiprecision_rshift A"
      using low_bit_even [of A] assms by (auto simp: halve_mod_def)
    then show ?thesis
      using True assms mpval_nonneg [of A] zdiv_mono2 [of "mpval A" 1 2]
      by (simp add: multiprecision_rshift_value length_multiprecision_rshift)
  next
    case False
    obtain s t where st: "multiprecision_add A modp = (s, t)" by fastforce
    have s: "mp_wf s" "uint t \<le> 1" "mpval s + 2 ^ 256 * uint t = mpval A + p256"
      using mp.add_law [OF assms(1) _ st] by auto
    define r where "r = multiprecision_rshift s"
    have r: "mp_wf r" "mpval r = mpval s div 2"
      using s(1) by (simp_all add: r_def len_simps mp_value)
    have "uint (r ! 7) < 2 ^ 31"
      using mp.val_range [OF s(1)] r by (intro top_word_bound) auto
    then have v: "mpval (r[7 := r ! 7 OR push_bit 31 t]) = mpval s div 2 + 2 ^ 255 * uint t"
      using mpval_update [of 7 r] r s(2) by (simp add: uint_or_top)
    have h: "halve_mod modp A = r[7 := r ! 7 OR push_bit 31 t]"
      using False low_bit_even [of A] assms(1) st
      by (auto simp: halve_mod_def r_def KEY_LENGTH_DWORDS_P256_def Let_def)
    have "even (mpval s)"
    proof -
      have "even (mpval s + 2 ^ 256 * uint t)"
        unfolding s(3) using False p256_odd by (rule odd_even_add)
      then show ?thesis by simp
    qed
    then have "2 * (mpval s div 2 + 2 ^ 255 * uint t) = mpval A + p256"
      using s(3) by simp
    then show ?thesis
      using False assms(2) r(1) by (simp add: h v)
  qed
  then show "mp_wf (halve_mod modp A)" and "mpval (halve_mod modp A) < p256"
    and "2 * mpval (halve_mod modp A) = (if even (mpval A) then mpval A else mpval A + p256)"
    by blast+
qed

lemma p256_dvd_half:
  assumes "p256 dvd 2 * d"
  shows "p256 dvd d"
proof -
  have "coprime p256 2" using p256_odd by (rule coprime_right_2_iff_odd [THEN iffD2])
  then show ?thesis using assms by (simp only: coprime_dvd_mult_right_iff)
qed

section \<open>Termination and value of the loops\<close>

lemma gcd_double: "odd v \<Longrightarrow> gcd (2 * x) v = gcd x (v::int)"
  by (rule gcd_mult_left_left_cancel) simp

lemma halve_loop_value:
  assumes "mp_wf u" "mp_wf A" "0 < mpval u" "mpval A < p256" "p256 dvd mpval A * g - mpval u"
  shows "\<exists>u' A'. halve_loop modp u A = Some (u', A') \<and> mp_wf u' \<and> mp_wf A' \<and> odd (mpval u') \<and>
    0 < mpval u' \<and> mpval u' \<le> mpval u \<and> mpval A' < p256 \<and> p256 dvd mpval A' * g - mpval u' \<and>
    (\<forall>v. odd v \<longrightarrow> gcd (mpval u') v = gcd (mpval u) v) \<and> (odd (mpval u) \<longrightarrow> mpval u' = mpval u)"
  using assms
proof (induction "nat (mpval u)" arbitrary: u A rule: less_induct)
  case less
  show ?case
  proof (cases "even (mpval u)")
    case False
    then show ?thesis
      using less.prems low_bit_even [of u] by (subst halve_loop.simps) auto
  next
    case True
    let ?u = "multiprecision_rshift u" and ?A = "halve_mod modp A"
    have u: "mp_wf ?u" "2 * mpval ?u = mpval u"
      using less.prems(1) True by (simp_all add: len_simps multiprecision_rshift_value)
    then have u3: "0 < mpval ?u" using less.prems(3) by linarith
    have A: "mp_wf ?A" "mpval ?A < p256" "p256 dvd 2 * mpval ?A - mpval A"
      using halve_mod_value [OF less.prems(2,4)] by (simp_all split: if_splits)
    have "2 * (mpval ?A * g - mpval ?u) = (2 * mpval ?A - mpval A) * g + (mpval A * g - mpval u)"
      using u(2) by (simp add: algebra_simps)
    also have "p256 dvd \<dots>"
      using A(3) less.prems(5) by (intro dvd_add dvd_mult2)
    finally have d: "p256 dvd mpval ?A * g - mpval ?u" by (rule p256_dvd_half)
    have step: "halve_loop modp u A = halve_loop modp ?u ?A"
      using True low_bit_even [of u] less.prems(1) by (subst halve_loop.simps) auto
    have gcd: "gcd (mpval ?u) v = gcd (mpval u) v" if "odd v" for v
      unfolding u(2) [symmetric] by (rule gcd_double [OF that, symmetric])
    have "nat (mpval ?u) < nat (mpval u)" using u u3 by linarith
    from less.hyps [OF this u(1) A(1) u3 A(2) d]
    obtain u' A' where h: "halve_loop modp ?u ?A = Some (u', A')" "mp_wf u'" "mp_wf A'" "odd (mpval u')"
      "0 < mpval u'" "mpval u' \<le> mpval ?u" "mpval A' < p256" "p256 dvd mpval A' * g - mpval u'"
      "\<forall>v. odd v \<longrightarrow> gcd (mpval u') v = gcd (mpval ?u) v"
      by blast
    have "mpval u' \<le> mpval u" using h(6) u(2) u3 by linarith
    then show ?thesis
      using True h by (intro exI [of _ u'] exI [of _ A']) (simp add: step gcd)
  qed
qed

lemma sub_exact:
  assumes "mp_wf a" "mp_wf b" "mpval b \<le> mpval a"
  shows "mpval (fst (multiprecision_sub a b)) = mpval a - mpval b"
proof -
  have "mpval a - mpval b < 2 ^ 256"
    using mp.val_range [OF assms(1)] mpval_nonneg [of b] by linarith
  then show ?thesis
    unfolding mp.val_sub_mod [OF assms(1,2)] using assms(3) by (intro mod_pos_pos_trivial) simp_all
qed

lemma sub_mod_dvd:
  assumes "mp_wf A" "mp_wf C" "mpval A < p256" "mpval C < p256"
    and "p256 dvd mpval A * g - x" and "p256 dvd mpval C * g - y"
  shows "p256 dvd mpval (multiprecision_sub_mod modp A C) * g - (x - y)"
proof -
  have "mpval (multiprecision_sub_mod modp A C) = (mpval A - mpval C) mod p256"
    using sub_mod_value [OF assms(1-4)] by simp
  then have "p256 dvd (mpval A - mpval C) - mpval (multiprecision_sub_mod modp A C)"
    by (simp add: mod_eq_dvd_iff [symmetric])
  moreover have "mpval (multiprecision_sub_mod modp A C) * g - (x - y) =
      (mpval A * g - x) - (mpval C * g - y) -
      ((mpval A - mpval C) - mpval (multiprecision_sub_mod modp A C)) * g"
    by (simp add: algebra_simps)
  ultimately show ?thesis
    using assms(5,6) by (metis dvd_diff dvd_mult2)
qed

lemma inv_loop_value:
  assumes "mp_wf u" "mp_wf v" "mp_wf A" "mp_wf C" "0 < mpval v" "mpval A < p256" "mpval C < p256"
    "p256 dvd mpval A * g - mpval u" "p256 dvd mpval C * g - mpval v" "odd (mpval u) \<or> odd (mpval v)"
  shows "\<exists>C'. inv_loop modp u v A C = Some C' \<and> mp_wf C' \<and> mpval C' < p256 \<and>
    p256 dvd mpval C' * g - gcd (mpval u) (mpval v)"
  using assms
proof (induction "nat (mpval u + mpval v)" arbitrary: u v A C rule: less_induct)
  case less
  show ?case
  proof (cases "mpval u = 0")
    case True
    then show ?thesis
      using less.prems multiprecision_iszero_value [of u] by (subst inv_loop.simps) simp
  next
    case False
    note False0 = False
    have cmp: "0 \<le> multiprecision_compare x y \<longleftrightarrow> mpval y \<le> mpval x" if "mp_wf x" "mp_wf y" for x y
      using mp.cmp_law [OF that] by (simp add: sgn_if)
    from False have pos: "0 < mpval u" using mpval_nonneg [of u] by linarith
    obtain u1 A1 where h1: "halve_loop modp u A = Some (u1, A1)" "mp_wf u1" "mp_wf A1" "odd (mpval u1)"
      "0 < mpval u1" "mpval u1 \<le> mpval u" "mpval A1 < p256" "p256 dvd mpval A1 * g - mpval u1"
      "\<And>w. odd w \<Longrightarrow> gcd (mpval u1) w = gcd (mpval u) w" "odd (mpval u) \<Longrightarrow> mpval u1 = mpval u"
      using halve_loop_value [OF less.prems(1,3) pos less.prems(6,8)] by blast
    obtain v1 C1 where h2: "halve_loop modp v C = Some (v1, C1)" "mp_wf v1" "mp_wf C1" "odd (mpval v1)"
      "0 < mpval v1" "mpval v1 \<le> mpval v" "mpval C1 < p256" "p256 dvd mpval C1 * g - mpval v1"
      "\<And>w. odd w \<Longrightarrow> gcd (mpval v1) w = gcd (mpval v) w" "odd (mpval v) \<Longrightarrow> mpval v1 = mpval v"
      using halve_loop_value [OF less.prems(2,4,5,7,9)] by blast
    have g: "gcd (mpval u1) (mpval v1) = gcd (mpval u) (mpval v)"
      using less.prems(10) h1(9,10) h2(9,10) h1(4) h2(4) by (metis gcd.commute)
    show ?thesis
    proof (cases "mpval v1 \<le> mpval u1")
      case True
      let ?u = "fst (multiprecision_sub u1 v1)" and ?A = "multiprecision_sub_mod modp A1 C1"
      have u: "mp_wf ?u" "mpval ?u = mpval u1 - mpval v1"
        using True h1(2) h2(2) by (simp_all add: sub_exact)
      have A: "mp_wf ?A" "mpval ?A < p256"
        using sub_mod_value [OF h1(3) h2(3) h1(7) h2(7)] p256_bounds by simp_all
      have "inv_loop modp u v A C = inv_loop modp ?u v1 ?A C1"
        using False0 True h1(1,2) h2(1,2) by (subst inv_loop.simps) (simp add: cmp multiprecision_iszero_value)
      moreover have "gcd (mpval ?u) (mpval v1) = gcd (mpval u) (mpval v)"
        unfolding u(2) g [symmetric] by (rule gcd_diff1)
      moreover have "nat (mpval ?u + mpval v1) < nat (mpval u + mpval v)"
        using u(2) h1(5,6) h2(5,6) by linarith
      moreover have "p256 dvd mpval ?A * g - mpval ?u"
        unfolding u(2) by (rule sub_mod_dvd [OF h1(3) h2(3) h1(7) h2(7) h1(8) h2(8)])
      ultimately show ?thesis
        using less.hyps [of ?u v1 ?A C1] u(1) A h2(2-5,7,8) by metis
    next
      case False
      let ?v = "fst (multiprecision_sub v1 u1)" and ?C = "multiprecision_sub_mod modp C1 A1"
      have v: "mp_wf ?v" "mpval ?v = mpval v1 - mpval u1"
        using False h1(2) h2(2) by (simp_all add: sub_exact)
      have C: "mp_wf ?C" "mpval ?C < p256"
        using sub_mod_value [OF h2(3) h1(3) h2(7) h1(7)] p256_bounds by simp_all
      have "inv_loop modp u v A C = inv_loop modp u1 ?v A1 ?C"
        using False0 False h1(1,2) h2(1,2) by (subst inv_loop.simps) (simp add: cmp multiprecision_iszero_value)
      moreover have "gcd (mpval u1) (mpval ?v) = gcd (mpval u) (mpval v)"
        unfolding v(2) g [symmetric] by (metis gcd.commute gcd_diff1)
      moreover have "nat (mpval u1 + mpval ?v) < nat (mpval u + mpval v)"
        using v(2) h1(5,6) h2(5,6) by linarith
      moreover have "p256 dvd mpval ?C * g - mpval ?v"
        unfolding v(2) by (rule sub_mod_dvd [OF h2(3) h1(3) h2(7) h1(7) h2(8) h1(8)])
      moreover have "0 < mpval ?v" using v(2) False by simp
      ultimately show ?thesis
        using less.hyps [of u1 ?v A1 ?C] v(1) C h1(2-5,7,8) by metis
    qed
  qed
qed

lemma inv_mod_value:
  assumes "mp_wf u"
  shows "\<exists>r. multiprecision_inv_mod modp u = Some r \<and> mp_wf r \<and> mpval r < p256 \<and>
    mpval r * mpval u mod p256 = gcd (mpval u) p256 mod p256"
proof -
  have "mpval ((replicate 8 0)[0 := 1]) = 1" "mpval (replicate 8 0) = 0"
    by (simp_all add: numeral_eq_Suc)
  then have "\<exists>C. inv_loop modp u modp ((replicate 8 0)[0 := 1]) (replicate 8 0) = Some C \<and> mp_wf C \<and>
      mpval C < p256 \<and> p256 dvd mpval C * mpval u - gcd (mpval u) (mpval modp)"
    using assms p256_bounds p256_odd
    by (intro inv_loop_value) simp_all
  then obtain C where C: "inv_loop modp u modp ((replicate 8 0)[0 := 1]) (replicate 8 0) = Some C"
      "mp_wf C" "mpval C < p256" "p256 dvd mpval C * mpval u - gcd (mpval u) p256"
    by auto
  have "\<not> 0 \<le> multiprecision_compare C modp"
    using mp.cmp_law [of C modp] C(2,3) by simp
  then show ?thesis
    using C by (simp add: multiprecision_inv_mod_def KEY_LENGTH_DWORDS_P256_def mod_eq_dvd_iff)
qed
end
