(* ===== verification/P256_Ecc.thy ===== *)
theory P256_Ecc
  imports P256_Field
begin

text \<open>
  The curve operations of \<open>stack/smp/p_256_ecc_pp.cc\<close>: point doubling and addition in
  Jacobian coordinates, the non-adjacent form of a scalar, point multiplication and the
  validation of a received public key.
\<close>

unbundle bit_operations_syntax

section \<open>Points\<close>

definition p_256_init_point :: Point where
  "p_256_init_point = \<lparr>pt_x = replicate 8 0, pt_y = replicate 8 0, pt_z = replicate 8 0\<rparr>"

definition p_256_copy_point :: "Point \<Rightarrow> Point" where
  "p_256_copy_point p = \<lparr>pt_x = pt_x p, pt_y = pt_y p, pt_z = pt_z p\<rparr>"

text \<open>
  The result parameter is an argument of the operations that leave a part of it as it was; the
  arithmetic routines never read it.
\<close>

definition ECC_Double :: "u32 list \<Rightarrow> Point \<Rightarrow> Point \<Rightarrow> Point" where
  "ECC_Double modp q p =
     (if multiprecision_iszero (pt_z p) then q\<lparr>pt_z := multiprecision_init (pt_z q)\<rparr>
      else
        let x1 = pt_x p; y1 = pt_y p; z1 = pt_z p;
            t1 = multiprecision_mersenns_squa_mod modp z1;
            t2 = multiprecision_sub_mod modp x1 t1;
            t1 = multiprecision_add_mod modp x1 t1;
            t2 = multiprecision_mersenns_mult_mod modp t1 t2;
            t3 = multiprecision_lshift_mod modp t2;
            t2 = multiprecision_add_mod modp t3 t2;
            z3 = multiprecision_mersenns_mult_mod modp y1 z1;
            z3 = multiprecision_lshift_mod modp z3;
            y3 = multiprecision_mersenns_squa_mod modp y1;
            y3 = multiprecision_lshift_mod modp y3;
            t3 = multiprecision_mersenns_mult_mod modp y3 x1;
            t3 = multiprecision_lshift_mod modp t3;
            y3 = multiprecision_mersenns_squa_mod modp y3;
            y3 = multiprecision_lshift_mod modp y3;
            x3 = multiprecision_mersenns_squa_mod modp t2;
            t1 = multiprecision_lshift_mod modp t3;
            x3 = multiprecision_sub_mod modp x3 t1;
            t1 = multiprecision_sub_mod modp t3 x3;
            t1 = multiprecision_mersenns_mult_mod modp t1 t2;
            y3 = multiprecision_sub_mod modp t1 y3
        in \<lparr>pt_x = x3, pt_y = y3, pt_z = z3\<rparr>)"

text \<open>
  \<^verbatim>\<open>ECC_Add\<close> uses \<open>p->z\<close> as a temporary: the result is the pair of \<open>*r\<close> and \<open>*p\<close>.
\<close>

definition ECC_Add :: "u32 list \<Rightarrow> Point \<Rightarrow> Point \<Rightarrow> Point \<Rightarrow> Point \<times> Point" where
  "ECC_Add modp r p q =
     (let x1 = pt_x p; y1 = pt_y p; z1 = pt_z p; x2 = pt_x q; y2 = pt_y q; z2 = pt_z q in
      if multiprecision_iszero z2 then (p_256_copy_point p, p)
      else if multiprecision_iszero z1 then (p_256_copy_point q, p)
      else
        let t1 = multiprecision_mersenns_squa_mod modp z1;
            t2 = multiprecision_mersenns_mult_mod modp z1 t1;
            t1 = multiprecision_mersenns_mult_mod modp x2 t1;
            t2 = multiprecision_mersenns_mult_mod modp y2 t2;
            t1 = multiprecision_sub_mod modp t1 x1;
            t2 = multiprecision_sub_mod modp t2 y1
        in if multiprecision_iszero t1
           then (if multiprecision_iszero t2 then (ECC_Double modp r q, p)
                 else (r\<lparr>pt_z := multiprecision_init (pt_z r)\<rparr>, p))
           else
             let z3 = multiprecision_mersenns_mult_mod modp z1 t1;
                 y3 = multiprecision_mersenns_squa_mod modp t1;
                 z1 = multiprecision_mersenns_mult_mod modp y3 t1;
                 y3 = multiprecision_mersenns_mult_mod modp y3 x1;
                 t1 = multiprecision_lshift_mod modp y3;
                 x3 = multiprecision_mersenns_squa_mod modp t2;
                 x3 = multiprecision_sub_mod modp x3 t1;
                 x3 = multiprecision_sub_mod modp x3 z1;
                 y3 = multiprecision_sub_mod modp y3 x3;
                 y3 = multiprecision_mersenns_mult_mod modp y3 t2;
                 z1 = multiprecision_mersenns_mult_mod modp z1 y1;
                 y3 = multiprecision_sub_mod modp y3 z1
             in (\<lparr>pt_x = x3, pt_y = y3, pt_z = z3\<rparr>, p\<lparr>pt_z := z1\<rparr>))"

section \<open>Non-adjacent form\<close>

text \<open>The carry of \<open>k[0]++\<close>; running past the array is \<open>None\<close>.\<close>

function naf_carry :: "u32 list \<Rightarrow> nat \<Rightarrow> u32 list option" where
  "naf_carry k j =
     (if length k \<le> j then None
      else let k' = k[j := k ! j + 1]
           in if k' ! j = 0 then naf_carry k' (j + 1) else Some k')"
  by auto
termination
  by (relation "measure (\<lambda>(k, j). length k - j)") auto

declare naf_carry.simps [simp del]

definition naf_step :: "u32 list \<Rightarrow> (u32 \<times> u32 list) option" where
  "naf_step k =
     (if k ! 0 AND 0x01 \<noteq> 0
      then let sign = k ! 0 AND 0x03
           in if sign = 1 then Some (sign, k[0 := k ! 0 AND 0xFFFFFFFE])
              else let k = k[0 := k ! 0 + 1]
                   in if k ! 0 = 0 then map_option (Pair sign) (naf_carry k 1)
                      else Some (sign, k)
      else Some (0, k))"

partial_function (option) naf_loop ::
    "u8 list \<Rightarrow> nat \<Rightarrow> u32 list \<Rightarrow> (u8 list \<times> nat \<times> u32 list) option" where
  "naf_loop naf i k =
     (if 1 \<le> multiprecision_most_signbits k
      then Option.bind (naf_step k) (\<lambda>(sign, k).
             if i div 4 < length naf
             then naf_loop
                    (naf[i div 4 := naf ! (i div 4) OR ucast (push_bit (i mod 4 * 2) sign)])
                    (i + 1) (multiprecision_rshift k)
             else None)
      else Some (naf, i, k))"

definition ECC_NAF :: "u8 list \<Rightarrow> u32 list \<Rightarrow> (u8 list \<times> nat \<times> u32 list) option" where
  "ECC_NAF naf k = naf_loop naf 0 k"

section \<open>Point multiplication\<close>

definition naf_sign :: "u8 list \<Rightarrow> nat \<Rightarrow> u8" where
  "naf_sign naf i = drop_bit (i mod 4 * 2) (naf ! (i div 4)) AND 0x03"

fun mult_loop :: "u32 list \<Rightarrow> u8 list \<Rightarrow> Point \<Rightarrow> Point \<Rightarrow> nat \<Rightarrow> Point \<Rightarrow> Point" where
  "mult_loop modp naf p minus_p 0 q = q"
| "mult_loop modp naf p minus_p (Suc i) q =
     (let q = ECC_Double modp q (p_256_copy_point q);
          sign = naf_sign naf i;
          q = (if sign = 1 then fst (ECC_Add modp q (p_256_copy_point q) p)
               else if sign = 3 then fst (ECC_Add modp q (p_256_copy_point q) minus_p)
               else q)
      in mult_loop modp naf p minus_p i q)"

definition ECC_PointMult_Bin_NAF ::
    "u32 list \<Rightarrow> Point \<Rightarrow> u32 list \<Rightarrow> (Point \<times> Point \<times> u32 list) option" where
  "ECC_PointMult_Bin_NAF modp p n =
     (let p = p\<lparr>pt_z := (multiprecision_init (pt_z p))[0 := 1]\<rparr>;
          q = p_256_init_point;
          minus_p = \<lparr>pt_x = multiprecision_copy (replicate KEY_LENGTH_DWORDS_P256 0) (pt_x p),
                     pt_y = fst (multiprecision_sub modp (pt_y p)),
                     pt_z = (replicate KEY_LENGTH_DWORDS_P256 0)[0 := 1]\<rparr>
      in Option.bind (ECC_NAF (replicate (256 div 4 + 1) 0) n) (\<lambda>(naf, NumNaf, n).
         let q = mult_loop modp naf p minus_p NumNaf q
         in Option.bind (multiprecision_inv_mod modp (pt_z q)) (\<lambda>zi.
            let z = multiprecision_mersenns_squa_mod modp zi;
                x = multiprecision_mersenns_mult_mod modp (pt_x q) z;
                z = multiprecision_mersenns_mult_mod modp z zi;
                y = multiprecision_mersenns_mult_mod modp (pt_y q) z
            in Some (\<lparr>pt_x = x, pt_y = y, pt_z = z\<rparr>, p, n))))"

definition ECC_ValidatePoint :: "elliptic_curve_t \<Rightarrow> Point \<Rightarrow> bool \<times> elliptic_curve_t" where
  "ECC_ValidatePoint ec pt =
     (let ec = p_256_init_curve ec; modp = prime_p ec;
          y2_mod = multiprecision_mersenns_squa_mod modp (pt_y pt);
          rhs = multiprecision_mersenns_squa_mod modp (pt_x pt);
          three = (replicate KEY_LENGTH_DWORDS_P256 0)[0 := 3];
          rhs = multiprecision_sub_mod modp rhs three;
          rhs = multiprecision_mersenns_mult_mod modp rhs (pt_x pt);
          rhs = multiprecision_add_mod modp rhs (coeff_b ec)
      in (multiprecision_compare rhs y2_mod = 0, ec))"
end
