(* ===== verification/P256_Naf.thy ===== *)
theory P256_Naf
  imports P256_Inverse P256_Ecc
begin

unbundle bit_operations_syntax

text \<open>
  \<^verbatim>\<open>ECC_NAF\<close> writes the non-adjacent form of the scalar, two bits a digit, into a byte array:
  the loop ends, the carry stays inside the scalar, the digits sum to the scalar and no two
  neighbours are both non-zero.
\<close>

section \<open>The carry\<close>

lemma uint_all_ones: "v + 1 = 0 \<Longrightarrow> uint (v :: u32) = 2 ^ 32 - 1"
proof -
  assume "v + 1 = 0"
  then have "v = - 1" by (metis add_eq_0_iff2)
  then show ?thesis by (simp add: unsigned_minus_1_eq_mask mask_eq_exp_minus_1)
qed

lemma uint_plus_one: "v + 1 \<noteq> 0 \<Longrightarrow> uint (v + 1 :: u32) = uint v + 1"
proof -
  assume "v + 1 \<noteq> 0"
  moreover have "uint (v + 1) = (uint v + 1) mod 2 ^ 32"
    by (simp add: uint_word_ariths)
  ultimately have "uint v + 1 \<noteq> 2 ^ 32"
    by (metis mod_self uint_0_iff)
  then show ?thesis
    using \<open>uint (v + 1) = (uint v + 1) mod 2 ^ 32\<close> uint_bounded [of v] by simp
qed

lemma naf_carry_value:
  assumes "mpval k + 2 ^ (32 * j) < 2 ^ (32 * length k)"
  shows "\<exists>k'. naf_carry k j = Some k' \<and> length k' = length k \<and> mpval k' = mpval k + 2 ^ (32 * j)"
  using assms
proof (induction k j rule: naf_carry.induct)
  case (1 k j)
  have "32 * j < 32 * length k"
  proof -
    have "(2 :: int) ^ (32 * j) < 2 ^ (32 * length k)"
      using "1.prems" mpval_nonneg [of k] by linarith
    then show ?thesis by (rule power_less_imp_less_exp [rotated]) simp
  qed
  then have j: "j < length k" by simp
  let ?k = "k[j := k ! j + 1]"
  have v: "mpval ?k = mpval k + 2 ^ (32 * j) * (uint (k ! j + 1) - uint (k ! j))"
    using mpval_update [of j k "k ! j + 1"] j by (simp add: algebra_simps)
  show ?case
  proof (cases "k ! j + 1 = 0")
    case False
    then have "uint (k ! j + 1) = uint (k ! j) + 1"
      by (rule uint_plus_one)
    then show ?thesis
      using v False j by (subst naf_carry.simps) (simp add: Let_def)
  next
    case True
    then have "uint (k ! j) = 2 ^ 32 - 1" by (rule uint_all_ones)
    then have e: "mpval ?k + 2 ^ (32 * (j + 1)) = mpval k + 2 ^ (32 * j)"
      using v True by (simp add: algebra_simps power_add)
    show ?thesis
      using "1.IH" [of ?k] True j "1.prems" e
      by (subst naf_carry.simps) (simp add: Let_def del: power_Suc)
  qed
qed

section \<open>Packed signs\<close>

definition digit :: "u8 \<Rightarrow> int" where
  "digit s = (if s = 3 then - 1 else uint s)"

lemma pack_sign:
  fixes sign :: u32
  assumes "r < 4" "s < 4" "sign \<in> {0, 1, 3}"
  shows "drop_bit (s * 2) (ucast (push_bit (r * 2) sign) :: u8) AND 3 = (if s = r then ucast sign else 0)"
proof -
  have "r = 0 \<or> r = 1 \<or> r = 2 \<or> r = 3" "s = 0 \<or> s = 1 \<or> s = 2 \<or> s = 3"
    using assms(1,2) by auto
  then show ?thesis
    using assms(3) by (elim disjE insertE emptyE) (simp_all add: push_bit_eq_mult drop_bit_eq_div)
qed

lemma naf_sign_update:
  fixes sign :: u32
  assumes "i div 4 < length naf" "sign \<in> {0, 1, 3}"
  shows "naf_sign (naf[i div 4 := naf ! (i div 4) OR ucast (push_bit (i mod 4 * 2) sign)]) j =
    (if j = i then naf_sign naf i OR ucast sign else naf_sign naf j)"
proof (cases "j div 4 = i div 4")
  case True
  have "j = i \<longleftrightarrow> j mod 4 = i mod 4"
    using True by (metis div_mult_mod_eq)
  moreover have "drop_bit (j mod 4 * 2) (naf ! (i div 4) OR ucast (push_bit (i mod 4 * 2) sign)) AND 3 =
      (drop_bit (j mod 4 * 2) (naf ! (i div 4)) AND 3) OR
      (drop_bit (j mod 4 * 2) (ucast (push_bit (i mod 4 * 2) sign)) AND 3)"
    by (simp add: drop_bit_or bit.conj_disj_distrib2)
  ultimately show ?thesis
    using True assms pack_sign [of "i mod 4" "j mod 4" sign] by (auto simp: naf_sign_def)
next
  case False
  then show ?thesis by (auto simp: naf_sign_def)
qed

section \<open>One step\<close>

lemma and_3_value: "uint (v AND 3 :: u32) = uint v mod 4"
proof -
  have "uint (v AND 3) = uint v AND mask 2"
    by (simp add: unsigned_and_eq mask_eq_exp_minus_1)
  then show ?thesis by (simp only: take_bit_eq_mask [symmetric]) (simp add: take_bit_eq_mod)
qed


lemma clear_low_bit: "uint (v AND 0xFFFFFFFE :: u32) = 2 * (uint v div 2)"
proof -
  have "(0xFFFFFFFE :: u32) = NOT 1" by simp
  then have "v AND 0xFFFFFFFE = push_bit 1 (drop_bit 1 v)"
    by (simp only:) (rule bit_word_eqI,
        simp only: bit_and_iff bit_not_iff bit_1_iff bit_push_bit_iff bit_drop_bit_eq o_def, auto)
  then show ?thesis
    using uint_bounded [of v] uint_push_bit [of 1 "drop_bit 1 v"] uint_drop_bit [of 1 v] by simp
qed

lemma naf_step_value:
  assumes "mp_wf k" "0 < mpval k" "mpval k < 2 ^ 256 - 1"
  obtains sign k' where "naf_step k = Some (sign, k')" "mp_wf k'" "sign \<in> {0, 1, 3}"
    "mpval k' = mpval k - digit (ucast sign)" "even (mpval k')" "sign \<noteq> 0 \<longrightarrow> 4 dvd mpval k'"
    "sign = 0 \<longleftrightarrow> even (mpval k)"
proof -
  have v: "mpval (k[0 := u]) = mpval k - uint (k ! 0) + uint u" for u
    using mpval_update [of 0 k u] assms(1) by simp
  have m4: "uint (k ! 0) mod 4 = mpval k mod 4"
  proof -
    obtain a list where "k = a # list" using assms(1) by (cases k) auto
    moreover have "(uint a + 4 * (1073741824 * mpval list)) mod 4 = uint a mod 4"
      by (rule mod_mult_self2)
    ultimately show ?thesis by simp
  qed
  have low: "k ! 0 AND 1 = 0 \<longleftrightarrow> even (mpval k)" using low_bit_even [OF assms(1)] by simp
  have l: "0 < length k" using assms(1) by simp
  show ?thesis
  proof (cases "even (mpval k)")
    case True
    then show ?thesis
      using that [of 0 k] low assms(1) by (simp add: naf_step_def digit_def)
  next
    case odd: False
    show ?thesis
    proof (cases "mpval k mod 4 = 1")
      case True
      then have s: "k ! 0 AND 3 = 1"
        using and_3_value [of "k ! 0"] m4 by (simp add: word_uint_eq_iff)
      have "2 * (uint (k ! 0) div 2) = uint (k ! 0) - 1"
        using m4 True by presburger
      then have "mpval (k[0 := k ! 0 AND 0xFFFFFFFE]) = mpval k - 1"
        unfolding v clear_low_bit by simp
      moreover have "4 dvd mpval k - 1" "even (mpval k - 1)" using True by presburger+
      ultimately show ?thesis
        using that [of 1 "k[0 := k ! 0 AND 0xFFFFFFFE]"] low odd s assms(1)
        by (simp add: naf_step_def digit_def)
    next
      case False
      then have m3: "mpval k mod 4 = 3" using odd by presburger
      then have s: "k ! 0 AND 3 = 3"
        using and_3_value [of "k ! 0"] m4 by (simp add: word_uint_eq_iff)
      have "\<exists>k'. naf_step k = Some (3, k') \<and> mp_wf k' \<and> mpval k' = mpval k + 1"
      proof (cases "k ! 0 + 1 = 0")
        case True
        then have "uint (k ! 0) = 2 ^ 32 - 1" by (rule uint_all_ones)
        then have "mpval (k[0 := 0]) + 2 ^ (32 * 1) = mpval k + 1"
          unfolding v by simp
        then show ?thesis
          using naf_carry_value [of "k[0 := 0]" 1] True low odd s assms(1,3) l
          by (auto simp: naf_step_def Let_def)
      next
        case False
        then have "mpval (k[0 := k ! 0 + 1]) = mpval k + 1"
          unfolding v by (simp add: uint_plus_one)
        then show ?thesis
          using False low odd s assms(1) l by (simp add: naf_step_def Let_def)
      qed
      then obtain k' where k': "naf_step k = Some (3, k')" "mp_wf k'" "mpval k' = mpval k + 1" by blast
      moreover have "4 dvd mpval k + 1" "even (mpval k + 1)" using m3 by presburger+
      ultimately show ?thesis
        using that [of 3 k'] odd by (simp add: digit_def)
    qed
  qed
qed

section \<open>The loop\<close>

lemma most_signbits_0: "mpval k = 0 \<Longrightarrow> multiprecision_most_signbits k = 0"
proof (rule ccontr)
  define n where "n = multiprecision_most_signdwords k - 1"
  assume k: "mpval k = 0" and "multiprecision_most_signbits k \<noteq> 0"
  then have "n < length k" "k ! n \<noteq> 0"
    using most_signdwords_split [of k]
    by (auto simp: multiprecision_most_signbits_def n_def Let_def split: if_splits)
  then have "mpval (k[n := 0]) < 0"
    using mpval_update [of n k 0] k by (simp add: word_less_def word_neq_0_conv)
  then show False using mpval_nonneg [of "k[n := 0]"] by linarith
qed

lemma sum_shift_digits:
  fixes f :: "nat \<Rightarrow> int"
  assumes "i < n"
  shows "(\<Sum>j = i..<n. f j * 2 ^ (j - i)) = f i + 2 * (\<Sum>j = Suc i..<n. f j * 2 ^ (j - Suc i))"
proof -
  have "(\<Sum>j = i..<n. f j * 2 ^ (j - i)) = f i + (\<Sum>j = Suc i..<n. f j * 2 ^ (j - i))"
    using assms by (simp add: sum.atLeast_Suc_lessThan)
  also have "(\<Sum>j = Suc i..<n. f j * 2 ^ (j - i)) = (\<Sum>j = Suc i..<n. 2 * (f j * 2 ^ (j - Suc i)))"
    by (intro sum.cong refl) (auto simp: Suc_diff_Suc simp flip: power_Suc)
  finally show ?thesis by (simp add: sum_distrib_left)
qed

lemma naf_loop_value:
  assumes "mp_wf k" "length naf = 65" "i \<le> 257" "\<forall>j. i \<le> j \<and> j < 260 \<longrightarrow> naf_sign naf j = 0"
    and "i \<le> 256 \<longrightarrow> mpval k \<le> 2 ^ (256 - i)" "i = 257 \<longrightarrow> mpval k = 0" "mpval k < 2 ^ 256 - 1"
  shows "\<exists>naf' n k'. naf_loop naf i k = Some (naf', n, k') \<and> length naf' = 65 \<and> i \<le> n \<and> n \<le> 257 \<and>
    mp_wf k' \<and> mpval k' = 0 \<and> (\<forall>j < i. naf_sign naf' j = naf_sign naf j) \<and>
    (\<forall>j. n \<le> j \<and> j < 260 \<longrightarrow> naf_sign naf' j = 0) \<and>
    (even (mpval k) \<longrightarrow> naf_sign naf' i = 0) \<and>
    (\<forall>j. i \<le> j \<and> j < 259 \<longrightarrow> naf_sign naf' j = 0 \<or> naf_sign naf' (Suc j) = 0) \<and>
    (\<forall>j. i \<le> j \<and> j < 260 \<longrightarrow> naf_sign naf' j \<in> {0, 1, 3}) \<and>
    mpval k = (\<Sum>j = i..<n. digit (naf_sign naf' j) * 2 ^ (j - i))"
  using assms
proof (induction "nat (mpval k)" arbitrary: naf i k rule: less_induct)
  case less
  note wf = less.prems(1) and len = less.prems(2) and slots = less.prems(4) and bound = less.prems(5)
  have bits: "1 \<le> multiprecision_most_signbits k \<longleftrightarrow> mpval k \<noteq> 0"
    using most_signbits_value(1) [of k] most_signbits_0 [of k]
    by (cases "multiprecision_most_signbits k") (auto intro: antisym)
  show ?case
  proof (cases "mpval k = 0")
    case True
    then show ?thesis
      using bits less.prems by (subst naf_loop.simps) simp
  next
    case False
    then have pos: "0 < mpval k" using mpval_nonneg [of k] by linarith
    then have i: "i \<le> 256" using less.prems(3,6) by fastforce
    obtain sign k1 where st: "naf_step k = Some (sign, k1)" "mp_wf k1" "sign \<in> {0, 1, 3}"
      "mpval k1 = mpval k - digit (ucast sign)" "even (mpval k1)" "sign \<noteq> 0 \<longrightarrow> 4 dvd mpval k1"
      "sign = 0 \<longleftrightarrow> even (mpval k)"
      using naf_step_value [OF wf pos less.prems(7)] by blast
    let ?k = "multiprecision_rshift k1"
    let ?naf = "naf[i div 4 := naf ! (i div 4) OR ucast (push_bit (i mod 4 * 2) sign)]"
    have step: "naf_loop naf i k = naf_loop ?naf (Suc i) ?k"
    proof -
      have "i div 4 < 65" using i by presburger
      then show ?thesis using bits False st(1) len by (subst naf_loop.simps) simp
    qed
    have k1: "2 * mpval ?k = mpval k - digit (ucast sign)" "mp_wf ?k"
      using st(2,4,5) by (simp_all add: multiprecision_rshift_value len_simps)
    have dg: "digit (ucast sign) \<in> {0, 1, - 1}" using st(3) by (auto simp: digit_def)
    have d1: "3 \<le> mpval k" if "digit (ucast sign) = - 1"
    proof -
      have "4 dvd mpval k + 1" using that st(3,4,6) by (auto simp: digit_def)
      then have "4 \<le> mpval k + 1" using pos by (intro zdvd_imp_le) simp_all
      then show ?thesis by simp
    qed
    have dec: "mpval ?k < mpval k"
      using k1(1) dg d1 pos by auto
    have b: "2 * mpval ?k \<le> 2 ^ (256 - i)" if "i < 256"
    proof (cases "mpval k = 2 ^ (256 - i)")
      case True
      moreover have "even (2 ^ (256 - i) :: int)" using that by simp
      ultimately have "digit (ucast sign) = 0" using st(7) by (simp add: digit_def)
      then show ?thesis using k1(1) True by simp
    next
      case False
      then have "mpval k + 1 \<le> 2 ^ (256 - i)" using bound that by simp
      then show ?thesis using k1(1) dg by auto
    qed
    then have b': "mpval ?k \<le> 2 ^ (256 - Suc i)" if "i < 256"
    proof -
      have "256 - i = Suc (256 - Suc i)" using that by simp
      then show ?thesis using b [OF that] by simp
    qed
    have z: "mpval ?k = 0" if "i = 256"
    proof -
      have "mpval k \<le> 1" using that bound by simp
      then show ?thesis using dec mpval_nonneg [of ?k] by linarith
    qed
    have sg: "naf_sign ?naf j = (if j = i then ucast sign else naf_sign naf j)" for j
      using naf_sign_update [of i naf sign j] i st(3) slots len by simp
    obtain naf' n k' where r: "naf_loop ?naf (Suc i) ?k = Some (naf', n, k')" "length naf' = 65" "Suc i \<le> n"
      "n \<le> 257" "mp_wf k'" "mpval k' = 0" "\<forall>j < Suc i. naf_sign naf' j = naf_sign ?naf j"
      "\<forall>j. n \<le> j \<and> j < 260 \<longrightarrow> naf_sign naf' j = 0" "even (mpval ?k) \<longrightarrow> naf_sign naf' (Suc i) = 0"
      "\<forall>j. Suc i \<le> j \<and> j < 259 \<longrightarrow> naf_sign naf' j = 0 \<or> naf_sign naf' (Suc j) = 0"
      "\<forall>j. Suc i \<le> j \<and> j < 260 \<longrightarrow> naf_sign naf' j \<in> {0, 1, 3}"
      "mpval ?k = (\<Sum>j = Suc i..<n. digit (naf_sign naf' j) * 2 ^ (j - Suc i))"
    proof -
      have "nat (mpval ?k) < nat (mpval k)" using dec pos by linarith
      moreover have "length ?naf = 65" "Suc i \<le> 257" using len i by simp_all
      moreover have "\<forall>j. Suc i \<le> j \<and> j < 260 \<longrightarrow> naf_sign ?naf j = 0" using sg slots by simp
      moreover have "Suc i \<le> 256 \<longrightarrow> mpval ?k \<le> 2 ^ (256 - Suc i)" using b' by simp
      moreover have "Suc i = 257 \<longrightarrow> mpval ?k = 0" using z by simp
      moreover have "mpval ?k < 2 ^ 256 - 1" using dec less.prems(7) by linarith
      ultimately show ?thesis
        using less.hyps [of ?k ?naf "Suc i"] k1(2) that by blast
    qed
    have i': "naf_sign naf' i = ucast sign" using r(7) sg by simp
    show ?thesis
    proof (intro exI conjI)
      show "naf_loop naf i k = Some (naf', n, k')" using step r(1) by simp
      show "mpval k = (\<Sum>j = i..<n. digit (naf_sign naf' j) * 2 ^ (j - i))"
        using sum_shift_digits [of i n "\<lambda>j. digit (naf_sign naf' j)"] r(3,12) k1(1) i' by simp
      show "\<forall>j. i \<le> j \<and> j < 259 \<longrightarrow> naf_sign naf' j = 0 \<or> naf_sign naf' (Suc j) = 0"
      proof (intro allI impI)
        fix j assume j: "i \<le> j \<and> j < 259"
        show "naf_sign naf' j = 0 \<or> naf_sign naf' (Suc j) = 0"
        proof (cases "j = i")
          case True
          have "even (mpval ?k)" if "sign \<noteq> 0"
          proof -
            have "4 dvd 2 * mpval ?k" using st(4,6) k1(1) that by simp
            then show ?thesis by presburger
          qed
          then show ?thesis using True r(9) i' by (cases "sign = 0") auto
        next
          case False
          then show ?thesis using r(10) j by simp
        qed
      qed
      show "\<forall>j. i \<le> j \<and> j < 260 \<longrightarrow> naf_sign naf' j \<in> {0, 1, 3}"
      proof (intro allI impI)
        fix j assume "i \<le> j \<and> j < 260"
        then show "naf_sign naf' j \<in> {0, 1, 3}"
          using r(11) i' st(3) by (cases "j = i") auto
      qed
    qed (use r sg i' st(7) in auto)
  qed
qed

end
