(* ===== verification/P256_Curve.thy ===== *)
theory P256_Curve
  imports P256_Inverse P256_Ecc
begin

text \<open>
  The Jacobian doubling and mixed addition compute the tangent and the chord of the affine
  curve, as congruences modulo the prime, whenever the fast reduction is exact on the products
  they form.
\<close>

section \<open>Residues\<close>

text \<open>A reduced field element and an integer it stands for.\<close>

definition residue :: "u32 list \<Rightarrow> int \<Rightarrow> bool" where
  "residue a x \<longleftrightarrow> mp_wf a \<and> mpval a = x mod p256"

named_theorems residue_intros

lemma residue_fe: "residue a x \<Longrightarrow> mp_wf a \<and> mpval a < p256"
  using p256_bounds by (auto simp: residue_def)

lemma residue_self: "mp_wf a \<Longrightarrow> mpval a < p256 \<Longrightarrow> residue a (mpval a)"
  by (simp add: residue_def)

lemma residue_cong: "residue a x \<Longrightarrow> x mod p256 = y mod p256 \<Longrightarrow> residue a y"
  by (simp add: residue_def)

lemma residue_add [residue_intros]:
  "residue a x \<Longrightarrow> residue b y \<Longrightarrow> residue (multiprecision_add_mod modp a b) (x + y)"
  using add_mod_value [of a b] residue_fe [of a x] residue_fe [of b y]
  by (simp add: residue_def mod_simps)

lemma residue_sub [residue_intros]:
  "residue a x \<Longrightarrow> residue b y \<Longrightarrow> residue (multiprecision_sub_mod modp a b) (x - y)"
  using sub_mod_value [of a b] residue_fe [of a x] residue_fe [of b y]
  by (simp add: residue_def mod_simps)

lemma residue_lshift [residue_intros]:
  "residue a x \<Longrightarrow> residue (multiprecision_lshift_mod modp a) (2 * x)"
  using lshift_mod_value [of a] residue_fe [of a x]
  by (simp add: residue_def mod_simps)

lemma residue_mult [residue_intros]:
  "residue a x \<Longrightarrow> residue b y \<Longrightarrow> mult_mod_exact a b \<Longrightarrow>
   residue (multiprecision_mersenns_mult_mod modp a b) (x * y)"
  using mult_mod_value [of a b] residue_fe [of a x] residue_fe [of b y]
  by (simp add: residue_def mod_simps)

lemma residue_squa [residue_intros]:
  "residue a x \<Longrightarrow> mult_mod_exact a a \<Longrightarrow> residue (multiprecision_mersenns_squa_mod modp a) (x * x)"
  unfolding multiprecision_mersenns_squa_mod_def by (rule residue_mult)

section \<open>Doubling\<close>

text \<open>The products of a doubling, each of which the fast reduction has to reduce exactly.\<close>

definition ECC_Double_exact :: "Point \<Rightarrow> bool" where
  "ECC_Double_exact p \<longleftrightarrow>
     (let x1 = pt_x p; y1 = pt_y p; z1 = pt_z p;
          t1 = multiprecision_mersenns_squa_mod modp z1;
          d = multiprecision_sub_mod modp x1 t1;
          e = multiprecision_add_mod modp x1 t1;
          m = multiprecision_mersenns_mult_mod modp e d;
          m3 = multiprecision_add_mod modp (multiprecision_lshift_mod modp m) m;
          y2 = multiprecision_lshift_mod modp (multiprecision_mersenns_squa_mod modp y1);
          s = multiprecision_lshift_mod modp (multiprecision_mersenns_mult_mod modp y2 x1);
          x3 = multiprecision_sub_mod modp (multiprecision_mersenns_squa_mod modp m3)
                 (multiprecision_lshift_mod modp s)
      in mult_mod_exact z1 z1 \<and> mult_mod_exact e d \<and> mult_mod_exact y1 z1 \<and> mult_mod_exact y1 y1 \<and>
         mult_mod_exact y2 x1 \<and> mult_mod_exact y2 y2 \<and> mult_mod_exact m3 m3 \<and>
         mult_mod_exact (multiprecision_sub_mod modp s x3) m3)"

lemma ECC_Double_jacobian:
  fixes X Y Z :: int
  assumes "residue (pt_x p) X" "residue (pt_y p) Y" "residue (pt_z p) Z"
    and "ECC_Double_exact p" and "mpval (pt_z p) \<noteq> 0"
  defines "M \<equiv> 2 * ((X + Z * Z) * (X - Z * Z)) + (X + Z * Z) * (X - Z * Z)"
    and "S \<equiv> 2 * (2 * (Y * Y) * X)"
  defines "X3 \<equiv> M * M - 2 * S"
  shows "residue (pt_x (ECC_Double modp q p)) X3"
    and "residue (pt_y (ECC_Double modp q p)) ((S - X3) * M - 2 * (2 * (Y * Y) * (2 * (Y * Y))))"
    and "residue (pt_z (ECC_Double modp q p)) (2 * (Y * Z))"
proof -
  note exact = assms(4) [unfolded ECC_Double_exact_def Let_def]
  show "residue (pt_x (ECC_Double modp q p)) X3"
    and "residue (pt_y (ECC_Double modp q p)) ((S - X3) * M - 2 * (2 * (Y * Y) * (2 * (Y * Y))))"
    and "residue (pt_z (ECC_Double modp q p)) (2 * (Y * Z))"
    unfolding ECC_Double_def Let_def X3_def M_def S_def multiprecision_iszero_value
    using assms(5) exact by (simp_all only: if_False Point.select_convs) (intro residue_intros assms(1-3); blast)+
qed

lemma power_cong: "a mod p = b mod p \<Longrightarrow> a ^ n mod p = b ^ n mod (p :: int)"
  by (metis power_mod)

lemma tangent_congruences:
  fixes X Y Z x y s :: int
  assumes X: "X mod p = (x * Z ^ 2) mod p" and Y: "Y mod p = (y * Z ^ 3) mod p"
    and s: "(s * (2 * y)) mod p = (3 * x ^ 2 - 3) mod p"
  defines "M \<equiv> 2 * ((X + Z * Z) * (X - Z * Z)) + (X + Z * Z) * (X - Z * Z)"
    and "S \<equiv> 2 * (2 * (Y * Y) * X)" and "Z3 \<equiv> 2 * (Y * Z)"
  shows "(M * M - 2 * S) mod p = ((s ^ 2 - 2 * x) * Z3 ^ 2) mod p"
    and "((S - (M * M - 2 * S)) * M - 2 * (2 * (Y * Y) * (2 * (Y * Y)))) mod p =
      ((s * (x - (s ^ 2 - 2 * x)) - y) * Z3 ^ 3) mod p"
proof -
  have z3: "Z3 mod p = (2 * (y * Z ^ 3 * Z)) mod p"
    unfolding Z3_def by (intro mod_mult_cong Y refl)
  have m: "M mod p = (s * Z3) mod p"
  proof -
    have "M mod p = (2 * ((x * Z ^ 2 + Z * Z) * (x * Z ^ 2 - Z * Z)) + (x * Z ^ 2 + Z * Z) * (x * Z ^ 2 - Z * Z)) mod p"
      unfolding M_def by (intro mod_mult_cong mod_add_cong mod_diff_cong X refl)
    also have "\<dots> = ((3 * x ^ 2 - 3) * Z ^ 4) mod p"
      by (simp add: algebra_simps eval_nat_numeral)
    also have "\<dots> = ((s * (2 * y)) * Z ^ 4) mod p"
      by (intro mod_mult_cong s [symmetric] refl)
    also have "\<dots> = (s * (2 * (y * Z ^ 3 * Z))) mod p"
      by (simp add: algebra_simps eval_nat_numeral)
    also have "\<dots> = (s * Z3) mod p"
      by (intro mod_mult_cong z3 [symmetric] refl)
    finally show ?thesis .
  qed
  have S: "S mod p = (x * Z3 ^ 2) mod p"
  proof -
    have "S mod p = (2 * (2 * ((y * Z ^ 3) * (y * Z ^ 3)) * (x * Z ^ 2))) mod p"
      unfolding S_def by (intro mod_mult_cong X Y refl)
    also have "\<dots> = (x * (2 * (y * Z ^ 3 * Z)) ^ 2) mod p"
      by (simp add: algebra_simps eval_nat_numeral)
    also have "\<dots> = (x * Z3 ^ 2) mod p"
      unfolding power2_eq_square by (intro mod_mult_cong z3 [symmetric] refl)
    finally show ?thesis .
  qed
  have y4: "(2 * (2 * (Y * Y) * (2 * (Y * Y)))) mod p = (y * Z3 ^ 3) mod p"
  proof -
    have "(2 * (2 * (Y * Y) * (2 * (Y * Y)))) mod p =
        (2 * (2 * ((y * Z ^ 3) * (y * Z ^ 3)) * (2 * ((y * Z ^ 3) * (y * Z ^ 3))))) mod p"
      by (intro mod_mult_cong Y refl)
    also have "\<dots> = (y * (2 * (y * Z ^ 3 * Z)) ^ 3) mod p"
      by (simp add: algebra_simps eval_nat_numeral)
    also have "\<dots> = (y * Z3 ^ 3) mod p"
      by (intro mod_mult_cong power_cong z3 [symmetric] refl)
    finally show ?thesis .
  qed
  have "(M * M - 2 * S) mod p = ((s * Z3) * (s * Z3) - 2 * (x * Z3 ^ 2)) mod p"
    by (intro mod_mult_cong mod_diff_cong m S refl)
  then show X3: "(M * M - 2 * S) mod p = ((s ^ 2 - 2 * x) * Z3 ^ 2) mod p"
    by (simp add: algebra_simps eval_nat_numeral)
  have "((S - (M * M - 2 * S)) * M - 2 * (2 * (Y * Y) * (2 * (Y * Y)))) mod p =
      ((x * Z3 ^ 2 - (s ^ 2 - 2 * x) * Z3 ^ 2) * (s * Z3) - y * Z3 ^ 3) mod p"
    by (intro mod_mult_cong mod_diff_cong m S X3 y4)
  also have "\<dots> = ((s * (x - (s ^ 2 - 2 * x)) - y) * Z3 ^ 3) mod p"
    by (simp add: algebra_simps eval_nat_numeral)
  finally show "((S - (M * M - 2 * S)) * M - 2 * (2 * (Y * Y) * (2 * (Y * Y)))) mod p =
      ((s * (x - (s ^ 2 - 2 * x)) - y) * Z3 ^ 3) mod p" .
qed

section \<open>Addition\<close>

definition ECC_Add_exact :: "Point \<Rightarrow> Point \<Rightarrow> bool" where
  "ECC_Add_exact p q \<longleftrightarrow>
     (let x1 = pt_x p; y1 = pt_y p; z1 = pt_z p; x2 = pt_x q; y2 = pt_y q;
          zz = multiprecision_mersenns_squa_mod modp z1;
          zzz = multiprecision_mersenns_mult_mod modp z1 zz;
          t1 = multiprecision_sub_mod modp (multiprecision_mersenns_mult_mod modp x2 zz) x1;
          t2 = multiprecision_sub_mod modp (multiprecision_mersenns_mult_mod modp y2 zzz) y1;
          a = multiprecision_mersenns_squa_mod modp t1;
          b = multiprecision_mersenns_mult_mod modp a t1;
          c = multiprecision_mersenns_mult_mod modp a x1;
          x3 = multiprecision_sub_mod modp
                 (multiprecision_sub_mod modp (multiprecision_mersenns_squa_mod modp t2)
                    (multiprecision_lshift_mod modp c)) b
      in mult_mod_exact z1 z1 \<and> mult_mod_exact z1 zz \<and> mult_mod_exact x2 zz \<and> mult_mod_exact y2 zzz \<and>
         mult_mod_exact z1 t1 \<and> mult_mod_exact t1 t1 \<and> mult_mod_exact a t1 \<and> mult_mod_exact a x1 \<and>
         mult_mod_exact t2 t2 \<and> mult_mod_exact (multiprecision_sub_mod modp c x3) t2 \<and>
         mult_mod_exact b y1)"

lemma residue_iszero:
  "residue a x \<Longrightarrow> multiprecision_iszero a \<longleftrightarrow> p256 dvd x"
  by (simp add: residue_def multiprecision_iszero_value dvd_eq_mod_eq_0)

lemma ECC_Add_differences:
  fixes X1 Y1 Z1 x2 y2 :: int
  assumes "residue (pt_x p) X1" "residue (pt_y p) Y1" "residue (pt_z p) Z1"
    and "residue (pt_x q) x2" "residue (pt_y q) y2" and "ECC_Add_exact p q"
  shows "residue (multiprecision_sub_mod modp
      (multiprecision_mersenns_mult_mod modp (pt_x q) (multiprecision_mersenns_squa_mod modp (pt_z p)))
      (pt_x p)) (x2 * (Z1 * Z1) - X1)"
    and "residue (multiprecision_sub_mod modp
      (multiprecision_mersenns_mult_mod modp (pt_y q)
        (multiprecision_mersenns_mult_mod modp (pt_z p) (multiprecision_mersenns_squa_mod modp (pt_z p))))
      (pt_y p)) (y2 * (Z1 * (Z1 * Z1)) - Y1)"
proof -
  note exact = assms(6) [unfolded ECC_Add_exact_def Let_def]
  show "residue (multiprecision_sub_mod modp
      (multiprecision_mersenns_mult_mod modp (pt_x q) (multiprecision_mersenns_squa_mod modp (pt_z p)))
      (pt_x p)) (x2 * (Z1 * Z1) - X1)"
    and "residue (multiprecision_sub_mod modp
      (multiprecision_mersenns_mult_mod modp (pt_y q)
        (multiprecision_mersenns_mult_mod modp (pt_z p) (multiprecision_mersenns_squa_mod modp (pt_z p))))
      (pt_y p)) (y2 * (Z1 * (Z1 * Z1)) - Y1)"
    using exact by - (intro residue_intros assms(1-5); blast)+
qed

lemma ECC_Add_jacobian:
  fixes X1 Y1 Z1 x2 y2 :: int
  assumes "residue (pt_x p) X1" "residue (pt_y p) Y1" "residue (pt_z p) Z1"
    and "residue (pt_x q) x2" "residue (pt_y q) y2" and "ECC_Add_exact p q"
    and "mpval (pt_z p) \<noteq> 0" "mpval (pt_z q) \<noteq> 0"
  defines "H \<equiv> x2 * (Z1 * Z1) - X1" and "R \<equiv> y2 * (Z1 * (Z1 * Z1)) - Y1"
  defines "X3 \<equiv> R * R - 2 * (H * H * X1) - H * H * H"
  assumes "\<not> p256 dvd H"
  shows "residue (pt_x (fst (ECC_Add modp r p q))) X3"
    and "residue (pt_y (fst (ECC_Add modp r p q))) ((H * H * X1 - X3) * R - H * H * H * Y1)"
    and "residue (pt_z (fst (ECC_Add modp r p q))) (Z1 * H)"
proof -
  note exact = assms(6) [unfolded ECC_Add_exact_def Let_def]
  note d = ECC_Add_differences [OF assms(1-6)]
  note nz = residue_iszero [OF d(1), folded H_def] \<open>\<not> p256 dvd H\<close>
  show "residue (pt_x (fst (ECC_Add modp r p q))) X3"
    and "residue (pt_y (fst (ECC_Add modp r p q))) ((H * H * X1 - X3) * R - H * H * H * Y1)"
    and "residue (pt_z (fst (ECC_Add modp r p q))) (Z1 * H)"
    unfolding ECC_Add_def Let_def X3_def H_def R_def multiprecision_iszero_value [of "pt_z p"]
      multiprecision_iszero_value [of "pt_z q"] using assms(7,8) exact nz
    by (simp_all only: if_False fst_conv Point.select_convs) (intro residue_intros d assms(1-5); blast)+
qed

lemma ECC_Add_same_x:
  assumes "residue (pt_x p) X1" "residue (pt_y p) Y1" "residue (pt_z p) Z1"
    and "residue (pt_x q) x2" "residue (pt_y q) y2" and "ECC_Add_exact p q"
    and "mpval (pt_z p) \<noteq> 0" "mpval (pt_z q) \<noteq> 0" and "p256 dvd x2 * (Z1 * Z1) - X1"
  shows "ECC_Add modp r p q =
    (if p256 dvd y2 * (Z1 * (Z1 * Z1)) - Y1 then ECC_Double modp r q
     else r\<lparr>pt_z := multiprecision_init (pt_z r)\<rparr>, p)"
proof -
  note d = ECC_Add_differences [OF assms(1-6)]
  show ?thesis
    unfolding ECC_Add_def Let_def residue_iszero [OF d(1)] residue_iszero [OF d(2)]
    using assms(7-9) by (simp add: multiprecision_iszero_value)
qed

lemma chord_congruences:
  fixes X1 Y1 Z1 x1 y1 x2 y2 s :: int
  assumes X: "X1 mod p = (x1 * Z1 ^ 2) mod p" and Y: "Y1 mod p = (y1 * Z1 ^ 3) mod p"
    and s: "(s * (x2 - x1)) mod p = (y2 - y1) mod p"
  defines "H \<equiv> x2 * (Z1 * Z1) - X1" and "R \<equiv> y2 * (Z1 * (Z1 * Z1)) - Y1"
  defines "Z3 \<equiv> Z1 * H" and "x3 \<equiv> s ^ 2 - x1 - x2"
  shows "(R * R - 2 * (H * H * X1) - H * H * H) mod p = (x3 * Z3 ^ 2) mod p"
    and "((H * H * X1 - (R * R - 2 * (H * H * X1) - H * H * H)) * R - H * H * H * Y1) mod p =
      ((s * (x1 - x3) - y1) * Z3 ^ 3) mod p"
proof -
  have h: "H mod p = ((x2 - x1) * Z1 ^ 2) mod p"
  proof -
    have "H mod p = (x2 * (Z1 * Z1) - x1 * Z1 ^ 2) mod p"
      unfolding H_def by (intro mod_diff_cong X refl)
    then show ?thesis by (simp add: algebra_simps power2_eq_square)
  qed
  have r: "R mod p = (s * Z3) mod p"
  proof -
    have "R mod p = (y2 * (Z1 * (Z1 * Z1)) - y1 * Z1 ^ 3) mod p"
      unfolding R_def by (intro mod_diff_cong Y refl)
    also have "\<dots> = ((y2 - y1) * Z1 ^ 3) mod p"
      by (simp add: algebra_simps power3_eq_cube)
    also have "\<dots> = ((s * (x2 - x1)) * Z1 ^ 3) mod p"
      by (intro mod_mult_cong s [symmetric] refl)
    also have "\<dots> = (s * (Z1 * ((x2 - x1) * Z1 ^ 2))) mod p"
      by (simp add: algebra_simps eval_nat_numeral)
    also have "\<dots> = (s * Z3) mod p"
      unfolding Z3_def by (intro mod_mult_cong h [symmetric] refl)
    finally show ?thesis .
  qed
  have a: "(H * H * X1) mod p = (x1 * Z3 ^ 2) mod p"
  proof -
    have "(H * H * X1) mod p = (H * H * (x1 * Z1 ^ 2)) mod p"
      by (intro mod_mult_cong X refl)
    then show ?thesis by (simp add: Z3_def algebra_simps power2_eq_square)
  qed
  have b: "(H * H * H) mod p = ((x2 - x1) * Z3 ^ 2) mod p"
  proof -
    have "(H * H * H) mod p = (H * H * ((x2 - x1) * Z1 ^ 2)) mod p"
      by (intro mod_mult_cong h refl)
    then show ?thesis by (simp add: Z3_def algebra_simps power2_eq_square)
  qed
  have c: "(H * H * H * Y1) mod p = (y1 * Z3 ^ 3) mod p"
  proof -
    have "(H * H * H * Y1) mod p = (H * H * H * (y1 * Z1 ^ 3)) mod p"
      by (intro mod_mult_cong Y refl)
    then show ?thesis by (simp add: Z3_def algebra_simps power3_eq_cube)
  qed
  have "(R * R - 2 * (H * H * X1) - H * H * H) mod p =
      ((s * Z3) * (s * Z3) - 2 * (x1 * Z3 ^ 2) - (x2 - x1) * Z3 ^ 2) mod p"
    by (intro mod_mult_cong [of 2 p 2] mod_mult_cong [of R p "s * Z3" R] mod_diff_cong r a b refl)
  then show x3: "(R * R - 2 * (H * H * X1) - H * H * H) mod p = (x3 * Z3 ^ 2) mod p"
    by (simp add: x3_def algebra_simps power2_eq_square)
  have "((H * H * X1 - (R * R - 2 * (H * H * X1) - H * H * H)) * R - H * H * H * Y1) mod p =
      ((x1 * Z3 ^ 2 - x3 * Z3 ^ 2) * (s * Z3) - y1 * Z3 ^ 3) mod p"
    by (rule mod_diff_cong [OF mod_mult_cong [OF mod_diff_cong [OF a x3] r] c])
  also have "\<dots> = ((s * (x1 - x3) - y1) * Z3 ^ 3) mod p"
    by (simp add: algebra_simps eval_nat_numeral)
  finally show "((H * H * X1 - (R * R - 2 * (H * H * X1) - H * H * H)) * R - H * H * H * Y1) mod p =
      ((s * (x1 - x3) - y1) * Z3 ^ 3) mod p" .
qed

end
