(* ===== verification/P256_Properties.thy ===== *)
theory P256_Properties
  imports P256_Naf P256_Curve
begin

unbundle bit_operations_syntax

text \<open>
  The properties of the P-256 code, with the evaluation lemmas their witnesses use.
\<close>

section \<open>Integers\<close>

text \<open>
  C23: \<^verbatim>\<open>multiprecision_mult\<close> stores the exact product of two 256-bit numbers in its
  16 words, whatever the buffer held before.
\<close>

theorem multiprecision_mult_product:
  assumes "mp_wf a" "mp_wf b" "length c = 16"
  shows "length (multiprecision_mult c a b) = 16 \<and>
    mpval (multiprecision_mult c a b) = mpval a * mpval b"
  using multiprecision_mult_value [OF assms] by simp

theorem multiprecision_mult_product_witness:
  "mpval (multiprecision_mult (replicate 16 7) [1, 2, 3, 4, 5, 6, 7, 8] [0, 0, 0, 0, 0, 0, 0, 9]) =
    mpval [1, 2, 3, 4, 5, 6, 7, 8] * (9 * 2 ^ 224)"
  using multiprecision_mult_product [of "[1, 2, 3, 4, 5, 6, 7, 8]" "[0, 0, 0, 0, 0, 0, 0, 9]" "replicate 16 7"]
  by simp

text \<open>
  C24: on reduced operands \<^verbatim>\<open>multiprecision_add_mod\<close>, \<^verbatim>\<open>multiprecision_sub_mod\<close> and
  \<^verbatim>\<open>multiprecision_lshift_mod\<close> return the reduced sum, difference and double.
\<close>

theorem modular_add_sub_double:
  assumes "mp_wf a" "mp_wf b" "mpval a < p256" "mpval b < p256"
  shows "mpval (multiprecision_add_mod modp a b) = (mpval a + mpval b) mod p256 \<and>
    mpval (multiprecision_sub_mod modp a b) = (mpval a - mpval b) mod p256 \<and>
    mpval (multiprecision_lshift_mod modp a) = (2 * mpval a) mod p256"
  using add_mod_value [OF assms] sub_mod_value [OF assms] lshift_mod_value [OF assms(1,3)] by simp

theorem modular_add_sub_double_witness:
  "let a = [2, 0, 0, 0, 0, 0, 0, 0]; b = [5, 0, 0, 0, 0, 0, 0, 0] in
   mpval a < p256 \<and> mpval b < p256 \<and> mpval (multiprecision_sub_mod modp a b) = p256 - 3"
proof -
  have "- 3 mod p256 = p256 - 3" "2 < p256" "5 < p256" by (simp_all add: p256_def)
  then show ?thesis
    using modular_add_sub_double [of "[2, 0, 0, 0, 0, 0, 0, 0]" "[5, 0, 0, 0, 0, 0, 0, 0]"] by simp
qed

text \<open>
  C11: \<^verbatim>\<open>multiprecision_mersenns_mult_mod\<close> returns the reduced product whenever the fast
  reduction is exact on it: no borrow is lost between two words and the final correction does
  not wrap around.
\<close>

theorem mult_mod_correct:
  assumes "mp_wf a" "mp_wf b" "mult_mod_exact a b"
  shows "mp_wf (multiprecision_mersenns_mult_mod modp a b) \<and>
    mpval (multiprecision_mersenns_mult_mod modp a b) = (mpval a * mpval b) mod p256"
  using mult_mod_value [OF assms(1,2)] assms(3) by blast

theorem mult_mod_correct_witness:
  "let a = [0, 0, 0, 0, 1, 0, 0, 0]; b = [1, 1, 0, 0, 0, 0, 1, 0] in mult_mod_exact a b \<and>
     mpval (multiprecision_mersenns_mult_mod modp a b) = (2 ^ 128 + 2 ^ 160 + 2 ^ 320) mod p256"
proof -
  let ?a = "[0, 0, 0, 0, 1, 0, 0, 0] :: u32 list" and ?b = "[1, 1, 0, 0, 0, 0, 1, 0] :: u32 list"
  have p: "multiprecision_mult (replicate (2 * KEY_LENGTH_DWORDS_P256) 0) ?a ?b =
      [0, 0, 0, 0, 1, 1, 0, 0, 0, 0, 1, 0, 0, 0, 0, 0]"
    by (rule multiprecision_mult_eqI) (simp_all add: KEY_LENGTH_DWORDS_P256_def)
  have "fast_mod_exact [0, 0, 0, 0, 1, 1, 0, 0, 0, 0, 1, 0, 0, 0, 0, 0]"
    by code_simp
  then have "mult_mod_exact ?a ?b"
    unfolding mult_mod_exact_def p .
  then show ?thesis
    using mult_mod_correct [of ?a ?b] by simp
qed

section \<open>Products below the radix\<close>

lemma mpval_0_words: "mpval a = 0 \<Longrightarrow> a = replicate (length a) 0"
  using mpval_inject [of a "replicate (length a) 0"] by simp

lemma acc_zero [simp]: "acc_add (v, k) 0 = (v, k)" "acc_sub (v, k) 0 = (v, k)"
  by (simp_all add: acc_add_def acc_sub_def)

lemma carry_zero [simp]: "carry_add (v, U) 0 = (v, U)" "carry_sub (v, U) 0 = (v, U)" "carry_into v 0 = (v, 0)"
  by (simp_all add: carry_add_def carry_sub_def carry_into_def)

lemma fast_mod_exact_below:
  assumes "length a = 16" and "mpval a < 2 ^ 256"
  shows "fast_mod_exact a"
proof -
  have "mpval a = mpval (take 8 a) + 2 ^ 256 * mpval (drop 8 a)"
    using mpval_append [of "take 8 a" "drop 8 a"] assms(1) by simp
  then have "2 ^ 256 * mpval (drop 8 a) < 2 ^ 256 * 1"
    using assms(2) mpval_nonneg [of "take 8 a"] by linarith
  then have "mpval (drop 8 a) < 1"
    by (simp only: mult_less_cancel_left_pos zero_less_power zero_less_numeral)
  then have "mpval (drop 8 a) = 0"
    using mpval_nonneg [of "drop 8 a"] by linarith
  then have "drop 8 a = replicate 8 0"
    using mpval_0_words [of "drop 8 a"] assms(1) by simp
  then have hi: "a ! i = 0" if "8 \<le> i" "i < 16" for i
    using that assms(1) nth_drop [of 8 a "i - 8"] by simp
  have abc: "mod_C a = (0, 0)" "mod_E a = (0, 0)" "mod_F a = (0, 0)" "mod_G a = (0, 0)"
    by (simp_all add: mod_C_def mod_E_def mod_F_def mod_G_def hi)
  then have b: "mod_B a = (0, 0)" by (simp add: mod_B_def hi)
  then have "mod_A a = (0, 0)" by (simp add: mod_A_def hi)
  then have ad: "mod_A a = (0, 0)" "mod_D a = (0, 0)" by (simp_all add: mod_D_def hi)
  have 0: "mod_c0 a = (a ! 0, 0)" using abc ad by (simp add: mod_c0_def)
  have 1: "mod_c1 a = (a ! 1, 0)" using abc b 0 by (simp add: mod_c1_def)
  have 2: "mod_c2 a = (a ! 2, 0)" using abc 1 by (simp add: mod_c2_def)
  have 3: "mod_c3 a = (a ! 3, 0)" using abc ad 2 by (simp add: mod_c3_def hi)
  have 4: "mod_c4 a = (a ! 4, 0)" using abc b 3 by (simp add: mod_c4_def hi)
  have 5: "mod_c5 a = (a ! 5, 0)" using abc 4 by (simp add: mod_c5_def hi)
  have 6: "mod_c6 a = (a ! 6, 0)" using abc 5 by (simp add: mod_c6_def hi)
  have 7: "mod_c7 a = (a ! 7, 0)" using ad 6 by (simp add: mod_c7_def hi)
  have "mpval (mod_words a) < 2 ^ 256"
    using mp.val_range [of "mod_words a"] by (simp add: mod_words_def)
  then show ?thesis
    by (simp add: fast_mod_exact_def no_lost_borrow_def lost_borrow_def 0 1 2 3 4 5 6 7)
qed

lemma mult_mod_exact_below:
  assumes "mp_wf a" "mp_wf b" "mpval a * mpval b < 2 ^ 256"
  shows "mult_mod_exact a b"
  using multiprecision_mult_value [OF assms(1,2), of "replicate (2 * KEY_LENGTH_DWORDS_P256) 0"] assms(3)
  by (simp add: mult_mod_exact_def KEY_LENGTH_DWORDS_P256_def fast_mod_exact_below)

text \<open>One-word values, for evaluation.\<close>

abbreviation word1 :: "u32 \<Rightarrow> u32 list" where
  "word1 v \<equiv> [v, 0, 0, 0, 0, 0, 0, 0]"

lemma p256_above_word: "x < 2 ^ 64 \<Longrightarrow> x < p256"
  by (simp add: p256_def)

lemma word1_mult_exact: "mult_mod_exact (word1 u) (word1 v)"
proof (rule mult_mod_exact_below)
  have "uint u * uint v < 2 ^ 32 * 2 ^ 32"
    using uint_bounded [of u] uint_bounded [of v] by (intro mult_strict_mono) simp_all
  then show "mpval (word1 u) * mpval (word1 v) < 2 ^ 256" by simp
qed simp_all


lemma residue_word1: "residue (word1 v) (uint v)"
  using uint_bounded [of v] by (simp add: residue_def p256_above_word)

lemma residue_word1_eq:
  assumes "residue a (uint v)"
  shows "a = word1 v"
proof -
  have "mpval a = mpval (word1 v)" "mp_wf a"
    using assms residue_word1 [of v] by (simp_all add: residue_def)
  then show ?thesis using mpval_inject [of a "word1 v"] by simp
qed

lemma word1_mult_mod:
  assumes "uint u * uint v < 2 ^ 32"
  shows "multiprecision_mersenns_mult_mod modp (word1 u) (word1 v) = word1 (u * v)"
proof -
  have "uint (u * v) = uint u * uint v"
    using assms uint_mult_lem [of u v] by simp
  then show ?thesis
    using residue_mult [OF residue_word1 residue_word1 word1_mult_exact, of u v]
    by (intro residue_word1_eq) simp
qed

lemma word1_squa_mod:
  assumes "uint u * uint u < 2 ^ 32"
  shows "multiprecision_mersenns_squa_mod modp (word1 u) = word1 (u * u)"
  using word1_mult_mod [OF assms] by (simp add: multiprecision_mersenns_squa_mod_def)

lemma word1_add_mod:
  assumes "uint u + uint v < 2 ^ 32"
  shows "multiprecision_add_mod modp (word1 u) (word1 v) = word1 (u + v)"
proof -
  have "uint (u + v) = uint u + uint v"
    using assms uint_add_lem [of u v] by simp
  then show ?thesis
    using residue_add [OF residue_word1 residue_word1, of u v] by (intro residue_word1_eq) simp
qed

lemma word1_lshift_mod:
  assumes "uint u + uint u < 2 ^ 32"
  shows "multiprecision_lshift_mod modp (word1 u) = word1 (2 * u)"
proof -
  have "uint (2 * u) = 2 * uint u"
    using assms uint_add_lem [of u u] by (simp flip: mult_2)
  then show ?thesis
    using residue_lshift [OF residue_word1, of u] by (intro residue_word1_eq) simp
qed

lemma word1_sub_mod:
  assumes "v \<le> u"
  shows "multiprecision_sub_mod modp (word1 u) (word1 v) = word1 (u - v)"
proof -
  have "uint (u - v) = uint u - uint v"
    using assms uint_minus_simple_alt by blast
  then show ?thesis
    using residue_sub [OF residue_word1 residue_word1, of u v] by (intro residue_word1_eq) simp
qed

lemmas word1_eval = word1_mult_mod word1_squa_mod word1_add_mod word1_lshift_mod word1_sub_mod
  word1_mult_exact

text \<open>
  C9: \<^verbatim>\<open>ECC_Double\<close> on a finite point \<open>(X : Y : Z)\<close> with affine coordinates
  \<open>(x, y)\<close> returns the point on the tangent: for every slope \<open>s\<close> with
  \<open>2 y s = 3 x^2 - 3\<close> modulo the prime the result stands for
  \<open>(s^2 - 2 x, s (x - x3) - y)\<close> with \<open>Z3 = 2 Y Z\<close>, provided the fast reduction is exact on
  the eight products formed.
\<close>

theorem ECC_Double_tangent:
  fixes x y s :: int
  assumes "mp_wf (pt_x p)" "mp_wf (pt_y p)" "mp_wf (pt_z p)"
    and "mpval (pt_x p) < p256" "mpval (pt_y p) < p256" "0 < mpval (pt_z p)" "mpval (pt_z p) < p256"
    and "ECC_Double_exact p"
    and "mpval (pt_x p) = (x * mpval (pt_z p) ^ 2) mod p256"
    and "mpval (pt_y p) = (y * mpval (pt_z p) ^ 3) mod p256"
    and "(s * (2 * y)) mod p256 = (3 * x ^ 2 - 3) mod p256"
  shows "let r = ECC_Double modp q p; x3 = s ^ 2 - 2 * x in
    mpval (pt_z r) = (2 * (mpval (pt_y p) * mpval (pt_z p))) mod p256 \<and>
    mpval (pt_x r) = (x3 * mpval (pt_z r) ^ 2) mod p256 \<and>
    mpval (pt_y r) = ((s * (x - x3) - y) * mpval (pt_z r) ^ 3) mod p256"
proof -
  define r where "r = ECC_Double modp q p"
  define X Y Z where "X = mpval (pt_x p)" and "Y = mpval (pt_y p)" and "Z = mpval (pt_z p)"
  have res: "residue (pt_x p) X" "residue (pt_y p) Y" "residue (pt_z p) Z"
    using assms(1-7) by (simp_all add: residue_self X_def Y_def Z_def)
  have "mpval (pt_z p) \<noteq> 0" using assms(6) by simp
  note jac = ECC_Double_jacobian [OF res assms(8) this, of q, folded r_def, unfolded residue_def]
  have cong: "X mod p256 = (x * Z ^ 2) mod p256" "Y mod p256 = (y * Z ^ 3) mod p256"
    using assms(9,10) by (simp_all add: X_def Y_def Z_def)
  note tan = tangent_congruences [OF cong assms(11)]
  have z: "mpval (pt_z r) = (2 * (Y * Z)) mod p256" using jac by blast
  have zp: "(a * mpval (pt_z r) ^ n) mod p256 = (a * (2 * (Y * Z)) ^ n) mod p256" for a n
    unfolding z by (intro mod_mult_cong power_cong refl mod_mod_trivial)
  show ?thesis
    using jac tan unfolding Let_def r_def [symmetric] zp by (simp only: X_def Y_def Z_def)
qed

lemma mpval_word1: "mpval (word1 v) = uint v"
  by simp


theorem ECC_Double_tangent_witness:
  "let p = \<lparr>pt_x = word1 3, pt_y = word1 4, pt_z = word1 1\<rparr>; r = ECC_Double modp zero_Point p
   in ECC_Double_exact p \<and> mpval (pt_z r) = 8 \<and> mpval (pt_x r) = (3 * mpval (pt_z r) ^ 2) mod p256 \<and>
      mpval (pt_y r) = (- 4 * mpval (pt_z r) ^ 3) mod p256"
proof -
  let ?p = "\<lparr>pt_x = word1 3, pt_y = word1 4, pt_z = word1 1\<rparr>"
  have e: "ECC_Double_exact ?p"
    by (simp add: ECC_Double_exact_def Let_def word1_eval)
  have "mpval (pt_x ?p) < p256" "mpval (pt_y ?p) < p256" "mpval (pt_z ?p) < p256" "8 mod p256 = 8"
    "3 mod p256 = 3" "4 mod p256 = 4"
    by (simp_all add: p256_above_word)
  with ECC_Double_tangent [of ?p 3 4 3 zero_Point] e show ?thesis
    by (simp add: Let_def)
qed

text \<open>
  C8: \<^verbatim>\<open>ECC_Add\<close> on a finite point in Jacobian coordinates and a point with \<open>z = 1\<close> and a
  different abscissa returns the third point of the chord: for every slope \<open>s\<close> with
  \<open>s (x2 - x1) = y2 - y1\<close> modulo the prime the result stands for
  \<open>(s^2 - x1 - x2, s (x1 - x3) - y1)\<close>, provided the fast reduction is exact on the
  products formed.
\<close>

theorem ECC_Add_chord:
  fixes x1 y1 s :: int
  assumes "mp_wf (pt_x p)" "mp_wf (pt_y p)" "mp_wf (pt_z p)" "mp_wf (pt_x q)" "mp_wf (pt_y q)"
    and "mpval (pt_x p) < p256" "mpval (pt_y p) < p256" "0 < mpval (pt_z p)" "mpval (pt_z p) < p256"
    and "mpval (pt_x q) < p256" "mpval (pt_y q) < p256" "pt_z q = word1 1"
    and "ECC_Add_exact p q"
    and "mpval (pt_x p) = (x1 * mpval (pt_z p) ^ 2) mod p256"
    and "mpval (pt_y p) = (y1 * mpval (pt_z p) ^ 3) mod p256"
    and "(s * (mpval (pt_x q) - x1)) mod p256 = (mpval (pt_y q) - y1) mod p256"
    and "\<not> p256 dvd mpval (pt_x q) * mpval (pt_z p) ^ 2 - mpval (pt_x p)"
  shows "let r' = fst (ECC_Add modp r p q); x3 = s ^ 2 - x1 - mpval (pt_x q) in
    mpval (pt_x r') = (x3 * mpval (pt_z r') ^ 2) mod p256 \<and>
    mpval (pt_y r') = ((s * (x1 - x3) - y1) * mpval (pt_z r') ^ 3) mod p256 \<and>
    mpval (pt_z r') = (mpval (pt_z p) * (mpval (pt_x q) * mpval (pt_z p) ^ 2 - mpval (pt_x p))) mod p256"
proof -
  define r' where "r' = fst (ECC_Add modp r p q)"
  define X Y Z x2 y2 where "X = mpval (pt_x p)" and "Y = mpval (pt_y p)" and "Z = mpval (pt_z p)"
    and "x2 = mpval (pt_x q)" and "y2 = mpval (pt_y q)"
  have res: "residue (pt_x p) X" "residue (pt_y p) Y" "residue (pt_z p) Z" "residue (pt_x q) x2" "residue (pt_y q) y2"
    using assms(1-11) by (simp_all add: residue_self X_def Y_def Z_def x2_def y2_def)
  have nz: "mpval (pt_z p) \<noteq> 0" "mpval (pt_z q) \<noteq> 0" using assms(8,12) by simp_all
  have "\<not> p256 dvd x2 * (Z * Z) - X"
    using assms(17) by (simp add: X_def Z_def x2_def power2_eq_square)
  note jac = ECC_Add_jacobian [OF res assms(13) nz this, of r, folded r'_def, unfolded residue_def]
  have cong: "X mod p256 = (x1 * Z ^ 2) mod p256" "Y mod p256 = (y1 * Z ^ 3) mod p256"
      "(s * (x2 - x1)) mod p256 = (y2 - y1) mod p256"
    using assms(14-16) by (simp_all add: X_def Y_def Z_def x2_def y2_def)
  note ch = chord_congruences [OF cong]
  have z: "mpval (pt_z r') = (Z * (x2 * (Z * Z) - X)) mod p256" using jac by blast
  have zp: "(a * mpval (pt_z r') ^ n) mod p256 = (a * (Z * (x2 * (Z * Z) - X)) ^ n) mod p256" for a n
    unfolding z by (intro mod_mult_cong power_cong refl mod_mod_trivial)
  show ?thesis
    using jac ch unfolding Let_def r'_def [symmetric] zp power2_eq_square [of "mpval (pt_z p)"]
    by (simp only: X_def Y_def Z_def x2_def y2_def)
qed

theorem ECC_Add_chord_witness:
  "let p = \<lparr>pt_x = word1 3, pt_y = word1 1, pt_z = word1 1\<rparr>;
       q = \<lparr>pt_x = word1 4, pt_y = word1 4, pt_z = word1 1\<rparr>; r = fst (ECC_Add modp zero_Point p q)
   in ECC_Add_exact p q \<and> mpval (pt_z r) = 1 \<and> mpval (pt_x r) = 2 \<and> mpval (pt_y r) = 2"
proof -
  let ?p = "\<lparr>pt_x = word1 3, pt_y = word1 1, pt_z = word1 1\<rparr>"
  let ?q = "\<lparr>pt_x = word1 4, pt_y = word1 4, pt_z = word1 1\<rparr>"
  have e: "ECC_Add_exact ?p ?q"
    by (simp add: ECC_Add_exact_def Let_def word1_eval)
  have m: "v mod p256 = v" if "v \<in> {1, 2, 3, 4}" for v
    using that by (auto simp: p256_above_word)
  have "v < p256" if "v \<in> {1, 2, 3, 4}" for v
    using that by (auto simp: p256_above_word)
  moreover have "\<not> p256 dvd 1" using m [of 1] by (simp add: dvd_eq_mod_eq_0)
  ultimately show ?thesis
    using ECC_Add_chord [of ?p ?q 3 1 3 zero_Point] e by (simp add: Let_def m)
qed

lemma naf_sign_zero: "i div 4 < n \<Longrightarrow> naf_sign (replicate n 0) i = 0"
  by (simp add: naf_sign_def)

lemma naf_total:
  assumes "mp_wf k" and "mpval k < 2 ^ 256 - 1"
  shows "\<exists>naf n k'. ECC_NAF (replicate 65 0) k = Some (naf, n, k') \<and> n \<le> 257 \<and> mpval k' = 0 \<and>
    mpval k = (\<Sum>j = 0..<n. digit (naf_sign naf j) * 2 ^ j) \<and>
    (\<forall>j < n. naf_sign naf j \<in> {0, 1, 3}) \<and>
    (\<forall>j < n. naf_sign naf j = 0 \<or> naf_sign naf (Suc j) = 0)"
proof -
  obtain naf n k' where
    r: "naf_loop (replicate 65 0) 0 k = Some (naf, n, k')" "n \<le> 257" "mpval k' = 0"
      "\<forall>j. 0 \<le> j \<and> j < 259 \<longrightarrow> naf_sign naf j = 0 \<or> naf_sign naf (Suc j) = 0"
      "\<forall>j. 0 \<le> j \<and> j < 260 \<longrightarrow> naf_sign naf j \<in> {0, 1, 3}"
      "mpval k = (\<Sum>j = 0..<n. digit (naf_sign naf j) * 2 ^ (j - 0))"
    using naf_loop_value [of k "replicate 65 0" 0] naf_sign_zero assms by auto
  show ?thesis
    by (intro exI [of _ naf] exI [of _ n] exI [of _ k']) (use r in \<open>auto simp: ECC_NAF_def\<close>)
qed

lemma all_ones_value: "mpval (replicate 8 (- 1)) = 2 ^ 256 - 1"
  by code_simp

lemma naf_all_ones:
  assumes "mp_wf k" "mpval k = 2 ^ 256 - 1"
  shows "ECC_NAF naf k = None"
proof -
  have k: "k = replicate 8 (- 1)"
    using mpval_inject [of k "replicate 8 (- 1)"] assms all_ones_value by simp
  have "naf_step k = None" "1 \<le> multiprecision_most_signbits k" unfolding k by code_simp+
  then show ?thesis by (simp add: ECC_NAF_def naf_loop.simps [of naf 0 k])
qed

text \<open>
  C5: for every 256-bit scalar except \<open>2^256 - 1\<close> \<^verbatim>\<open>ECC_NAF\<close> ends without leaving its arrays, the
  packed digits it wrote are \<open>0\<close>, \<open>1\<close> or \<open>-1\<close> and sum to the scalar, there are at most 257 of
  them, and no two neighbouring digits are both non-zero. For the scalar \<open>2^256 - 1\<close> the carry runs past the
  last word of the scalar.
\<close>

theorem ECC_NAF_value:
  assumes "mp_wf k"
  shows "if mpval k \<noteq> 2 ^ 256 - 1
    then \<exists>naf n k'. ECC_NAF (replicate 65 0) k = Some (naf, n, k') \<and> n \<le> 257 \<and> mpval k' = 0 \<and>
      mpval k = (\<Sum>j = 0..<n. digit (naf_sign naf j) * 2 ^ j) \<and>
      (\<forall>j < n. naf_sign naf j \<in> {0, 1, 3}) \<and>
      (\<forall>j < n. naf_sign naf j = 0 \<or> naf_sign naf (Suc j) = 0)
    else ECC_NAF (replicate 65 0) k = None"
proof (cases "mpval k = 2 ^ 256 - 1")
  case True
  then show ?thesis using naf_all_ones [OF assms] by simp
next
  case False
  have "mpval k < 2 ^ 256" using mpval_less [of k] assms by simp
  then have "mpval k < 2 ^ 256 - 1" using False by simp
  from naf_total [OF assms this] show ?thesis unfolding if_P [OF False] .
qed

theorem ECC_NAF_value_witness:
  "(\<exists>naf n k'. ECC_NAF (replicate 65 0) (word1 7) = Some (naf, n, k') \<and> n \<le> 257 \<and> mpval k' = 0 \<and>
      7 = (\<Sum>j = 0..<n. digit (naf_sign naf j) * 2 ^ j)) \<and>
    ECC_NAF (replicate 65 0) (replicate 8 (- 1)) = None"
proof
  show "\<exists>naf n k'. ECC_NAF (replicate 65 0) (word1 7) = Some (naf, n, k') \<and> n \<le> 257 \<and> mpval k' = 0 \<and>
      7 = (\<Sum>j = 0..<n. digit (naf_sign naf j) * 2 ^ j)"
    using ECC_NAF_value [of "word1 7"] by auto
  show "ECC_NAF (replicate 65 0) (replicate 8 (- 1)) = None"
    using ECC_NAF_value [of "replicate 8 (- 1)"] unfolding all_ones_value by simp
qed

text \<open>
  C4: \<^verbatim>\<open>multiprecision_inv_mod\<close> ends on every input, and its reduced result times the
  input is the greatest common divisor of the input and the prime, hence 1 for every input
  that is coprime to it.
\<close>

theorem multiprecision_inv_mod_inverse:
  assumes "mp_wf u"
  shows "\<exists>r. multiprecision_inv_mod modp u = Some r \<and> mp_wf r \<and> mpval r < p256 \<and>
    (mpval r * mpval u) mod p256 = gcd (mpval u) p256 mod p256"
  using assms by (rule inv_mod_value)

theorem multiprecision_inv_mod_inverse_witness:
  "\<exists>r. multiprecision_inv_mod modp (word1 2) = Some r \<and> (mpval r * 2) mod p256 = 1"
proof -
  have "coprime 2 p256" using p256_odd by simp
  then have "gcd 2 p256 = 1" by (rule coprime_imp_gcd_eq_1)
  moreover have "1 mod p256 = 1" by (simp add: p256_above_word)
  ultimately show ?thesis
    using multiprecision_inv_mod_inverse [of "word1 2"] by auto
qed

section \<open>Point multiplication\<close>

abbreviation point_wf :: "Point \<Rightarrow> bool" where
  "point_wf p \<equiv> mp_wf (pt_x p) \<and> mp_wf (pt_y p) \<and> mp_wf (pt_z p)"

lemma mod_ops_wf [len_simps]:
  assumes "mp_wf a" "mp_wf b"
  shows "mp_wf (multiprecision_mersenns_mult_mod modp a b)"
    and "mp_wf (multiprecision_sub_mod modp a b)"
    and "mp_wf (multiprecision_add_mod modp a b)"
proof -
  obtain c k where c: "multiprecision_sub a b = (c, k)" by fastforce
  obtain d l where d: "multiprecision_add a b = (d, l)" by fastforce
  have "mp_wf c" "mp_wf d"
    using mp.sub_law [OF assms c] mp.add_law [OF assms d] by simp_all
  then show "mp_wf (multiprecision_mersenns_mult_mod modp a b)"
    "mp_wf (multiprecision_sub_mod modp a b)" "mp_wf (multiprecision_add_mod modp a b)"
    using mult_mod_value(1) assms by (simp_all add: multiprecision_sub_mod_def multiprecision_add_mod_def c d)
qed

lemma mod_op_wf [len_simps]:
  assumes "mp_wf a"
  shows "mp_wf (multiprecision_mersenns_squa_mod modp a)"
    and "mp_wf (multiprecision_lshift_mod modp a)"
proof -
  obtain e m where e: "multiprecision_lshift a = (e, m)" by fastforce
  then show "mp_wf (multiprecision_mersenns_squa_mod modp a)" "mp_wf (multiprecision_lshift_mod modp a)"
    using multiprecision_lshift_value(2,3) [OF e] assms
    by (simp_all add: multiprecision_lshift_mod_def multiprecision_mersenns_squa_mod_def mod_ops_wf)
qed

lemma init_wf [len_simps]: "mp_wf c \<Longrightarrow> mp_wf (multiprecision_init c)"
  by (simp add: multiprecision_init_def KEY_LENGTH_DWORDS_P256_def)

lemma ECC_Double_wf: "point_wf q \<Longrightarrow> point_wf p \<Longrightarrow> point_wf (ECC_Double modp q p)"
  by (simp add: ECC_Double_def Let_def len_simps)

lemma ECC_Add_wf: "point_wf r \<Longrightarrow> point_wf p \<Longrightarrow> point_wf q \<Longrightarrow> point_wf (fst (ECC_Add modp r p q))"
  by (simp add: ECC_Add_def Let_def len_simps ECC_Double_wf p_256_copy_point_def)

lemma copy_point_wf [simp]: "point_wf p \<Longrightarrow> point_wf (p_256_copy_point p)"
  by (simp add: p_256_copy_point_def)

lemma mult_loop_wf:
  assumes "point_wf p" "point_wf m" "point_wf q"
  shows "point_wf (mult_loop modp naf p m n q)"
  using assms(3)
proof (induction n arbitrary: q)
  case (Suc n)
  have "point_wf (ECC_Double modp q (p_256_copy_point q))"
    using Suc.prems by (intro ECC_Double_wf) (simp_all add: p_256_copy_point_def)
  then show ?case
    using assms(1,2) by (simp add: Let_def Suc.IH ECC_Add_wf p_256_copy_point_def)
qed simp

text \<open>
  C14: \<^verbatim>\<open>ECC_PointMult_Bin_NAF\<close> returns for every point and every scalar below
  \<open>2^256 - 1\<close>: all its loops end, the resulting coordinates are reduced, the input point keeps
  its coordinates with \<open>z = 1\<close>, and the scalar has been consumed.
\<close>

theorem ECC_PointMult_total:
  assumes "point_wf p" "mp_wf n" "mpval n < 2 ^ 256 - 1"
  shows "\<exists>q p' n'. ECC_PointMult_Bin_NAF modp p n = Some (q, p', n') \<and> point_wf q \<and>
    mpval (pt_x q) < p256 \<and> mpval (pt_y q) < p256 \<and> mpval (pt_z q) < p256 \<and>
    p' = p\<lparr>pt_z := word1 1\<rparr> \<and> mpval n' = 0"
proof -
  have one: "(replicate KEY_LENGTH_DWORDS_P256 0)[0 := 1] = word1 1"
    by (simp add: KEY_LENGTH_DWORDS_P256_def numeral_eq_Suc)
  have init: "(multiprecision_init (pt_z p))[0 := 1] = word1 1"
    using assms(1) by (simp add: multiprecision_init_def KEY_LENGTH_DWORDS_P256_def numeral_eq_Suc)
  let ?p = "p\<lparr>pt_z := word1 1\<rparr>"
  let ?m = "\<lparr>pt_x = multiprecision_copy (replicate KEY_LENGTH_DWORDS_P256 0) (pt_x p),
      pt_y = fst (multiprecision_sub modp (pt_y p)), pt_z = word1 1\<rparr>"
  have m: "point_wf ?m"
    using assms(1) by (simp add: multiprecision_copy_def KEY_LENGTH_DWORDS_P256_def)
  obtain naf k n' where naf: "ECC_NAF (replicate 65 0) n = Some (naf, k, n')" "mpval n' = 0"
    using naf_total [OF assms(2,3)] by blast
  define q where "q = mult_loop modp naf ?p ?m k p_256_init_point"
  have q: "point_wf q"
    unfolding q_def using assms(1) m by (intro mult_loop_wf) (simp_all add: p_256_init_point_def)
  obtain zi where zi: "multiprecision_inv_mod modp (pt_z q) = Some zi" "mp_wf zi"
    using inv_mod_value [of "pt_z q"] q by auto
  let ?z = "multiprecision_mersenns_squa_mod modp zi"
  let ?z3 = "multiprecision_mersenns_mult_mod modp ?z zi"
  have "ECC_PointMult_Bin_NAF modp p n =
      Some (\<lparr>pt_x = multiprecision_mersenns_mult_mod modp (pt_x q) ?z,
             pt_y = multiprecision_mersenns_mult_mod modp (pt_y q) ?z3, pt_z = ?z3\<rparr>, ?p, n')"
    using naf(1) zi(1) by (simp add: ECC_PointMult_Bin_NAF_def Let_def one init q_def)
  then show ?thesis
    using naf(2) zi(2) q by (auto simp: len_simps mult_mod_value(2))
qed

theorem ECC_PointMult_total_witness:
  "\<exists>q p' n'. ECC_PointMult_Bin_NAF modp (base_G curve_p256) (word1 5) = Some (q, p', n') \<and> point_wf q"
  using ECC_PointMult_total [of "base_G curve_p256" "word1 5"]
  by (auto simp: curve_p256_def p_256_init_curve_def zero_curve_def zero_Point_def)

section \<open>Validation of a public key\<close>

lemma residue_mult_wf:
  "mp_wf a \<Longrightarrow> mp_wf b \<Longrightarrow> mult_mod_exact a b \<Longrightarrow>
   residue (multiprecision_mersenns_mult_mod modp a b) (mpval a * mpval b)"
  using mult_mod_value [of a b] by (simp add: residue_def)

definition validate_exact :: "Point \<Rightarrow> bool" where
  "validate_exact pt \<longleftrightarrow> mult_mod_exact (pt_y pt) (pt_y pt) \<and> mult_mod_exact (pt_x pt) (pt_x pt) \<and>
     mult_mod_exact (multiprecision_sub_mod modp (multiprecision_mersenns_squa_mod modp (pt_x pt)) (word1 3)) (pt_x pt)"

lemma init_curve_eq:
  "prime_p (p_256_init_curve ec) = modp" "coeff_b (p_256_init_curve ec) = coeff_b curve_p256"
  by (simp_all add: p_256_init_curve_def curve_p256_def)

lemma curve_b_value:
  "mpval (coeff_b curve_p256) = 0x5ac635d8aa3a93e7b3ebbd55769886bc651d06b0cc53b0f63bce3c3e27d2604b"
  "mp_wf (coeff_b curve_p256)" "mpval (coeff_b curve_p256) < p256"
  by (simp_all add: p_256_init_curve_def curve_p256_def p256_def)

text \<open>
  C12: \<^verbatim>\<open>ECC_ValidatePoint\<close> accepts a point exactly when
  \<open>y^2 = x^3 - 3 x + b\<close> modulo the prime, provided the fast reduction is exact on the three
  products it forms; the previous contents of the curve parameters do not matter.
\<close>

theorem ECC_ValidatePoint_on_curve:
  assumes "mp_wf (pt_x pt)" "mp_wf (pt_y pt)" "validate_exact pt"
  shows "fst (ECC_ValidatePoint ec pt) \<longleftrightarrow>
    mpval (pt_y pt) ^ 2 mod p256 =
    (mpval (pt_x pt) ^ 3 - 3 * mpval (pt_x pt) + mpval (coeff_b curve_p256)) mod p256"
proof -
  let ?x = "mpval (pt_x pt)" and ?y = "mpval (pt_y pt)" and ?b = "mpval (coeff_b curve_p256)"
  let ?x2 = "multiprecision_mersenns_squa_mod modp (pt_x pt)"
  let ?d = "multiprecision_sub_mod modp ?x2 (word1 3)"
  let ?rhs = "multiprecision_add_mod modp (multiprecision_mersenns_mult_mod modp ?d (pt_x pt)) (coeff_b curve_p256)"
  have ex: "mult_mod_exact (pt_y pt) (pt_y pt)" "mult_mod_exact (pt_x pt) (pt_x pt)"
      "mult_mod_exact ?d (pt_x pt)"
    using assms(3) by (simp_all add: validate_exact_def)
  have y2: "residue (multiprecision_mersenns_squa_mod modp (pt_y pt)) (?y * ?y)"
    and x2: "residue ?x2 (?x * ?x)"
    using assms ex by (simp_all add: multiprecision_mersenns_squa_mod_def residue_mult_wf)
  have d: "residue ?d (?x * ?x - 3)"
    using residue_sub [OF x2 residue_word1 [of 3]] by simp
  have "residue (multiprecision_mersenns_mult_mod modp ?d (pt_x pt)) (mpval ?d * ?x)"
    using d assms(1) ex(3) by (intro residue_mult_wf) (simp_all add: residue_def)
  moreover have "(mpval ?d * ?x) mod p256 = ((?x * ?x - 3) * ?x) mod p256"
    using d by (simp add: residue_def mod_simps)
  ultimately have "residue (multiprecision_mersenns_mult_mod modp ?d (pt_x pt)) ((?x * ?x - 3) * ?x)"
    by (rule residue_cong)
  then have rhs: "residue ?rhs ((?x * ?x - 3) * ?x + ?b)"
    by (rule residue_add) (rule residue_self [OF curve_b_value(2,3)])
  have "fst (ECC_ValidatePoint ec pt) \<longleftrightarrow>
      multiprecision_compare ?rhs (multiprecision_mersenns_squa_mod modp (pt_y pt)) = 0"
    by (simp add: ECC_ValidatePoint_def Let_def init_curve_eq KEY_LENGTH_DWORDS_P256_def numeral_eq_Suc)
  also have "\<dots> \<longleftrightarrow> mpval ?rhs = mpval (multiprecision_mersenns_squa_mod modp (pt_y pt))"
    using mp.cmp_law [of ?rhs "multiprecision_mersenns_squa_mod modp (pt_y pt)"] rhs y2
    by (simp add: residue_def sgn_eq_0_iff)
  also have "\<dots> \<longleftrightarrow> (?y * ?y) mod p256 = ((?x * ?x - 3) * ?x + ?b) mod p256"
    using rhs y2 by (auto simp: residue_def)
  finally show ?thesis
    by (simp add: power2_eq_square power3_eq_cube algebra_simps)
qed

theorem ECC_ValidatePoint_on_curve_witness:
  "let pt = \<lparr>pt_x = word1 2, pt_y = word1 5, pt_z = word1 0\<rparr>
   in validate_exact pt \<and> \<not> fst (ECC_ValidatePoint zero_curve pt)"
proof -
  let ?pt = "\<lparr>pt_x = word1 2, pt_y = word1 5, pt_z = word1 0\<rparr>"
  have "validate_exact ?pt"
    by (simp add: validate_exact_def word1_eval)
  moreover have "(25 :: int) mod p256 \<noteq> (2 + mpval (coeff_b curve_p256)) mod p256"
    by (simp add: curve_b_value p256_def)
  ultimately show ?thesis
    using ECC_ValidatePoint_on_curve [of ?pt zero_curve] by simp
qed


text \<open>
  C28: the fast reduction is not exact on all reduced operands: there are two field
  elements whose \<^verbatim>\<open>multiprecision_mersenns_mult_mod\<close> is not their product modulo the prime.
  The step between two words turns a borrow into a carry when the word is smaller than the
  borrow.
\<close>

theorem mult_mod_wrong:
  "\<exists>a b. mp_wf a \<and> mp_wf b \<and> mpval a < p256 \<and> mpval b < p256 \<and>
     mpval (multiprecision_mersenns_mult_mod modp a b) \<noteq> (mpval a * mpval b) mod p256"
proof -
  let ?a = "[0, 0, 0, 0, 0, 1, 0, 0] :: u32 list" and ?b = "[0, 0, 0, 0, 0, 0, 1, 0] :: u32 list"
  let ?c = "[0, 0, 0, 0, 0, 0, 0, 0, 0, 0, 0, 1, 0, 0, 0, 0] :: u32 list"
  have p: "multiprecision_mult (replicate (2 * KEY_LENGTH_DWORDS_P256) 0) ?a ?b = ?c"
    by (rule multiprecision_mult_eqI) (simp_all add: KEY_LENGTH_DWORDS_P256_def)
  have "multiprecision_fast_mod_P256
      [0xFFFFFFFF, 0xFFFFFFFF, 0xFFFFFFFF, 0x0, 0x0, 0x0, 0x00000001, 0xFFFFFFFF] ?c =
      [4294967295, 4294967295, 2, 2, 0, 4294967295, 4294967295, 0]"
    by code_simp
  then have "multiprecision_mersenns_mult_mod modp ?a ?b =
      [4294967295, 4294967295, 2, 2, 0, 4294967295, 4294967295, 0]"
    unfolding multiprecision_mersenns_mult_mod_def p by (simp add: curve_p256_def p_256_init_curve_def)
  then have "mpval (multiprecision_mersenns_mult_mod modp ?a ?b) \<noteq> (mpval ?a * mpval ?b) mod p256"
    by (simp add: p256_def)
  moreover have "mpval ?a < p256" "mpval ?b < p256" by (simp_all add: p256_def)
  ultimately show ?thesis by (intro exI [of _ ?a] exI [of _ ?b]) simp
qed

end
