(* ===== verification/AES.thy ===== *)
theory AES
  imports Prelude
begin

text \<open>
  The AES implementation of \<open>gd/crypto_toolbox/aes.cc\<close> as it is compiled: with tables, with
  32-bit types and in its \<^verbatim>\<open>VERSION_1\<close>. A block is a list of bytes; the routines that
  write through a pointer return the new contents.
\<close>

unbundle bit_operations_syntax

section \<open>Finite field macros\<close>

text \<open>The macros compute in \<open>int\<close>; a store into a table or a byte truncates.\<close>

definition WPOLY :: u32 where
  "WPOLY = 0x011b"

definition DPOLY :: u32 where
  "DPOLY = 0x008d"

definition f1 :: "u32 \<Rightarrow> u32" where
  "f1 x = x"

definition f2 :: "u32 \<Rightarrow> u32" where
  "f2 x = push_bit 1 x XOR ((drop_bit 7 x AND 1) * WPOLY)"

definition f4 :: "u32 \<Rightarrow> u32" where
  "f4 x = push_bit 2 x XOR ((drop_bit 6 x AND 1) * WPOLY) XOR ((drop_bit 6 x AND 2) * WPOLY)"

definition f8 :: "u32 \<Rightarrow> u32" where
  "f8 x = push_bit 3 x XOR ((drop_bit 5 x AND 1) * WPOLY) XOR ((drop_bit 5 x AND 2) * WPOLY)
     XOR ((drop_bit 5 x AND 4) * WPOLY)"

definition d2 :: "u32 \<Rightarrow> u32" where
  "d2 x = drop_bit 1 x XOR (if x AND 1 \<noteq> 0 then DPOLY else 0)"

definition f3 :: "u32 \<Rightarrow> u32" where
  "f3 x = f2 x XOR x"

definition f9 :: "u32 \<Rightarrow> u32" where
  "f9 x = f8 x XOR x"

definition fb :: "u32 \<Rightarrow> u32" where
  "fb x = f8 x XOR f2 x XOR x"

definition fd :: "u32 \<Rightarrow> u32" where
  "fd x = f8 x XOR f4 x XOR x"

definition fe :: "u32 \<Rightarrow> u32" where
  "fe x = f8 x XOR f4 x XOR f2 x"

section \<open>Tables\<close>

definition byte_table :: "(u32 \<Rightarrow> u32) \<Rightarrow> u32 list \<Rightarrow> u8 list" where
  "byte_table w d = map (\<lambda>x. ucast (w x)) d"

definition sb_data :: "u32 list" where
  "sb_data = [
      0x63, 0x7c, 0x77, 0x7b, 0xf2, 0x6b, 0x6f, 0xc5, 0x30, 0x01, 0x67, 0x2b, 0xfe, 0xd7, 0xab, 0x76,
      0xca, 0x82, 0xc9, 0x7d, 0xfa, 0x59, 0x47, 0xf0, 0xad, 0xd4, 0xa2, 0xaf, 0x9c, 0xa4, 0x72, 0xc0,
      0xb7, 0xfd, 0x93, 0x26, 0x36, 0x3f, 0xf7, 0xcc, 0x34, 0xa5, 0xe5, 0xf1, 0x71, 0xd8, 0x31, 0x15,
      0x04, 0xc7, 0x23, 0xc3, 0x18, 0x96, 0x05, 0x9a, 0x07, 0x12, 0x80, 0xe2, 0xeb, 0x27, 0xb2, 0x75,
      0x09, 0x83, 0x2c, 0x1a, 0x1b, 0x6e, 0x5a, 0xa0, 0x52, 0x3b, 0xd6, 0xb3, 0x29, 0xe3, 0x2f, 0x84,
      0x53, 0xd1, 0x00, 0xed, 0x20, 0xfc, 0xb1, 0x5b, 0x6a, 0xcb, 0xbe, 0x39, 0x4a, 0x4c, 0x58, 0xcf,
      0xd0, 0xef, 0xaa, 0xfb, 0x43, 0x4d, 0x33, 0x85, 0x45, 0xf9, 0x02, 0x7f, 0x50, 0x3c, 0x9f, 0xa8,
      0x51, 0xa3, 0x40, 0x8f, 0x92, 0x9d, 0x38, 0xf5, 0xbc, 0xb6, 0xda, 0x21, 0x10, 0xff, 0xf3, 0xd2,
      0xcd, 0x0c, 0x13, 0xec, 0x5f, 0x97, 0x44, 0x17, 0xc4, 0xa7, 0x7e, 0x3d, 0x64, 0x5d, 0x19, 0x73,
      0x60, 0x81, 0x4f, 0xdc, 0x22, 0x2a, 0x90, 0x88, 0x46, 0xee, 0xb8, 0x14, 0xde, 0x5e, 0x0b, 0xdb,
      0xe0, 0x32, 0x3a, 0x0a, 0x49, 0x06, 0x24, 0x5c, 0xc2, 0xd3, 0xac, 0x62, 0x91, 0x95, 0xe4, 0x79,
      0xe7, 0xc8, 0x37, 0x6d, 0x8d, 0xd5, 0x4e, 0xa9, 0x6c, 0x56, 0xf4, 0xea, 0x65, 0x7a, 0xae, 0x08,
      0xba, 0x78, 0x25, 0x2e, 0x1c, 0xa6, 0xb4, 0xc6, 0xe8, 0xdd, 0x74, 0x1f, 0x4b, 0xbd, 0x8b, 0x8a,
      0x70, 0x3e, 0xb5, 0x66, 0x48, 0x03, 0xf6, 0x0e, 0x61, 0x35, 0x57, 0xb9, 0x86, 0xc1, 0x1d, 0x9e,
      0xe1, 0xf8, 0x98, 0x11, 0x69, 0xd9, 0x8e, 0x94, 0x9b, 0x1e, 0x87, 0xe9, 0xce, 0x55, 0x28, 0xdf,
      0x8c, 0xa1, 0x89, 0x0d, 0xbf, 0xe6, 0x42, 0x68, 0x41, 0x99, 0x2d, 0x0f, 0xb0, 0x54, 0xbb, 0x16]"

definition isb_data :: "u32 list" where
  "isb_data = [
      0x52, 0x09, 0x6a, 0xd5, 0x30, 0x36, 0xa5, 0x38, 0xbf, 0x40, 0xa3, 0x9e, 0x81, 0xf3, 0xd7, 0xfb,
      0x7c, 0xe3, 0x39, 0x82, 0x9b, 0x2f, 0xff, 0x87, 0x34, 0x8e, 0x43, 0x44, 0xc4, 0xde, 0xe9, 0xcb,
      0x54, 0x7b, 0x94, 0x32, 0xa6, 0xc2, 0x23, 0x3d, 0xee, 0x4c, 0x95, 0x0b, 0x42, 0xfa, 0xc3, 0x4e,
      0x08, 0x2e, 0xa1, 0x66, 0x28, 0xd9, 0x24, 0xb2, 0x76, 0x5b, 0xa2, 0x49, 0x6d, 0x8b, 0xd1, 0x25,
      0x72, 0xf8, 0xf6, 0x64, 0x86, 0x68, 0x98, 0x16, 0xd4, 0xa4, 0x5c, 0xcc, 0x5d, 0x65, 0xb6, 0x92,
      0x6c, 0x70, 0x48, 0x50, 0xfd, 0xed, 0xb9, 0xda, 0x5e, 0x15, 0x46, 0x57, 0xa7, 0x8d, 0x9d, 0x84,
      0x90, 0xd8, 0xab, 0x00, 0x8c, 0xbc, 0xd3, 0x0a, 0xf7, 0xe4, 0x58, 0x05, 0xb8, 0xb3, 0x45, 0x06,
      0xd0, 0x2c, 0x1e, 0x8f, 0xca, 0x3f, 0x0f, 0x02, 0xc1, 0xaf, 0xbd, 0x03, 0x01, 0x13, 0x8a, 0x6b,
      0x3a, 0x91, 0x11, 0x41, 0x4f, 0x67, 0xdc, 0xea, 0x97, 0xf2, 0xcf, 0xce, 0xf0, 0xb4, 0xe6, 0x73,
      0x96, 0xac, 0x74, 0x22, 0xe7, 0xad, 0x35, 0x85, 0xe2, 0xf9, 0x37, 0xe8, 0x1c, 0x75, 0xdf, 0x6e,
      0x47, 0xf1, 0x1a, 0x71, 0x1d, 0x29, 0xc5, 0x89, 0x6f, 0xb7, 0x62, 0x0e, 0xaa, 0x18, 0xbe, 0x1b,
      0xfc, 0x56, 0x3e, 0x4b, 0xc6, 0xd2, 0x79, 0x20, 0x9a, 0xdb, 0xc0, 0xfe, 0x78, 0xcd, 0x5a, 0xf4,
      0x1f, 0xdd, 0xa8, 0x33, 0x88, 0x07, 0xc7, 0x31, 0xb1, 0x12, 0x10, 0x59, 0x27, 0x80, 0xec, 0x5f,
      0x60, 0x51, 0x7f, 0xa9, 0x19, 0xb5, 0x4a, 0x0d, 0x2d, 0xe5, 0x7a, 0x9f, 0x93, 0xc9, 0x9c, 0xef,
      0xa0, 0xe0, 0x3b, 0x4d, 0xae, 0x2a, 0xf5, 0xb0, 0xc8, 0xeb, 0xbb, 0x3c, 0x83, 0x53, 0x99, 0x61,
      0x17, 0x2b, 0x04, 0x7e, 0xba, 0x77, 0xd6, 0x26, 0xe1, 0x69, 0x14, 0x63, 0x55, 0x21, 0x0c, 0x7d]"

definition mm_data :: "u32 list" where
  "mm_data = [
      0x00, 0x01, 0x02, 0x03, 0x04, 0x05, 0x06, 0x07, 0x08, 0x09, 0x0a, 0x0b, 0x0c, 0x0d, 0x0e, 0x0f,
      0x10, 0x11, 0x12, 0x13, 0x14, 0x15, 0x16, 0x17, 0x18, 0x19, 0x1a, 0x1b, 0x1c, 0x1d, 0x1e, 0x1f,
      0x20, 0x21, 0x22, 0x23, 0x24, 0x25, 0x26, 0x27, 0x28, 0x29, 0x2a, 0x2b, 0x2c, 0x2d, 0x2e, 0x2f,
      0x30, 0x31, 0x32, 0x33, 0x34, 0x35, 0x36, 0x37, 0x38, 0x39, 0x3a, 0x3b, 0x3c, 0x3d, 0x3e, 0x3f,
      0x40, 0x41, 0x42, 0x43, 0x44, 0x45, 0x46, 0x47, 0x48, 0x49, 0x4a, 0x4b, 0x4c, 0x4d, 0x4e, 0x4f,
      0x50, 0x51, 0x52, 0x53, 0x54, 0x55, 0x56, 0x57, 0x58, 0x59, 0x5a, 0x5b, 0x5c, 0x5d, 0x5e, 0x5f,
      0x60, 0x61, 0x62, 0x63, 0x64, 0x65, 0x66, 0x67, 0x68, 0x69, 0x6a, 0x6b, 0x6c, 0x6d, 0x6e, 0x6f,
      0x70, 0x71, 0x72, 0x73, 0x74, 0x75, 0x76, 0x77, 0x78, 0x79, 0x7a, 0x7b, 0x7c, 0x7d, 0x7e, 0x7f,
      0x80, 0x81, 0x82, 0x83, 0x84, 0x85, 0x86, 0x87, 0x88, 0x89, 0x8a, 0x8b, 0x8c, 0x8d, 0x8e, 0x8f,
      0x90, 0x91, 0x92, 0x93, 0x94, 0x95, 0x96, 0x97, 0x98, 0x99, 0x9a, 0x9b, 0x9c, 0x9d, 0x9e, 0x9f,
      0xa0, 0xa1, 0xa2, 0xa3, 0xa4, 0xa5, 0xa6, 0xa7, 0xa8, 0xa9, 0xaa, 0xab, 0xac, 0xad, 0xae, 0xaf,
      0xb0, 0xb1, 0xb2, 0xb3, 0xb4, 0xb5, 0xb6, 0xb7, 0xb8, 0xb9, 0xba, 0xbb, 0xbc, 0xbd, 0xbe, 0xbf,
      0xc0, 0xc1, 0xc2, 0xc3, 0xc4, 0xc5, 0xc6, 0xc7, 0xc8, 0xc9, 0xca, 0xcb, 0xcc, 0xcd, 0xce, 0xcf,
      0xd0, 0xd1, 0xd2, 0xd3, 0xd4, 0xd5, 0xd6, 0xd7, 0xd8, 0xd9, 0xda, 0xdb, 0xdc, 0xdd, 0xde, 0xdf,
      0xe0, 0xe1, 0xe2, 0xe3, 0xe4, 0xe5, 0xe6, 0xe7, 0xe8, 0xe9, 0xea, 0xeb, 0xec, 0xed, 0xee, 0xef,
      0xf0, 0xf1, 0xf2, 0xf3, 0xf4, 0xf5, 0xf6, 0xf7, 0xf8, 0xf9, 0xfa, 0xfb, 0xfc, 0xfd, 0xfe, 0xff]"

definition sbox :: "u8 list" where
  "sbox = byte_table f1 sb_data"

definition isbox :: "u8 list" where
  "isbox = byte_table f1 isb_data"

definition gfm2_sbox :: "u8 list" where
  "gfm2_sbox = byte_table f2 sb_data"

definition gfm3_sbox :: "u8 list" where
  "gfm3_sbox = byte_table f3 sb_data"

definition gfmul_9 :: "u8 list" where
  "gfmul_9 = byte_table f9 mm_data"

definition gfmul_b :: "u8 list" where
  "gfmul_b = byte_table fb mm_data"

definition gfmul_d :: "u8 list" where
  "gfmul_d = byte_table fd mm_data"

definition gfmul_e :: "u8 list" where
  "gfmul_e = byte_table fe mm_data"

definition s_box :: "u8 \<Rightarrow> u8" where
  "s_box x = sbox ! unat x"

definition is_box :: "u8 \<Rightarrow> u8" where
  "is_box x = isbox ! unat x"

definition gfm2_sb :: "u8 \<Rightarrow> u8" where
  "gfm2_sb x = gfm2_sbox ! unat x"

definition gfm3_sb :: "u8 \<Rightarrow> u8" where
  "gfm3_sb x = gfm3_sbox ! unat x"

definition gfm_9 :: "u8 \<Rightarrow> u8" where
  "gfm_9 x = gfmul_9 ! unat x"

definition gfm_b :: "u8 \<Rightarrow> u8" where
  "gfm_b x = gfmul_b ! unat x"

definition gfm_d :: "u8 \<Rightarrow> u8" where
  "gfm_d x = gfmul_d ! unat x"

definition gfm_e :: "u8 \<Rightarrow> u8" where
  "gfm_e x = gfmul_e ! unat x"

section \<open>Blocks\<close>

definition N_BLOCK :: nat where
  "N_BLOCK = 4 * 4"

definition copy_block :: "u8 list \<Rightarrow> u8 list" where
  "copy_block s = take N_BLOCK s"

definition xor_block :: "u8 list \<Rightarrow> u8 list \<Rightarrow> u8 list" where
  "xor_block d s = map2 (XOR) (take N_BLOCK d) (take N_BLOCK s)"

definition copy_and_key :: "u8 list \<Rightarrow> u8 list \<Rightarrow> u8 list" where
  "copy_and_key s k = map2 (XOR) (take N_BLOCK s) (take N_BLOCK k)"

definition add_round_key :: "u8 list \<Rightarrow> u8 list \<Rightarrow> u8 list" where
  "add_round_key d k = xor_block d k"

definition shift_sub_rows :: "u8 list \<Rightarrow> u8 list" where
  "shift_sub_rows st =
     (let st = st[0 := s_box (st ! 0)];
          st = st[4 := s_box (st ! 4)];
          st = st[8 := s_box (st ! 8)];
          st = st[12 := s_box (st ! 12)];
          tt = st ! 1;
          st = st[1 := s_box (st ! 5)];
          st = st[5 := s_box (st ! 9)];
          st = st[9 := s_box (st ! 13)];
          st = st[13 := s_box tt];
          tt = st ! 2;
          st = st[2 := s_box (st ! 10)];
          st = st[10 := s_box tt];
          tt = st ! 6;
          st = st[6 := s_box (st ! 14)];
          st = st[14 := s_box tt];
          tt = st ! 15;
          st = st[15 := s_box (st ! 11)];
          st = st[11 := s_box (st ! 7)];
          st = st[7 := s_box (st ! 3)];
          st = st[3 := s_box tt]
      in st)"

definition inv_shift_sub_rows :: "u8 list \<Rightarrow> u8 list" where
  "inv_shift_sub_rows st =
     (let st = st[0 := is_box (st ! 0)];
          st = st[4 := is_box (st ! 4)];
          st = st[8 := is_box (st ! 8)];
          st = st[12 := is_box (st ! 12)];
          tt = st ! 13;
          st = st[13 := is_box (st ! 9)];
          st = st[9 := is_box (st ! 5)];
          st = st[5 := is_box (st ! 1)];
          st = st[1 := is_box tt];
          tt = st ! 2;
          st = st[2 := is_box (st ! 10)];
          st = st[10 := is_box tt];
          tt = st ! 6;
          st = st[6 := is_box (st ! 14)];
          st = st[14 := is_box tt];
          tt = st ! 3;
          st = st[3 := is_box (st ! 7)];
          st = st[7 := is_box (st ! 11)];
          st = st[11 := is_box (st ! 15)];
          st = st[15 := is_box tt]
      in st)"

text \<open>Every byte of the result is written once, from the copy \<open>st\<close>.\<close>

definition mix_sub_columns :: "u8 list \<Rightarrow> u8 list" where
  "mix_sub_columns dt = (let st = copy_block dt in
     [gfm2_sb (st ! 0) XOR gfm3_sb (st ! 5) XOR s_box (st ! 10) XOR s_box (st ! 15),
      s_box (st ! 0) XOR gfm2_sb (st ! 5) XOR gfm3_sb (st ! 10) XOR s_box (st ! 15),
      s_box (st ! 0) XOR s_box (st ! 5) XOR gfm2_sb (st ! 10) XOR gfm3_sb (st ! 15),
      gfm3_sb (st ! 0) XOR s_box (st ! 5) XOR s_box (st ! 10) XOR gfm2_sb (st ! 15),
      gfm2_sb (st ! 4) XOR gfm3_sb (st ! 9) XOR s_box (st ! 14) XOR s_box (st ! 3),
      s_box (st ! 4) XOR gfm2_sb (st ! 9) XOR gfm3_sb (st ! 14) XOR s_box (st ! 3),
      s_box (st ! 4) XOR s_box (st ! 9) XOR gfm2_sb (st ! 14) XOR gfm3_sb (st ! 3),
      gfm3_sb (st ! 4) XOR s_box (st ! 9) XOR s_box (st ! 14) XOR gfm2_sb (st ! 3),
      gfm2_sb (st ! 8) XOR gfm3_sb (st ! 13) XOR s_box (st ! 2) XOR s_box (st ! 7),
      s_box (st ! 8) XOR gfm2_sb (st ! 13) XOR gfm3_sb (st ! 2) XOR s_box (st ! 7),
      s_box (st ! 8) XOR s_box (st ! 13) XOR gfm2_sb (st ! 2) XOR gfm3_sb (st ! 7),
      gfm3_sb (st ! 8) XOR s_box (st ! 13) XOR s_box (st ! 2) XOR gfm2_sb (st ! 7),
      gfm2_sb (st ! 12) XOR gfm3_sb (st ! 1) XOR s_box (st ! 6) XOR s_box (st ! 11),
      s_box (st ! 12) XOR gfm2_sb (st ! 1) XOR gfm3_sb (st ! 6) XOR s_box (st ! 11),
      s_box (st ! 12) XOR s_box (st ! 1) XOR gfm2_sb (st ! 6) XOR gfm3_sb (st ! 11),
      gfm3_sb (st ! 12) XOR s_box (st ! 1) XOR s_box (st ! 6) XOR gfm2_sb (st ! 11)])"

definition inv_mix_sub_columns :: "u8 list \<Rightarrow> u8 list" where
  "inv_mix_sub_columns dt = (let st = copy_block dt in
     [is_box (gfm_e (st ! 0) XOR gfm_b (st ! 1) XOR gfm_d (st ! 2) XOR gfm_9 (st ! 3)),
      is_box (gfm_9 (st ! 12) XOR gfm_e (st ! 13) XOR gfm_b (st ! 14) XOR gfm_d (st ! 15)),
      is_box (gfm_d (st ! 8) XOR gfm_9 (st ! 9) XOR gfm_e (st ! 10) XOR gfm_b (st ! 11)),
      is_box (gfm_b (st ! 4) XOR gfm_d (st ! 5) XOR gfm_9 (st ! 6) XOR gfm_e (st ! 7)),
      is_box (gfm_e (st ! 4) XOR gfm_b (st ! 5) XOR gfm_d (st ! 6) XOR gfm_9 (st ! 7)),
      is_box (gfm_9 (st ! 0) XOR gfm_e (st ! 1) XOR gfm_b (st ! 2) XOR gfm_d (st ! 3)),
      is_box (gfm_d (st ! 12) XOR gfm_9 (st ! 13) XOR gfm_e (st ! 14) XOR gfm_b (st ! 15)),
      is_box (gfm_b (st ! 8) XOR gfm_d (st ! 9) XOR gfm_9 (st ! 10) XOR gfm_e (st ! 11)),
      is_box (gfm_e (st ! 8) XOR gfm_b (st ! 9) XOR gfm_d (st ! 10) XOR gfm_9 (st ! 11)),
      is_box (gfm_9 (st ! 4) XOR gfm_e (st ! 5) XOR gfm_b (st ! 6) XOR gfm_d (st ! 7)),
      is_box (gfm_d (st ! 0) XOR gfm_9 (st ! 1) XOR gfm_e (st ! 2) XOR gfm_b (st ! 3)),
      is_box (gfm_b (st ! 12) XOR gfm_d (st ! 13) XOR gfm_9 (st ! 14) XOR gfm_e (st ! 15)),
      is_box (gfm_e (st ! 12) XOR gfm_b (st ! 13) XOR gfm_d (st ! 14) XOR gfm_9 (st ! 15)),
      is_box (gfm_9 (st ! 8) XOR gfm_e (st ! 9) XOR gfm_b (st ! 10) XOR gfm_d (st ! 11)),
      is_box (gfm_d (st ! 4) XOR gfm_9 (st ! 5) XOR gfm_e (st ! 6) XOR gfm_b (st ! 7)),
      is_box (gfm_b (st ! 0) XOR gfm_d (st ! 1) XOR gfm_9 (st ! 2) XOR gfm_e (st ! 3))])"

section \<open>Key schedule\<close>

record aes_context =
  ksch :: "u8 list"
  rnd :: u8

definition f2_byte :: "u8 \<Rightarrow> u8" where
  "f2_byte rc = ucast (f2 (ucast rc))"

definition d2_byte :: "u8 \<Rightarrow> u8" where
  "d2_byte rc = ucast (d2 (ucast rc))"

text \<open>One pass of the loop of \<open>aes_set_key\<close>: four bytes of the schedule and the round constant.\<close>

definition set_key_step :: "nat \<Rightarrow> nat \<Rightarrow> u8 list \<times> u8 \<Rightarrow> u8 list \<times> u8" where
  "set_key_step keylen cc = (\<lambda>(ks, rc).
     (let t0 = ks ! (cc - 4); t1 = ks ! (cc - 3); t2 = ks ! (cc - 2); t3 = ks ! (cc - 1);
          (t0, t1, t2, t3, rc) =
            (if cc mod keylen = 0
             then (s_box t1 XOR rc, s_box t2, s_box t3, s_box t0, f2_byte rc)
             else if 24 < keylen \<and> cc mod keylen = 16
             then (s_box t0, s_box t1, s_box t2, s_box t3, rc)
             else (t0, t1, t2, t3, rc));
          tt = cc - keylen;
          ks = ks[cc + 0 := ks ! (tt + 0) XOR t0];
          ks = ks[cc + 1 := ks ! (tt + 1) XOR t1];
          ks = ks[cc + 2 := ks ! (tt + 2) XOR t2];
          ks = ks[cc + 3 := ks ! (tt + 3) XOR t3]
      in (ks, rc)))"

function set_key_loop :: "nat \<Rightarrow> nat \<Rightarrow> nat \<Rightarrow> u8 list \<times> u8 \<Rightarrow> u8 list \<times> u8" where
  "set_key_loop keylen hi cc s =
     (if cc < hi then set_key_loop keylen hi (cc + 4) (set_key_step keylen cc s) else s)"
  by auto
termination
  by (relation "measure (\<lambda>(keylen, hi, cc, s). hi - cc)") auto

declare set_key_loop.simps [simp del]

definition aes_set_key :: "u8 list \<Rightarrow> u8 \<Rightarrow> aes_context \<Rightarrow> u8 \<times> aes_context" where
  "aes_set_key key keylen ctx =
     (let len = (if keylen = 16 \<or> keylen = 128 then Some 16
                 else if keylen = 24 \<or> keylen = 192 then Some 24
                 else if keylen = 32 then Some 32
                 else None)
      in case len of
           None \<Rightarrow> (- 1, ctx\<lparr>rnd := 0\<rparr>)
         | Some keylen \<Rightarrow>
             let ks = take keylen key @ drop keylen (ksch ctx);
                 hi = push_bit 2 (keylen + 28);
                 (ks, rc) = set_key_loop keylen hi keylen (ks, 1)
             in (0, ctx\<lparr>ksch := ks, rnd := of_nat (drop_bit 4 hi - 1)\<rparr>))"

section \<open>Encryption and decryption with a key schedule\<close>

definition round_key :: "aes_context \<Rightarrow> nat \<Rightarrow> u8 list" where
  "round_key ctx r = drop (r * N_BLOCK) (ksch ctx)"

definition aes_encrypt :: "u8 list \<Rightarrow> u8 list \<Rightarrow> aes_context \<Rightarrow> u8 \<times> u8 list" where
  "aes_encrypt inb out ctx =
     (if rnd ctx \<noteq> 0
      then let s1 = copy_and_key inb (ksch ctx);
               s1 = foldl (\<lambda>s1 r. add_round_key (mix_sub_columns s1) (round_key ctx r)) s1
                      [1..<unat (rnd ctx)];
               s1 = shift_sub_rows s1
           in (0, copy_and_key s1 (round_key ctx (unat (rnd ctx))))
      else (- 1, out))"

definition aes_decrypt :: "u8 list \<Rightarrow> u8 list \<Rightarrow> aes_context \<Rightarrow> u8 \<times> u8 list" where
  "aes_decrypt inb out ctx =
     (if rnd ctx \<noteq> 0
      then let s1 = copy_and_key inb (round_key ctx (unat (rnd ctx)));
               s1 = inv_shift_sub_rows s1;
               s1 = foldl (\<lambda>s1 r. inv_mix_sub_columns (add_round_key s1 (round_key ctx r))) s1
                      (rev [1..<unat (rnd ctx)])
           in (0, copy_and_key s1 (ksch ctx))
      else (- 1, out))"

text \<open>The results are the return value, the blocks written to \<open>out\<close> and the new \<open>iv\<close>.\<close>

fun aes_cbc_encrypt :: "u8 list \<Rightarrow> nat \<Rightarrow> u8 list \<Rightarrow> aes_context \<Rightarrow> u8 \<times> u8 list \<times> u8 list" where
  "aes_cbc_encrypt inb 0 iv ctx = (0, [], iv)"
| "aes_cbc_encrypt inb (Suc n_block) iv ctx =
     (let iv = xor_block iv inb;
          (res, iv) = aes_encrypt iv iv ctx
      in if res \<noteq> 0 then (1, [], iv)
         else let (ret, out, iv') = aes_cbc_encrypt (drop N_BLOCK inb) n_block iv ctx
              in (ret, take N_BLOCK iv @ out, iv'))"

fun aes_cbc_decrypt :: "u8 list \<Rightarrow> nat \<Rightarrow> u8 list \<Rightarrow> aes_context \<Rightarrow> u8 \<times> u8 list \<times> u8 list" where
  "aes_cbc_decrypt inb 0 iv ctx = (0, [], iv)"
| "aes_cbc_decrypt inb (Suc n_block) iv ctx =
     (let tmp = take N_BLOCK inb;
          (res, out) = aes_decrypt inb [] ctx
      in if res \<noteq> 0 then (1, out, iv)
         else let out = xor_block out iv;
                  (ret, out', iv') = aes_cbc_decrypt (drop N_BLOCK inb) n_block tmp ctx
              in (ret, out @ out', iv'))"

section \<open>On-the-fly keys\<close>

text \<open>
  Four assignments \<open>k[i + n] ^= x_n\<close>. In every use the bytes \<open>x_n\<close> are computed from bytes of
  \<open>k\<close> outside the four that are written.
\<close>

definition xor_word :: "nat \<Rightarrow> u8 \<Rightarrow> u8 \<Rightarrow> u8 \<Rightarrow> u8 \<Rightarrow> u8 list \<Rightarrow> u8 list" where
  "xor_word i a b c d k =
     k[i := k ! i XOR a, i + 1 := k ! (i + 1) XOR b, i + 2 := k ! (i + 2) XOR c, i + 3 := k ! (i + 3) XOR d]"

definition chain_word :: "u8 list \<Rightarrow> nat \<Rightarrow> u8 list" where
  "chain_word k cc = xor_word cc (k ! (cc - 4)) (k ! (cc - 3)) (k ! (cc - 2)) (k ! (cc - 1)) k"

definition update_encrypt_key_128 :: "u8 list \<times> u8 \<Rightarrow> u8 list \<times> u8" where
  "update_encrypt_key_128 = (\<lambda>(k, rc).
     (let k = xor_word 0 (s_box (k ! 13) XOR rc) (s_box (k ! 14)) (s_box (k ! 15)) (s_box (k ! 12)) k;
          rc = f2_byte rc
      in (foldl chain_word k [4, 8, 12], rc)))"

text \<open>One pass of the round loop: the state, the key and the round constant.\<close>

definition encrypt_128_round :: "u8 list \<times> u8 list \<times> u8 \<Rightarrow> nat \<Rightarrow> u8 list \<times> u8 list \<times> u8" where
  "encrypt_128_round = (\<lambda>(s1, o_key, rc) r.
     let s1 = mix_sub_columns s1;
         (o_key, rc) = update_encrypt_key_128 (o_key, rc)
     in (add_round_key s1 o_key, o_key, rc))"

definition aes_encrypt_128 :: "u8 list \<Rightarrow> u8 list \<Rightarrow> u8 list \<times> u8 list" where
  "aes_encrypt_128 inb key =
     (let o_key = copy_block key;
          s1 = copy_and_key inb o_key;
          (s1, o_key, rc) = foldl encrypt_128_round (s1, o_key, 1) [1..<10];
          s1 = shift_sub_rows s1;
          (o_key, rc) = update_encrypt_key_128 (o_key, rc)
      in (copy_and_key s1 o_key, o_key))"

definition update_decrypt_key_128 :: "u8 list \<times> u8 \<Rightarrow> u8 list \<times> u8" where
  "update_decrypt_key_128 = (\<lambda>(k, rc).
     (let k = foldl chain_word k [12, 8, 4];
          rc = d2_byte rc;
          k = xor_word 0 (s_box (k ! 13) XOR rc) (s_box (k ! 14)) (s_box (k ! 15)) (s_box (k ! 12)) k
      in (k, rc)))"

definition decrypt_128_round :: "u8 list \<times> u8 list \<times> u8 \<Rightarrow> nat \<Rightarrow> u8 list \<times> u8 list \<times> u8" where
  "decrypt_128_round = (\<lambda>(s1, o_key, rc) r.
     let (o_key, rc) = update_decrypt_key_128 (o_key, rc);
         s1 = add_round_key s1 o_key
     in (inv_mix_sub_columns s1, o_key, rc))"

definition aes_decrypt_128 :: "u8 list \<Rightarrow> u8 list \<Rightarrow> u8 list \<times> u8 list" where
  "aes_decrypt_128 inb key =
     (let o_key = copy_block key;
          s1 = copy_and_key inb o_key;
          s1 = inv_shift_sub_rows s1;
          (s1, o_key, rc) = foldl decrypt_128_round (s1, o_key, 0x6c) (rev [1..<10]);
          (o_key, rc) = update_decrypt_key_128 (o_key, rc)
      in (copy_and_key s1 o_key, o_key))"

definition update_encrypt_key_256 :: "u8 list \<times> u8 \<Rightarrow> u8 list \<times> u8" where
  "update_encrypt_key_256 = (\<lambda>(k, rc).
     (let k = xor_word 0 (s_box (k ! 29) XOR rc) (s_box (k ! 30)) (s_box (k ! 31)) (s_box (k ! 28)) k;
          rc = f2_byte rc;
          k = foldl chain_word k [4, 8, 12];
          k = xor_word 16 (s_box (k ! 12)) (s_box (k ! 13)) (s_box (k ! 14)) (s_box (k ! 15)) k
      in (foldl chain_word k [20, 24, 28], rc)))"

definition encrypt_256_round :: "u8 list \<times> u8 list \<times> u8 \<Rightarrow> nat \<Rightarrow> u8 list \<times> u8 list \<times> u8" where
  "encrypt_256_round = (\<lambda>(s1, o_key, rc) r.
     let s1 = mix_sub_columns s1
     in if odd r then (add_round_key s1 (drop 16 o_key), o_key, rc)
        else let (o_key, rc) = update_encrypt_key_256 (o_key, rc)
             in (add_round_key s1 o_key, o_key, rc))"

definition aes_encrypt_256 :: "u8 list \<Rightarrow> u8 list \<Rightarrow> u8 list \<times> u8 list" where
  "aes_encrypt_256 inb key =
     (let o_key = copy_block key @ copy_block (drop 16 key);
          s1 = copy_and_key inb o_key;
          (s1, o_key, rc) = foldl encrypt_256_round (s1, o_key, 1) [1..<14];
          s1 = shift_sub_rows s1;
          (o_key, rc) = update_encrypt_key_256 (o_key, rc)
      in (copy_and_key s1 o_key, o_key))"

definition update_decrypt_key_256 :: "u8 list \<times> u8 \<Rightarrow> u8 list \<times> u8" where
  "update_decrypt_key_256 = (\<lambda>(k, rc).
     (let k = foldl chain_word k [28, 24, 20];
          k = xor_word 16 (s_box (k ! 12)) (s_box (k ! 13)) (s_box (k ! 14)) (s_box (k ! 15)) k;
          k = foldl chain_word k [12, 8, 4];
          rc = d2_byte rc;
          k = xor_word 0 (s_box (k ! 29) XOR rc) (s_box (k ! 30)) (s_box (k ! 31)) (s_box (k ! 28)) k
      in (k, rc)))"

definition decrypt_256_round :: "u8 list \<times> u8 list \<times> u8 \<Rightarrow> nat \<Rightarrow> u8 list \<times> u8 list \<times> u8" where
  "decrypt_256_round = (\<lambda>(s1, o_key, rc) r.
     let (s1, o_key, rc) =
           (if odd r
            then let (o_key, rc) = update_decrypt_key_256 (o_key, rc)
                 in (add_round_key s1 (drop 16 o_key), o_key, rc)
            else (add_round_key s1 o_key, o_key, rc))
     in (inv_mix_sub_columns s1, o_key, rc))"

definition aes_decrypt_256 :: "u8 list \<Rightarrow> u8 list \<Rightarrow> u8 list \<times> u8 list" where
  "aes_decrypt_256 inb key =
     (let o_key = copy_block key @ copy_block (drop 16 key);
          s1 = copy_and_key inb o_key;
          s1 = inv_shift_sub_rows s1;
          (s1, o_key, rc) = foldl decrypt_256_round (s1, o_key, 0x80) (rev [1..<14])
      in (copy_and_key s1 o_key, o_key))"

end
