(* ===== verification/Crypto_Toolbox.thy ===== *)
theory Crypto_Toolbox
  imports AES
begin

text \<open>
  The message authentication code of \<open>gd/crypto_toolbox/aes_cmac.cc\<close> and the key derivation
  functions of \<open>gd/crypto_toolbox/crypto_toolbox.cc\<close>. All byte arrays are in little-endian
  order, as the code has them.
\<close>

unbundle bit_operations_syntax

section \<open>AES-128 and CMAC\<close>

definition kOctet16Length :: nat where
  "kOctet16Length = 16"

record tCMAC_CB =
  cmac_text :: "u8 list"
  cmac_len :: nat
  cmac_rounds :: nat

definition const_Rb :: "u8 list" where
  "const_Rb = [0x87, 0x00, 0x00, 0x00, 0x00, 0x00, 0x00, 0x00,
               0x00, 0x00, 0x00, 0x00, 0x00, 0x00, 0x00, 0x00]"

definition xor_128 :: "u8 list \<Rightarrow> u8 list \<Rightarrow> u8 list" where
  "xor_128 a b = map2 (XOR) a b"

text \<open>
  The key schedule on the stack is not initialised; what it holds does not matter, since
  \<open>aes_set_key\<close> writes all of it that is read.
\<close>

definition stack_ctx :: aes_context where
  "stack_ctx = \<lparr>ksch = replicate 240 0, rnd = 0\<rparr>"

definition aes_128 :: "u8 list \<Rightarrow> u8 list \<Rightarrow> u8 list" where
  "aes_128 key message =
     (let key_reversed = rev key;
          message_reversed = rev message;
          ctx = snd (aes_set_key key_reversed (of_nat (length key_reversed)) stack_ctx);
          output = snd (aes_encrypt message_reversed (replicate kOctet16Length 0) ctx)
      in rev output)"

definition padding :: "u8 list \<Rightarrow> nat \<Rightarrow> u8 list" where
  "padding dest length_n =
     foldl (\<lambda>p i. p[kOctet16Length - i - 1 := if i = length_n then 0x80 else 0]) dest
       [length_n..<kOctet16Length]"

fun leftshift_loop :: "u8 \<Rightarrow> u8 list \<Rightarrow> u8 list" where
  "leftshift_loop overflow [] = []"
| "leftshift_loop overflow (b # bs) =
     (push_bit 1 b OR overflow) # leftshift_loop (if b AND 0x80 \<noteq> 0 then 1 else 0) bs"

definition leftshift_onebit :: "u8 list \<Rightarrow> u8 list" where
  "leftshift_onebit input = leftshift_loop 0 (take kOctet16Length input)"

text \<open>Blocks of the text buffer: \<open>*(Octet16*)&text[off]\<close> and its exclusive or in place.\<close>

definition text_block :: "u8 list \<Rightarrow> nat \<Rightarrow> u8 list" where
  "text_block txt off = take kOctet16Length (drop off txt)"

definition put_block :: "u8 list \<Rightarrow> nat \<Rightarrow> u8 list \<Rightarrow> u8 list" where
  "put_block txt off blk = take off txt @ blk @ drop (off + kOctet16Length) txt"

definition cmac_round :: "u8 list \<Rightarrow> nat \<Rightarrow> u8 list \<times> u8 list \<Rightarrow> nat \<Rightarrow> u8 list \<times> u8 list" where
  "cmac_round key n = (\<lambda>(txt, x) i.
     (let off = (n - i) * kOctet16Length;
          txt = put_block txt off (xor_128 (text_block txt off) x);
          output = aes_128 key (text_block txt off)
      in (txt, output)))"

definition cmac_aes_k_calculate :: "tCMAC_CB \<Rightarrow> u8 list \<Rightarrow> u8 list" where
  "cmac_aes_k_calculate cb key =
     snd (foldl (cmac_round key (cmac_rounds cb)) (cmac_text cb, replicate kOctet16Length 0) [1..<cmac_rounds cb + 1])"

definition cmac_prepare_last_block :: "tCMAC_CB \<Rightarrow> u8 list \<Rightarrow> u8 list \<Rightarrow> tCMAC_CB" where
  "cmac_prepare_last_block cb k1 k2 =
     (let flag = (cmac_len cb mod kOctet16Length = 0 \<and> cmac_len cb \<noteq> 0)
      in if flag
         then cb\<lparr>cmac_text := put_block (cmac_text cb) 0 (xor_128 (text_block (cmac_text cb) 0) k1)\<rparr>
         else let cb = cb\<lparr>cmac_text := put_block (cmac_text cb) 0 (padding (text_block (cmac_text cb) 0) (cmac_len cb mod 16))\<rparr>
              in cb\<lparr>cmac_text := put_block (cmac_text cb) 0 (xor_128 (text_block (cmac_text cb) 0) k2)\<rparr>)"

definition cmac_generate_subkey :: "tCMAC_CB \<Rightarrow> u8 list \<Rightarrow> tCMAC_CB" where
  "cmac_generate_subkey cb key =
     (let zero = replicate kOctet16Length 0;
          p = aes_128 key zero;
          k1 = (if p ! (kOctet16Length - 1) AND 0x80 \<noteq> 0
                then xor_128 (leftshift_onebit p) const_Rb
                else leftshift_onebit p);
          k2 = (if k1 ! (kOctet16Length - 1) AND 0x80 \<noteq> 0
                then xor_128 (leftshift_onebit k1) const_Rb
                else leftshift_onebit k1)
      in cmac_prepare_last_block cb k1 k2)"

text \<open>
  \<open>stack\<close> is what the memory that \<open>alloca\<close> returns holds; \<open>input\<close> is \<open>None\<close> for a null pointer.
  The number of bytes is that of the \<open>uint16_t\<close> argument \<open>length\<close>.
\<close>

definition aes_cmac :: "u8 list \<Rightarrow> u8 list \<Rightarrow> u8 list option \<Rightarrow> u16 \<Rightarrow> u8 list" where
  "aes_cmac stack key input length_w =
     (let length_n = unat length_w;
          n = (length_n + kOctet16Length - 1) div kOctet16Length;
          n = (if n = 0 then 1 else n);
          len = n * kOctet16Length;
          txt = take len stack;
          diff = len - length_n;
          cb = (case input of
                  Some inp \<Rightarrow>
                    if 0 < length_n
                    then \<lparr>cmac_text = take diff txt @ take length_n inp, cmac_len = length_n, cmac_rounds = n\<rparr>
                    else \<lparr>cmac_text = txt, cmac_len = 0, cmac_rounds = n\<rparr>
                | None \<Rightarrow> \<lparr>cmac_text = txt, cmac_len = 0, cmac_rounds = n\<rparr>);
          cb = cmac_generate_subkey cb key
      in cmac_aes_k_calculate cb key)"

definition aes_cmac_tlen :: "u8 list \<Rightarrow> u8 list \<Rightarrow> u8 list option \<Rightarrow> u16 \<Rightarrow> nat \<Rightarrow> u8 list" where
  "aes_cmac_tlen stack key input length_w tlen =
     (let signature = aes_cmac stack key input length_w
      in take tlen (drop (kOctet16Length - tlen) signature))"

section \<open>Key derivation\<close>

definition h6 :: "u8 list \<Rightarrow> u8 list \<Rightarrow> u8 list \<Rightarrow> u8 list" where
  "h6 stack w keyid = aes_cmac stack w (Some keyid) (of_nat (length keyid))"

definition h7 :: "u8 list \<Rightarrow> u8 list \<Rightarrow> u8 list \<Rightarrow> u8 list" where
  "h7 stack salt w = aes_cmac stack salt (Some w) (of_nat (length w))"

definition crypto_f4 :: "u8 list \<Rightarrow> u8 list \<Rightarrow> u8 list \<Rightarrow> u8 list \<Rightarrow> u8 \<Rightarrow> u8 list" where
  "crypto_f4 stack u v x z =
     (let msg = [z] @ take 32 v @ take 32 u
      in aes_cmac stack x (Some msg) (of_nat (length msg)))"

definition calculate_mac_key_or_ltk ::
    "u8 list \<Rightarrow> u8 list \<Rightarrow> u8 \<Rightarrow> u8 list \<Rightarrow> u8 list \<Rightarrow> u8 list \<Rightarrow> u8 list \<Rightarrow> u8 list \<Rightarrow> u8 list \<Rightarrow> u8 list" where
  "calculate_mac_key_or_ltk stack t counter key_id n1 n2 a1 a2 length_b =
     (let msg = take 2 length_b @ take 7 a2 @ take 7 a1 @ n2 @ n1 @ take 4 key_id @ [counter]
      in aes_cmac stack t (Some msg) (of_nat (length msg)))"

definition f5 :: "u8 list \<Rightarrow> u8 list \<Rightarrow> u8 list \<Rightarrow> u8 list \<Rightarrow> u8 list \<Rightarrow> u8 list \<Rightarrow> u8 list \<times> u8 list" where
  "f5 stack w n1 n2 a1 a2 =
     (let salt = [0xBE, 0x83, 0x60, 0x5A, 0xDB, 0x0B, 0x37, 0x60,
                  0x38, 0xA5, 0xF5, 0xAA, 0x91, 0x83, 0x88, 0x6C];
          t = aes_cmac stack salt (Some w) 32;
          key_id = [0x65, 0x6c, 0x74, 0x62];
          length_b = [0x00, 0x01];
          mac_key = calculate_mac_key_or_ltk stack t 0 key_id n1 n2 a1 a2 length_b;
          ltk = calculate_mac_key_or_ltk stack t 1 key_id n1 n2 a1 a2 length_b
      in (mac_key, ltk))"

definition f6 ::
    "u8 list \<Rightarrow> u8 list \<Rightarrow> u8 list \<Rightarrow> u8 list \<Rightarrow> u8 list \<Rightarrow> u8 list \<Rightarrow> u8 list \<Rightarrow> u8 list \<Rightarrow> u8 list" where
  "f6 stack w n1 n2 r iocap a1 a2 =
     (let msg = take 7 a2 @ take 7 a1 @ take 3 iocap @ r @ n2 @ n1
      in aes_cmac stack w (Some msg) (of_nat (length msg)))"

definition le32toh :: "u8 list \<Rightarrow> u32" where
  "le32toh b = ucast (b ! 0) OR push_bit 8 (ucast (b ! 1)) OR push_bit 16 (ucast (b ! 2))
     OR push_bit 24 (ucast (b ! 3))"

definition g2 :: "u8 list \<Rightarrow> u8 list \<Rightarrow> u8 list \<Rightarrow> u8 list \<Rightarrow> u8 list \<Rightarrow> u32" where
  "g2 stack u v x y =
     (let msg = y @ take 32 v @ take 32 u;
          cmac = aes_cmac stack x (Some msg) (of_nat (length msg))
      in le32toh cmac mod 1000000)"

definition ltk_to_link_key :: "u8 list \<Rightarrow> u8 list \<Rightarrow> bool \<Rightarrow> u8 list" where
  "ltk_to_link_key stack ltk use_h7 =
     (let ilk = (if use_h7 then h7 stack ([0x31, 0x70, 0x6D, 0x74] @ replicate 12 0) ltk
                 else h6 stack ltk [0x31, 0x70, 0x6D, 0x74])
      in h6 stack ilk [0x72, 0x62, 0x65, 0x6c])"

definition link_key_to_ltk :: "u8 list \<Rightarrow> u8 list \<Rightarrow> bool \<Rightarrow> u8 list" where
  "link_key_to_ltk stack link_key use_h7 =
     (let iltk = (if use_h7 then h7 stack ([0x32, 0x70, 0x6D, 0x74] @ replicate 12 0) link_key
                  else h6 stack link_key [0x32, 0x70, 0x6D, 0x74])
      in h6 stack iltk [0x65, 0x6c, 0x72, 0x62])"

definition c1 ::
    "u8 list \<Rightarrow> u8 list \<Rightarrow> u8 list \<Rightarrow> u8 list \<Rightarrow> u8 \<Rightarrow> u8 list \<Rightarrow> u8 \<Rightarrow> u8 list \<Rightarrow> u8 list" where
  "c1 k r preq pres iat ia rat ra =
     (let p1 = [iat] @ [rat] @ take 7 preq @ take 7 pres;
          p1 = map2 (XOR) r p1;
          p1bis = aes_128 k p1;
          pad = replicate 4 0;
          p2 = take 6 ra @ take 6 ia @ pad;
          p2 = map2 (XOR) p1bis p2
      in aes_128 k p2)"

definition s1 :: "u8 list \<Rightarrow> u8 list \<Rightarrow> u8 list \<Rightarrow> u8 list" where
  "s1 k r1 r2 =
     (let txt = take (kOctet16Length div 2) r1 @ take (kOctet16Length div 2) r2
      in aes_128 k txt)"

end
