(* ===== verification/AES_Tables.thy ===== *)
theory AES_Tables
  imports AES
begin

text \<open>
  The tables of the cipher: multiplication by the column polynomials is a linear combination
  of repeated doubling, the two substitution tables are inverse to each other, and so are the
  two combined round steps.
\<close>

unbundle bit_operations_syntax

section \<open>Multiplication by the polynomials of a column\<close>

definition xtime :: "u8 \<Rightarrow> u8" where
  "xtime b = push_bit 1 b XOR (if bit b 7 then 0x1b else 0)"

lemma u8_consts: "(283 :: u8) = 0x1b" "(566 :: u8) = 0x36" "(1132 :: u8) = 0x6c"
  by simp_all

lemma bit_byte_high: "bit (0x1b :: u8) 7 = False" "bit (0x36 :: u8) 7 = False"
  by (simp_all add: bit_numeral_rec)

lemma xtime_xor: "xtime (a XOR b) = xtime a XOR xtime b"
  by (simp add: xtime_def push_bit_xor bit_xor_iff ac_simps xor.left_commute)

lemma bit_of_and: "drop_bit n x AND 1 = of_bool (bit x n)" for x :: u32
  by (simp add: and_one_eq bit_iff_odd_drop_bit mod2_eq_if)

lemma ucast_push: "(ucast (push_bit n (ucast b :: u32)) :: u8) = push_bit n b" for b :: u8
  by (rule bit_word_eqI) (auto simp: bit_simps)

lemma bit_ucast: "bit (ucast b :: u32) n = bit b n" for b :: u8
  by (auto simp: bit_simps dest: bit_imp_le_length)

lemma ucast_xor: "(ucast (x XOR y) :: u8) = ucast x XOR ucast y" for x y :: u32
  by (simp add: unsigned_xor_eq)

lemma bit_pow: "drop_bit n x AND 2 ^ k = of_bool (bit x (n + k)) * 2 ^ k" for x :: u32
  by (rule bit_word_eqI) (auto simp: bit_simps bit_exp_iff add.commute)

lemmas bit_2 = bit_pow [of _ _ 1, simplified] and bit_4 = bit_pow [of _ _ 2, simplified]

lemma ucast_if: "(ucast (of_bool c * x :: u32) :: u8) = (if c then ucast x else 0)"
  by simp

lemma bit_xtime: "bit (xtime b) 7 = bit b 6"
  unfolding xtime_def bit_xor_iff by (subst bit_push_bit_iff) (simp add: bit_byte_high)

lemma f2_xtime: "(ucast (f2 (ucast b)) :: u8) = xtime b"
  unfolding f2_def WPOLY_def bit_of_and bit_ucast ucast_xor ucast_push xtime_def ucast_if by (simp add: u8_consts)

lemma push_xtime: "push_bit n (xtime b) = push_bit (Suc n) b XOR (if bit b 7 then push_bit n 0x1b else 0)"
  by (simp add: xtime_def push_bit_xor push_bit_push_bit)

lemma xtime_xtime:
  "xtime (xtime b) = push_bit 2 b XOR (if bit b 7 then 0x36 else 0) XOR (if bit b 6 then 0x1b else 0)"
  unfolding xtime_def [of "xtime b"] bit_xtime push_xtime [of 1] by (simp add: numeral_2_eq_2 xor.assoc)

lemma f4_xtime: "(ucast (f4 (ucast b)) :: u8) = xtime (xtime b)"
  unfolding f4_def WPOLY_def bit_of_and bit_2 bit_ucast ucast_xor ucast_push xtime_xtime
  by (simp add: xor.assoc u8_consts)

lemma f8_xtime: "(ucast (f8 (ucast b)) :: u8) = xtime (xtime (xtime b))"
proof -
  have b6: "bit (xtime b) 6 = bit b 5"
    unfolding xtime_def bit_xor_iff by (subst bit_push_bit_iff) (simp add: bit_numeral_rec)
  have "push_bit 2 (xtime b) = push_bit 3 b XOR (if bit b 7 then 0x6c else 0)"
    unfolding push_xtime [of 2] by simp
  then have "xtime (xtime (xtime b)) = push_bit 3 b XOR (if bit b 7 then 0x6c else 0) XOR
      (if bit b 6 then 0x36 else 0) XOR (if bit b 5 then 0x1b else 0)"
    by (simp only: xtime_xtime [of "xtime b"] bit_xtime b6 xor.assoc)
  then show ?thesis
    unfolding f8_def WPOLY_def bit_of_and bit_2 bit_4 bit_ucast ucast_xor ucast_push
    by (simp add: xor.assoc u8_consts)
qed

section \<open>Tables\<close>

lemma unat_byte: "unat (x :: u8) < 256"
  using unsigned_less [of x] by simp

lemma byte_ucast: "(ucast (ucast x :: u32) :: u8) = x" for x :: u8
  by (rule bit_word_eqI) (auto simp: bit_simps)

lemma ucast_byte: "v < 256 \<Longrightarrow> (ucast (ucast v :: u8) :: u32) = v" for v :: u32
  by (simp add: word_uint_eq_iff unsigned_ucast_eq word_less_def unsigned_take_bit_eq take_bit_int_eq_self)

lemma mm_data_upt: "mm_data = map of_nat [0..<256]"
  by code_simp

lemma mm_data_nth: "mm_data ! unat x = ucast (x :: u8)"
  unfolding mm_data_upt using unat_byte [of x] by simp

lemma length_tables: "length sb_data = 256" "length mm_data = 256"
  by (simp_all add: sb_data_def mm_data_def)

lemma gfm_values:
  "gfm_9 x = xtime (xtime (xtime x)) XOR x"
  "gfm_b x = xtime (xtime (xtime x)) XOR xtime x XOR x"
  "gfm_d x = xtime (xtime (xtime x)) XOR xtime (xtime x) XOR x"
  "gfm_e x = xtime (xtime (xtime x)) XOR xtime (xtime x) XOR xtime x"
  by (simp_all add: gfm_9_def gfm_b_def gfm_d_def gfm_e_def gfmul_9_def gfmul_b_def gfmul_d_def gfmul_e_def
      byte_table_def unat_byte length_tables mm_data_nth f9_def fb_def fd_def fe_def ucast_xor
      f2_xtime f4_xtime f8_xtime byte_ucast)

lemma sb_data_bytes: "list_all (\<lambda>v. v < 256) sb_data"
  by (simp add: sb_data_def)

lemma sb_data_ucast: "ucast (s_box x) = sb_data ! unat x"
proof -
  have "sb_data ! unat x < 256"
    using sb_data_bytes unat_byte [of x] by (simp add: list_all_length length_tables)
  then show ?thesis
    by (simp add: s_box_def sbox_def byte_table_def f1_def unat_byte length_tables ucast_byte)
qed

lemma gfm_sb_values: "gfm2_sb x = xtime (s_box x)" "gfm3_sb x = xtime (s_box x) XOR s_box x"
  by (simp_all add: gfm2_sb_def gfm3_sb_def gfm2_sbox_def gfm3_sbox_def byte_table_def unat_byte
      length_tables f3_def ucast_xor f2_xtime byte_ucast flip: sb_data_ucast)

lemma inverse_table: "map is_box sbox = map of_nat [0..<256]"
  by code_simp

lemma is_box_s_box [simp]: "is_box (s_box x) = x"
proof -
  have "is_box (s_box x) = map is_box sbox ! unat x"
    by (simp add: s_box_def sbox_def byte_table_def unat_byte length_tables)
  also have "\<dots> = x"
    unfolding inverse_table using unat_byte [of x] by simp
  finally show ?thesis .
qed

section \<open>Rounds\<close>

lemma block_cases:
  assumes "length st = 16"
  obtains a b c d e f g h i j k l m n p q where "st = [a, b, c, d, e, f, g, h, i, j, k, l, m, n, p, q]"
proof -
  have "st = map ((!) st) [0..<16]" using assms by (simp add: map_nth flip: assms)
  then show ?thesis using that by (simp add: upt_rec)
qed

lemma shift_sub_rows_inverse: "length st = 16 \<Longrightarrow> inv_shift_sub_rows (shift_sub_rows st) = st"
  by (elim block_cases) (simp add: shift_sub_rows_def inv_shift_sub_rows_def)

lemma xor_cancel: "x XOR x = 0" "x XOR (x XOR y) = y" for x y :: u8
  by (simp_all flip: xor.assoc)

lemma column_inverse:
  "gfm_e (xtime a XOR (xtime b XOR b) XOR c XOR d) XOR gfm_b (a XOR xtime b XOR (xtime c XOR c) XOR d) XOR
   gfm_d (a XOR b XOR xtime c XOR (xtime d XOR d)) XOR gfm_9 ((xtime a XOR a) XOR b XOR c XOR xtime d) = a"
  "gfm_9 (xtime a XOR (xtime b XOR b) XOR c XOR d) XOR gfm_e (a XOR xtime b XOR (xtime c XOR c) XOR d) XOR
   gfm_b (a XOR b XOR xtime c XOR (xtime d XOR d)) XOR gfm_d ((xtime a XOR a) XOR b XOR c XOR xtime d) = b"
  "gfm_d (xtime a XOR (xtime b XOR b) XOR c XOR d) XOR gfm_9 (a XOR xtime b XOR (xtime c XOR c) XOR d) XOR
   gfm_e (a XOR b XOR xtime c XOR (xtime d XOR d)) XOR gfm_b ((xtime a XOR a) XOR b XOR c XOR xtime d) = c"
  "gfm_b (xtime a XOR (xtime b XOR b) XOR c XOR d) XOR gfm_d (a XOR xtime b XOR (xtime c XOR c) XOR d) XOR
   gfm_9 (a XOR b XOR xtime c XOR (xtime d XOR d)) XOR gfm_e ((xtime a XOR a) XOR b XOR c XOR xtime d) = d"
  by (simp_all only: gfm_values xtime_xor) (simp_all only: xor.assoc xor.commute xor.left_commute xor_cancel xor_self_eq xor.right_neutral xor.left_neutral)

lemma mix_sub_columns_inverse: "length st = 16 \<Longrightarrow> inv_mix_sub_columns (mix_sub_columns st) = st"
  by (elim block_cases)
    (simp add: mix_sub_columns_def inv_mix_sub_columns_def copy_block_def N_BLOCK_def gfm_sb_values column_inverse)

end
