(* ===== verification/AES_Rounds.thy ===== *)
theory AES_Rounds
  imports AES_Tables
begin

text \<open>
  Encryption followed by decryption with the same key schedule is the identity, for a block
  and for a chain of blocks. The argument is made once for every cipher built from invertible
  rounds.
\<close>

unbundle bit_operations_syntax

section \<open>Round ciphers\<close>

locale round_cipher =
  fixes blk :: "'b \<Rightarrow> bool"
    and key :: "'k \<Rightarrow> bool"
    and add :: "'b \<Rightarrow> 'k \<Rightarrow> 'b"
    and mix :: "'b \<Rightarrow> 'b"
    and inv_mix :: "'b \<Rightarrow> 'b"
    and fin :: "'b \<Rightarrow> 'b"
    and inv_fin :: "'b \<Rightarrow> 'b"
  assumes add_blk: "blk s \<Longrightarrow> key k \<Longrightarrow> blk (add s k)"
    and add_add: "blk s \<Longrightarrow> key k \<Longrightarrow> add (add s k) k = s"
    and mix_blk: "blk s \<Longrightarrow> blk (mix s)"
    and mix_inverse: "blk s \<Longrightarrow> inv_mix (mix s) = s"
    and fin_blk: "blk s \<Longrightarrow> blk (fin s)"
    and fin_inverse: "blk s \<Longrightarrow> inv_fin (fin s) = s"
begin

definition rounds :: "'b \<Rightarrow> 'k list \<Rightarrow> 'b" where
  "rounds s ks = foldl (\<lambda>s k. add (mix s) k) s ks"

definition inv_rounds :: "'b \<Rightarrow> 'k list \<Rightarrow> 'b" where
  "inv_rounds s ks = foldl (\<lambda>s k. inv_mix (add s k)) s (rev ks)"

lemma rounds_blk: "blk s \<Longrightarrow> \<forall>k \<in> set ks. key k \<Longrightarrow> blk (rounds s ks)"
  unfolding rounds_def by (induction ks arbitrary: s) (simp_all add: add_blk mix_blk)

lemma rounds_inverse:
  assumes "blk s" and "\<forall>k \<in> set ks. key k"
  shows "inv_rounds (rounds s ks) ks = s"
  using assms
proof (induction ks arbitrary: s)
  case (Cons k ks)
  then have "blk (add (mix s) k)" by (simp add: add_blk mix_blk)
  then have "inv_rounds (rounds (add (mix s) k) ks) ks = add (mix s) k"
    using Cons by simp
  then show ?case
    using Cons.prems by (simp add: rounds_def inv_rounds_def add_add mix_inverse mix_blk)
qed (simp add: rounds_def inv_rounds_def)

lemma cipher_inverse:
  assumes "blk s" and "key k" and "\<forall>k \<in> set ks. key k" and "key k'"
  shows "add (inv_rounds (inv_fin (add (add (fin (rounds (add s k) ks)) k') k')) ks) k = s"
proof -
  have "blk (add s k)" using assms by (simp add: add_blk)
  then show ?thesis
    using assms by (simp add: add_add fin_blk fin_inverse rounds_blk rounds_inverse)
qed

end

lemma map2_xor_twice: "length s \<le> length k \<Longrightarrow> map2 (XOR) (map2 (XOR) s k) k = (s :: u8 list)"
  by (induction s k rule: list_induct2') (simp_all add: xor.assoc)

lemma length_mix [len_simps]: "length (mix_sub_columns s) = 16" "length (inv_mix_sub_columns s) = 16"
  by (simp_all add: mix_sub_columns_def inv_mix_sub_columns_def Let_def)

lemma length_shift [len_simps]:
  "length (shift_sub_rows s) = length s" "length (inv_shift_sub_rows s) = length s"
  by (simp_all add: shift_sub_rows_def inv_shift_sub_rows_def Let_def)

interpretation aes: round_cipher "\<lambda>s. length s = 16" "\<lambda>k. 16 \<le> length k" add_round_key
  mix_sub_columns inv_mix_sub_columns shift_sub_rows inv_shift_sub_rows
  by unfold_locales
    (simp_all add: add_round_key_def xor_block_def N_BLOCK_def map2_xor_twice len_simps
      mix_sub_columns_inverse shift_sub_rows_inverse)

lemma copy_and_key_add: "copy_and_key s k = add_round_key s k"
  by (simp add: copy_and_key_def add_round_key_def xor_block_def)

lemma foldl_map_rounds:
  "foldl (\<lambda>s r. add_round_key (mix_sub_columns s) (f r)) s rs = aes.rounds s (map f rs)"
  "foldl (\<lambda>s r. inv_mix_sub_columns (add_round_key s (f r))) s (rev rs) = aes.inv_rounds s (map f rs)"
  by (simp_all add: aes.rounds_def aes.inv_rounds_def foldl_map rev_map)

section \<open>Key schedule in memory\<close>

lemma round_key_0: "round_key ctx 0 = ksch ctx"
  by (simp add: round_key_def)

lemma aes_encrypt_rounds:
  "rnd ctx \<noteq> 0 \<Longrightarrow> aes_encrypt inb out ctx =
     (0, add_round_key (shift_sub_rows (aes.rounds (add_round_key inb (round_key ctx 0))
            (map (round_key ctx) [1..<unat (rnd ctx)]))) (round_key ctx (unat (rnd ctx))))"
  by (simp add: aes_encrypt_def copy_and_key_add foldl_map_rounds round_key_0 Let_def)

lemma aes_decrypt_rounds:
  "rnd ctx \<noteq> 0 \<Longrightarrow> aes_decrypt inb out ctx =
     (0, add_round_key (aes.inv_rounds (inv_shift_sub_rows (add_round_key inb (round_key ctx (unat (rnd ctx)))))
            (map (round_key ctx) [1..<unat (rnd ctx)])) (round_key ctx 0))"
  by (simp add: aes_decrypt_def copy_and_key_add foldl_map_rounds round_key_0 Let_def)

abbreviation ctx_wf :: "aes_context \<Rightarrow> bool" where
  "ctx_wf ctx \<equiv> rnd ctx \<noteq> 0 \<and> 16 * (unat (rnd ctx) + 1) \<le> length (ksch ctx)"

lemma round_key_wf: "ctx_wf ctx \<Longrightarrow> r \<le> unat (rnd ctx) \<Longrightarrow> 16 \<le> length (round_key ctx r)"
  by (auto simp: round_key_def N_BLOCK_def)

lemma aes_decrypt_encrypt:
  assumes "ctx_wf ctx" and "length inb = 16"
  shows "\<exists>c. aes_encrypt inb out ctx = (0, c) \<and> length c = 16 \<and> aes_decrypt c out' ctx = (0, inb)"
proof -
  let ?n = "unat (rnd ctx)"
  let ?ks = "map (round_key ctx) [1..<?n]"
  have k: "16 \<le> length (round_key ctx 0)" "\<forall>k \<in> set ?ks. 16 \<le> length k" "16 \<le> length (round_key ctx ?n)"
    using round_key_wf [OF assms(1)] by auto
  have b: "length (add_round_key inb (round_key ctx 0)) = 16"
    using aes.add_blk [OF assms(2) k(1)] .
  then show ?thesis
    using aes.cipher_inverse [OF assms(2) k(1) k(2) k(3)] assms(1) k
      aes.add_blk [OF aes.fin_blk [OF aes.rounds_blk [OF b k(2)]] k(3)]
    by (simp add: aes_encrypt_rounds aes_decrypt_rounds)
qed


section \<open>Cipher block chaining\<close>

lemma xor_block_length: "length iv = 16 \<Longrightarrow> 16 \<le> length inb \<Longrightarrow> length (xor_block iv inb) = 16"
  by (simp add: xor_block_def N_BLOCK_def)

lemma map2_xor_back: "length s = length k \<Longrightarrow> map2 (XOR) (map2 (XOR) s k) s = (k :: u8 list)"
  by (induction s k rule: list_induct2) (simp_all add: xor.assoc xor.commute xor.left_commute xor_cancel)

lemma xor_block_back:
  assumes "length iv = 16" "16 \<le> length inb"
  shows "xor_block (xor_block iv inb) iv = take 16 inb"
proof -
  have "length (map2 (XOR) iv (take 16 inb)) = 16" using assms by simp
  then show ?thesis
    using assms map2_xor_back [of iv "take 16 inb"] by (simp add: xor_block_def N_BLOCK_def)
qed

lemma take_add_round_key: "add_round_key (take 16 s) k = add_round_key s k"
  by (simp add: add_round_key_def xor_block_def N_BLOCK_def)

lemma aes_decrypt_take: "aes_decrypt (take 16 s @ t) out ctx = aes_decrypt (take 16 s) out ctx"
  if "16 \<le> length s"
  using that by (simp add: aes_decrypt_def copy_and_key_def N_BLOCK_def)

lemma cbc_round_trip:
  assumes "ctx_wf ctx" "length iv = 16" "length inb = 16 * n"
  shows "\<exists>c iv'. aes_cbc_encrypt inb n iv ctx = (0, c, iv') \<and> length c = 16 * n \<and>
    (\<exists>iv''. aes_cbc_decrypt c n iv ctx = (0, inb, iv''))"
  using assms(2,3)
proof (induction n arbitrary: inb iv)
  case (Suc n)
  let ?x = "xor_block iv inb"
  have x: "length ?x = 16" using Suc.prems by (simp add: xor_block_length)
  obtain c where c: "aes_encrypt ?x ?x ctx = (0, c)" "length c = 16" "aes_decrypt c [] ctx = (0, ?x)"
    using aes_decrypt_encrypt [OF assms(1) x, of ?x "[]"] by blast
  obtain d iv' iv'' where d: "aes_cbc_encrypt (drop 16 inb) n c ctx = (0, d, iv')" "length d = 16 * n"
      "aes_cbc_decrypt d n c ctx = (0, drop 16 inb, iv'')"
    using Suc.IH [of c "drop 16 inb"] c(2) Suc.prems by auto
  have "aes_cbc_encrypt inb (Suc n) iv ctx = (0, c @ d, iv')"
    using c d by (simp add: N_BLOCK_def)
  moreover have "aes_decrypt (c @ d) [] ctx = (0, ?x)"
    using c(2,3) aes_decrypt_take [of c d "[]" ctx] by simp
  then have "aes_cbc_decrypt (c @ d) (Suc n) iv ctx = (0, take 16 inb @ drop 16 inb, iv'')"
    using c(2) d(3) Suc.prems by (simp add: N_BLOCK_def xor_block_back)
  ultimately show ?case
    using c(2) d(2) by (intro exI [of _ "c @ d"] exI [of _ iv'] exI [of _ iv''] conjI)
      (simp_all del: aes_cbc_encrypt.simps aes_cbc_decrypt.simps)
qed simp

end
