(* ===== verification/AES_Otfk.thy ===== *)
theory AES_Otfk
  imports AES_Rounds
begin

text \<open>
  The variants of the cipher that update the key from round to round: decryption with the
  final key of an encryption returns the block and the original key.
\<close>

unbundle bit_operations_syntax

section \<open>Round constants\<close>

lemma f2_byte_xtime: "f2_byte b = xtime b"
  by (simp add: f2_byte_def f2_xtime)

lemma bit_xtime_0: "bit (xtime b) 0 = bit b 7"
  unfolding xtime_def bit_xor_iff by (subst bit_push_bit_iff) simp

lemma ucast_drop: "(ucast (drop_bit n (ucast b :: u32)) :: u8) = drop_bit n b" for b :: u8
  by (rule bit_word_eqI) (auto simp: bit_simps bit_ucast dest: bit_imp_le_length)

lemma d2_byte_value: "d2_byte b = drop_bit 1 b XOR (if bit b 0 then 0x8d else 0)"
proof -
  have odd: "(ucast b :: u32) AND 1 = of_bool (bit b 0)" for b :: u8
    using bit_of_and [of 0 "ucast b"] unfolding bit_ucast by simp
  show ?thesis
    unfolding d2_byte_def d2_def DPOLY_def ucast_xor odd ucast_drop by simp
qed

lemma drop_push_byte: "drop_bit 1 (push_bit 1 b) = (if bit b 7 then b XOR 0x80 else b)" for b :: u8
proof (rule bit_word_eqI)
  fix n assume "n < LENGTH(8)"
  then have n: "n = 7 \<or> n < 7" by auto
  have h: "bit (0x80 :: u8) n = (n = 7)"
  proof -
    have "(0x80 :: u8) = 2 ^ 7" by simp
    then show ?thesis using \<open>n < LENGTH(8)\<close> by (simp only: bit_exp_iff possible_bit_word) auto
  qed
  show "bit (drop_bit 1 (push_bit 1 b)) n = bit (if bit b 7 then b XOR 0x80 else b) n"
    unfolding bit_drop_bit_eq o_def if_distrib [of "\<lambda>w. bit w n"] bit_xor_iff h using n
    by (subst bit_push_bit_iff) auto
qed

lemma d2_f2: "d2_byte (f2_byte b) = b"
proof -
  have "drop_bit 1 (xtime b) = (if bit b 7 then b XOR 0x80 else b) XOR drop_bit 1 (if bit b 7 then 0x1b else 0)"
    unfolding xtime_def drop_bit_xor drop_push_byte ..
  then show ?thesis
    unfolding f2_byte_xtime d2_byte_value bit_xtime_0 by (simp add: xor.assoc)
qed

section \<open>Key updates\<close>

text \<open>Each of the word updates is its own inverse.\<close>

lemma xor_word_twice: "i + 3 < length k \<Longrightarrow> xor_word i a b c d (xor_word i a b c d k) = k"
  by (intro nth_equalityI) (auto simp: xor_word_def nth_list_update xor.assoc)

lemma xor_word_nth: "j < i \<or> i + 3 < j \<Longrightarrow> xor_word i a b c d k ! j = k ! j"
  by (auto simp: xor_word_def)

lemma length_xor_word [len_simps]: "length (xor_word i a b c d k) = length k"
  by (simp add: xor_word_def)

lemma length_chain_word [len_simps]: "length (chain_word k cc) = length k"
  by (simp add: chain_word_def len_simps)

lemma chain_word_twice:
  assumes "4 \<le> cc" "cc + 3 < length k"
  shows "chain_word (chain_word k cc) cc = k"
  using assms by (simp add: chain_word_def xor_word_nth xor_word_twice)

lemma length_update [len_simps]:
  "length (fst (update_encrypt_key_128 x)) = length (fst x)"
  "length (fst (update_encrypt_key_256 x)) = length (fst x)"
  by (simp_all add: update_encrypt_key_128_def update_encrypt_key_256_def Let_def len_simps split: prod.split)

lemma update_key_128_inverse:
  assumes "length k = 16"
  shows "update_decrypt_key_128 (update_encrypt_key_128 (k, rc)) = (k, rc)"
  unfolding update_encrypt_key_128_def update_decrypt_key_128_def Let_def
  using assms by (simp add: chain_word_twice xor_word_twice xor_word_nth len_simps d2_f2)

lemma update_key_256_inverse:
  assumes "length k = 32"
  shows "update_decrypt_key_256 (update_encrypt_key_256 (k, rc)) = (k, rc)"
  unfolding update_encrypt_key_256_def update_decrypt_key_256_def Let_def
  using assms by (simp add: chain_word_twice xor_word_twice xor_word_nth len_simps d2_f2)

lemma snd_update:
  "snd (update_encrypt_key_128 x) = f2_byte (snd x)" "snd (update_encrypt_key_256 x) = f2_byte (snd x)"
  by (simp_all add: update_encrypt_key_128_def update_encrypt_key_256_def Let_def split: prod.split)

lemma snd_update_iter:
  "snd ((update_encrypt_key_128 ^^ n) x) = (f2_byte ^^ n) (snd x)"
  "snd ((update_encrypt_key_256 ^^ n) x) = (f2_byte ^^ n) (snd x)"
  by (induction n) (simp_all add: snd_update)

lemma length_update_iter [len_simps]:
  "length (fst ((update_encrypt_key_128 ^^ n) x)) = length (fst x)"
  "length (fst ((update_encrypt_key_256 ^^ n) x)) = length (fst x)"
  by (induction n) (simp_all add: len_simps)

lemma round_constants: "(f2_byte ^^ 10) 1 = 0x6c" "(f2_byte ^^ 7) 1 = 0x80"
  by code_simp+

lemma decrypt_iter:
  "length k = 16 \<Longrightarrow> update_decrypt_key_128 ((update_encrypt_key_128 ^^ Suc n) (k, rc)) =
     (update_encrypt_key_128 ^^ n) (k, rc)"
  "length k = 32 \<Longrightarrow> update_decrypt_key_256 ((update_encrypt_key_256 ^^ Suc n) (k, rc)) =
     (update_encrypt_key_256 ^^ n) (k, rc)"
  using update_key_128_inverse [of "fst ((update_encrypt_key_128 ^^ n) (k, rc))"]
    update_key_256_inverse [of "fst ((update_encrypt_key_256 ^^ n) (k, rc))"]
  by (simp_all add: len_simps) (metis prod.collapse)+

section \<open>128-bit keys\<close>

abbreviation key_128 :: "u8 list \<Rightarrow> nat \<Rightarrow> u8 list \<times> u8" where
  "key_128 key n \<equiv> (update_encrypt_key_128 ^^ n) (key, 1)"

lemma rounds_snoc:
  "aes.rounds s (ks @ [k]) = add_round_key (mix_sub_columns (aes.rounds s ks)) k"
  "aes.inv_rounds s (ks @ [k]) = aes.inv_rounds (inv_mix_sub_columns (add_round_key s k)) ks"
  by (simp_all add: aes.rounds_def aes.inv_rounds_def)

lemma encrypt_128_loop:
  "foldl encrypt_128_round (s, key, 1) [1..<Suc n] =
   (aes.rounds s (map (\<lambda>i. fst (key_128 key i)) [1..<Suc n]), key_128 key n)"
  by (induction n) (simp_all add: encrypt_128_round_def aes.rounds_def split: prod.split)

lemma decrypt_128_loop:
  assumes "length key = 16"
  shows "foldl decrypt_128_round (s, key_128 key (Suc n)) (rev [1..<Suc n]) =
   (aes.inv_rounds s (map (\<lambda>i. fst (key_128 key i)) [1..<Suc n]), key_128 key 1)"
proof (induction n arbitrary: s)
  case (Suc n)
  have rev: "rev [1..<Suc (Suc n)] = Suc n # rev [1..<Suc n]" by simp
  have "decrypt_128_round (s, key_128 key (Suc (Suc n))) (Suc n) =
      (inv_mix_sub_columns (add_round_key s (fst (key_128 key (Suc n)))), key_128 key (Suc n))"
    using decrypt_iter(1) [OF assms, of "Suc n" 1]
    by (simp add: decrypt_128_round_def split: prod.splits del: funpow.simps)
  moreover have "map (\<lambda>i. fst (key_128 key i)) [1..<Suc (Suc n)] =
      map (\<lambda>i. fst (key_128 key i)) [1..<Suc n] @ [fst (key_128 key (Suc n))]"
    by simp
  ultimately show ?case
    unfolding rev foldl_Cons by (simp only: Suc.IH rounds_snoc)
qed (simp add: aes.inv_rounds_def)

lemma encrypt_128_rounds:
  assumes "length key = 16"
  shows "aes_encrypt_128 inb key =
    (add_round_key (shift_sub_rows (aes.rounds (add_round_key inb key)
       (map (\<lambda>i. fst (key_128 key i)) [1..<10]))) (fst (key_128 key 10)), fst (key_128 key 10))"
proof -
  have "foldl encrypt_128_round (s, key, 1) [1..<10] =
      (aes.rounds s (map (\<lambda>i. fst (key_128 key i)) [1..<10]), key_128 key 9)" for s
    using encrypt_128_loop [of s key 9] by simp
  moreover have "key_128 key 10 = update_encrypt_key_128 (key_128 key 9)"
    by (simp add: numeral_eq_Suc)
  ultimately show ?thesis
    using assms by (simp add: aes_encrypt_128_def copy_and_key_add copy_block_def N_BLOCK_def Let_def
      split: prod.splits)
qed

lemma decrypt_128_rounds:
  assumes "length key = 16"
  shows "aes_decrypt_128 inb (fst (key_128 key 10)) =
    (add_round_key (aes.inv_rounds (inv_shift_sub_rows (add_round_key inb (fst (key_128 key 10))))
       (map (\<lambda>i. fst (key_128 key i)) [1..<10])) key, key)"
proof -
  have k10: "key_128 key 10 = (fst (key_128 key 10), 0x6c)"
    using snd_update_iter(1) [of 10 "(key, 1)"] round_constants(1) by (simp add: prod_eq_iff)
  have loop: "foldl decrypt_128_round (s, fst (key_128 key 10), 0x6c) (rev [1..<10]) =
      (aes.inv_rounds s (map (\<lambda>i. fst (key_128 key i)) [1..<10]), key_128 key 1)" for s
    using decrypt_128_loop [OF assms, of s 9] k10 by simp
  moreover have "update_decrypt_key_128 (key_128 key 1) = (key, 1)"
    using decrypt_iter(1) [OF assms, of 0 1] by simp
  ultimately show ?thesis
    using assms by (simp add: aes_decrypt_128_def copy_and_key_add copy_block_def N_BLOCK_def Let_def len_simps
      split: prod.splits)
qed

lemma aes_128_round_trip:
  assumes "length inb = 16" "length key = 16" "aes_encrypt_128 inb key = (c, o_key)"
  shows "aes_decrypt_128 c o_key = (inb, key)"
proof -
  have k: "16 \<le> length (fst (key_128 key i))" for i
    using assms(2) by (simp add: len_simps)
  have "\<forall>k \<in> set (map (\<lambda>i. fst (key_128 key i)) [1..<10]). 16 \<le> length k" using k by auto
  from aes.cipher_inverse [OF assms(1) _ this k, of key 10]
  show ?thesis
    using assms by (auto simp: encrypt_128_rounds decrypt_128_rounds)
qed

section \<open>256-bit keys\<close>

abbreviation key_256 :: "u8 list \<Rightarrow> nat \<Rightarrow> u8 list \<times> u8" where
  "key_256 key n \<equiv> (update_encrypt_key_256 ^^ n) (key, 1)"

text \<open>The key of round \<open>r\<close>: the first or the second half of an updated key.\<close>

definition round_256 :: "u8 list \<Rightarrow> nat \<Rightarrow> u8 list" where
  "round_256 key r = (if odd r then drop 16 (fst (key_256 key (r div 2))) else fst (key_256 key (r div 2)))"

lemma encrypt_256_loop:
  "foldl encrypt_256_round (s, key, 1) [1..<Suc n] =
   (aes.rounds s (map (round_256 key) [1..<Suc n]), key_256 key (n div 2))"
proof (induction n)
  case (Suc n)
  have "map (round_256 key) [1..<Suc (Suc n)] = map (round_256 key) [1..<Suc n] @ [round_256 key (Suc n)]"
    by simp
  moreover have "encrypt_256_round (t, key_256 key (n div 2)) (Suc n) =
      (add_round_key (mix_sub_columns t) (round_256 key (Suc n)), key_256 key (Suc n div 2))" for t
  proof (cases "odd (Suc n)")
    case True
    then have "Suc n div 2 = n div 2" by presburger
    then show ?thesis
      using True by (simp add: encrypt_256_round_def round_256_def split: prod.splits del: funpow.simps)
  next
    case False
    then have "Suc n div 2 = Suc (n div 2)" by presburger
    then show ?thesis
      using False by (simp add: encrypt_256_round_def round_256_def split: prod.splits)
  qed
  ultimately show ?case
    using Suc.IH by (simp add: rounds_snoc del: funpow.simps)
qed (simp add: aes.rounds_def)

lemma decrypt_256_loop:
  assumes "length key = 32"
  shows "foldl decrypt_256_round (s, key_256 key (Suc n div 2)) (rev [1..<Suc n]) =
   (aes.inv_rounds s (map (round_256 key) [1..<Suc n]), key_256 key 0)"
proof (induction n arbitrary: s)
  case (Suc n)
  have rev: "rev [1..<Suc (Suc n)] = Suc n # rev [1..<Suc n]" by simp
  have "decrypt_256_round (s, key_256 key (Suc r div 2)) r =
      (inv_mix_sub_columns (add_round_key s (round_256 key r)), key_256 key (r div 2))" for r
  proof (cases "odd r")
    case True
    then have "key_256 key (Suc r div 2) = key_256 key (Suc (r div 2))" by simp
    then show ?thesis
      using True decrypt_iter(2) [OF assms, of "r div 2" 1]
      by (simp only: decrypt_256_round_def round_256_def prod.case if_True Let_def) (simp add: case_prod_beta)
  next
    case False
    then have "key_256 key (Suc r div 2) = key_256 key (r div 2)" by simp
    then show ?thesis
      using False by (simp only: decrypt_256_round_def round_256_def prod.case if_False Let_def) (simp add: case_prod_beta)
  qed
  note this [of "Suc n"]
  moreover have "map (round_256 key) [1..<Suc (Suc n)] = map (round_256 key) [1..<Suc n] @ [round_256 key (Suc n)]"
    by simp
  ultimately show ?case
    unfolding rev foldl_Cons by (simp only: Suc.IH rounds_snoc)
qed (simp add: aes.inv_rounds_def)

lemma length_round_256: "length key = 32 \<Longrightarrow> 16 \<le> length (round_256 key r)"
  by (simp add: round_256_def len_simps)

lemma encrypt_256_rounds:
  assumes "length key = 32"
  shows "aes_encrypt_256 inb key =
    (add_round_key (shift_sub_rows (aes.rounds (add_round_key inb key) (map (round_256 key) [1..<14])))
       (round_256 key 14), fst (key_256 key 7))"
proof -
  have "foldl encrypt_256_round (s, key, 1) [1..<14] =
      (aes.rounds s (map (round_256 key) [1..<14]), key_256 key 6)" for s
    using encrypt_256_loop [of s key 13] by simp
  moreover have "key_256 key 7 = update_encrypt_key_256 (key_256 key 6)"
    by (simp add: numeral_eq_Suc)
  moreover have "round_256 key 14 = fst (key_256 key 7)"
    by (simp add: round_256_def)
  moreover have "take 16 key @ take 16 (drop 16 key) = key"
    using assms by (simp flip: take_add)
  ultimately show ?thesis
    by (simp add: aes_encrypt_256_def copy_and_key_add copy_block_def N_BLOCK_def Let_def split: prod.splits)
qed

lemma decrypt_256_rounds:
  assumes "length key = 32"
  shows "aes_decrypt_256 inb (fst (key_256 key 7)) =
    (add_round_key (aes.inv_rounds (inv_shift_sub_rows (add_round_key inb (round_256 key 14)))
       (map (round_256 key) [1..<14])) key, key)"
proof -
  have k7: "key_256 key 7 = (fst (key_256 key 7), 0x80)"
    using snd_update_iter(2) [of 7 "(key, 1)"] round_constants(2) by (simp add: prod_eq_iff)
  have loop: "foldl decrypt_256_round (s, fst (key_256 key 7), 0x80) (rev [1..<14]) =
      (aes.inv_rounds s (map (round_256 key) [1..<14]), key, 1)" for s
    using decrypt_256_loop [OF assms, of s 13] k7 by simp
  moreover have "round_256 key 14 = fst (key_256 key 7)"
    by (simp add: round_256_def)
  moreover have "take 16 (fst (key_256 key 7)) @ take 16 (drop 16 (fst (key_256 key 7))) = fst (key_256 key 7)"
    using assms by (simp add: len_simps flip: take_add)
  ultimately show ?thesis
    by (simp add: aes_decrypt_256_def copy_and_key_add copy_block_def N_BLOCK_def Let_def split: prod.splits)
qed

lemma aes_256_round_trip:
  assumes "length inb = 16" "length key = 32" "aes_encrypt_256 inb key = (c, o_key)"
  shows "aes_decrypt_256 c o_key = (inb, key)"
proof -
  have "\<forall>k \<in> set (map (round_256 key) [1..<14]). 16 \<le> length k"
    using length_round_256 [OF assms(2)] by auto
  from aes.cipher_inverse [OF assms(1) _ this length_round_256 [OF assms(2)], of key 14]
  show ?thesis
    using assms by (auto simp: encrypt_256_rounds decrypt_256_rounds)
qed

end
