(* ===== verification/AES_Schedule.thy ===== *)
theory AES_Schedule
  imports AES_Otfk
begin

text \<open>
  The key schedules that \<^verbatim>\<open>aes_set_key\<close> writes for keys of 128 and of 256 bits are the sequences of keys of
  the on-the-fly variants, so the two variants encrypt alike.
\<close>

unbundle bit_operations_syntax

section \<open>Shift invariance\<close>

definition key_core :: "nat \<Rightarrow> nat \<Rightarrow> u8 \<Rightarrow> u8 \<Rightarrow> u8 \<Rightarrow> u8 \<Rightarrow> u8 \<Rightarrow> u8 \<times> u8 \<times> u8 \<times> u8 \<times> u8" where
  "key_core keylen cc t0 t1 t2 t3 rc =
     (if cc mod keylen = 0 then (s_box t1 XOR rc, s_box t2, s_box t3, s_box t0, f2_byte rc)
      else if 24 < keylen \<and> cc mod keylen = 16 then (s_box t0, s_box t1, s_box t2, s_box t3, rc)
      else (t0, t1, t2, t3, rc))"

definition write_word :: "nat \<Rightarrow> nat \<Rightarrow> u8 list \<Rightarrow> u8 \<times> u8 \<times> u8 \<times> u8 \<times> u8 \<Rightarrow> u8 list \<times> u8" where
  "write_word tt cc ks = (\<lambda>(t0, t1, t2, t3, rc).
     (let ks = ks[cc + 0 := ks ! (tt + 0) XOR t0];
          ks = ks[cc + 1 := ks ! (tt + 1) XOR t1];
          ks = ks[cc + 2 := ks ! (tt + 2) XOR t2];
          ks = ks[cc + 3 := ks ! (tt + 3) XOR t3]
      in (ks, rc)))"

lemma set_key_step_core:
  "set_key_step keylen cc (ks, rc) =
     write_word (cc - keylen) cc ks (key_core keylen cc (ks ! (cc - 4)) (ks ! (cc - 3)) (ks ! (cc - 2)) (ks ! (cc - 1)) rc)"
  unfolding set_key_step_def write_word_def key_core_def Let_def prod.case by (rule refl)

lemma list_update_append_plus: "(pre @ u)[length pre + i := v] = pre @ u[i := v]"
  by (simp add: list_update_append)

lemma write_word_append:
  "write_word (length pre + tt) (length pre + cc) (pre @ u) x = (pre @ fst (write_word tt cc u x), snd (write_word tt cc u x))"
  by (cases x) (simp only: write_word_def Let_def prod.case add.assoc list_update_append_plus
      nth_append_length_plus fst_conv snd_conv)

lemma set_key_step_append:
  assumes "length pre mod L = 0" "L \<le> c" "4 \<le> L"
  shows "set_key_step L (length pre + c) (pre @ u, rc) =
    (pre @ fst (set_key_step L c (u, rc)), snd (set_key_step L c (u, rc)))"
proof -
  have m: "(length pre + c) mod L = c mod L" using assms(1) by (metis mod_add_left_eq add_0)
  have i: "length pre + c - L = length pre + (c - L)"
    "length pre + c - 4 = length pre + (c - 4)" "length pre + c - 3 = length pre + (c - 3)"
    "length pre + c - 2 = length pre + (c - 2)" "length pre + c - 1 = length pre + (c - 1)"
    using assms(2,3) by simp_all
  show ?thesis
    unfolding set_key_step_core i nth_append_length_plus write_word_append key_core_def m by (rule refl)
qed

section \<open>128-bit keys\<close>

text \<open>Evaluation on a block given by its bytes.\<close>

lemma chain_word_block:
  "chain_word [a0, a1, a2, a3, a4, a5, a6, a7, a8, a9, a10, a11, a12, a13, a14, a15] 4 =
     [a0, a1, a2, a3, a4 XOR a0, a5 XOR a1, a6 XOR a2, a7 XOR a3, a8, a9, a10, a11, a12, a13, a14, a15]"
  "chain_word [a0, a1, a2, a3, a4, a5, a6, a7, a8, a9, a10, a11, a12, a13, a14, a15] 8 =
     [a0, a1, a2, a3, a4, a5, a6, a7, a8 XOR a4, a9 XOR a5, a10 XOR a6, a11 XOR a7, a12, a13, a14, a15]"
  "chain_word [a0, a1, a2, a3, a4, a5, a6, a7, a8, a9, a10, a11, a12, a13, a14, a15] 12 =
     [a0, a1, a2, a3, a4, a5, a6, a7, a8, a9, a10, a11, a12 XOR a8, a13 XOR a9, a14 XOR a10, a15 XOR a11]"
  by (simp_all add: chain_word_def xor_word_def)

lemma xor_word_block:
  "xor_word 0 x0 x1 x2 x3 [a0, a1, a2, a3, a4, a5, a6, a7, a8, a9, a10, a11, a12, a13, a14, a15] =
     [a0 XOR x0, a1 XOR x1, a2 XOR x2, a3 XOR x3, a4, a5, a6, a7, a8, a9, a10, a11, a12, a13, a14, a15]"
  by (simp add: xor_word_def)

lemma set_key_step_block:
  "set_key_step 16 16 ([a0, a1, a2, a3, a4, a5, a6, a7, a8, a9, a10, a11, a12, a13, a14, a15] @ [b0, b1, b2, b3, b4, b5, b6, b7, b8, b9, b10, b11, b12, b13, b14, b15] @ post, rc) =
     ([a0, a1, a2, a3, a4, a5, a6, a7, a8, a9, a10, a11, a12, a13, a14, a15] @ [a0 XOR (s_box a13 XOR rc), a1 XOR s_box a14, a2 XOR s_box a15, a3 XOR s_box a12, b4, b5, b6, b7, b8, b9, b10, b11, b12, b13, b14, b15] @ post, f2_byte rc)"
  "set_key_step 16 20 ([a0, a1, a2, a3, a4, a5, a6, a7, a8, a9, a10, a11, a12, a13, a14, a15] @ [b0, b1, b2, b3, b4, b5, b6, b7, b8, b9, b10, b11, b12, b13, b14, b15] @ post, rc) =
     ([a0, a1, a2, a3, a4, a5, a6, a7, a8, a9, a10, a11, a12, a13, a14, a15] @ [b0, b1, b2, b3, a4 XOR b0, a5 XOR b1, a6 XOR b2, a7 XOR b3, b8, b9, b10, b11, b12, b13, b14, b15] @ post, rc)"
  "set_key_step 16 24 ([a0, a1, a2, a3, a4, a5, a6, a7, a8, a9, a10, a11, a12, a13, a14, a15] @ [b0, b1, b2, b3, b4, b5, b6, b7, b8, b9, b10, b11, b12, b13, b14, b15] @ post, rc) =
     ([a0, a1, a2, a3, a4, a5, a6, a7, a8, a9, a10, a11, a12, a13, a14, a15] @ [b0, b1, b2, b3, b4, b5, b6, b7, a8 XOR b4, a9 XOR b5, a10 XOR b6, a11 XOR b7, b12, b13, b14, b15] @ post, rc)"
  "set_key_step 16 28 ([a0, a1, a2, a3, a4, a5, a6, a7, a8, a9, a10, a11, a12, a13, a14, a15] @ [b0, b1, b2, b3, b4, b5, b6, b7, b8, b9, b10, b11, b12, b13, b14, b15] @ post, rc) =
     ([a0, a1, a2, a3, a4, a5, a6, a7, a8, a9, a10, a11, a12, a13, a14, a15] @ [b0, b1, b2, b3, b4, b5, b6, b7, b8, b9, b10, b11, a12 XOR b8, a13 XOR b9, a14 XOR b10, a15 XOR b11] @ post, rc)"
  by (simp_all add: set_key_step_def Let_def)

lemma window_128:
  assumes "length W = 16" "length V = 16"
  shows "set_key_step 16 28 (set_key_step 16 24 (set_key_step 16 20 (set_key_step 16 16 (W @ V @ post, rc)))) =
    (W @ fst (update_encrypt_key_128 (W, rc)) @ post, snd (update_encrypt_key_128 (W, rc)))"
proof -
  obtain a0 a1 a2 a3 a4 a5 a6 a7 a8 a9 a10 a11 a12 a13 a14 a15 where W: "W = [a0, a1, a2, a3, a4, a5, a6, a7, a8, a9, a10, a11, a12, a13, a14, a15]"
    using assms(1) by (rule block_cases)
  obtain b0 b1 b2 b3 b4 b5 b6 b7 b8 b9 b10 b11 b12 b13 b14 b15 where V: "V = [b0, b1, b2, b3, b4, b5, b6, b7, b8, b9, b10, b11, b12, b13, b14, b15]"
    using assms(2) by (rule block_cases)
  show ?thesis
    unfolding W V set_key_step_block update_encrypt_key_128_def
    by (simp add: chain_word_block xor_word_block xor.assoc xor.commute xor.left_commute)
qed

lemma set_key_loop_4:
  assumes "c + 12 < hi"
  shows "set_key_loop L hi c s =
    set_key_loop L hi (c + 16) (set_key_step L (c + 12) (set_key_step L (c + 8) (set_key_step L (c + 4) (set_key_step L c s))))"
proof -
  have step: "set_key_loop L hi cc s = set_key_loop L hi (cc + 4) (set_key_step L cc s)" if "cc < hi" for cc s
    using that by (simp add: set_key_loop.simps [of L hi cc])
  have "c + 4 + 4 = c + 8" "c + 8 + 4 = c + 12" "c + 12 + 4 = c + 16" by simp_all
  then show ?thesis
    using step [of c s] step [of "c + 4"] step [of "c + 8"] step [of "c + 12"] assms by (simp add: add.commute)
qed

lemma set_key_window_128:
  assumes "length W = 16" "length V = 16" "length pre mod 16 = 0" "length pre + 32 \<le> hi"
  shows "set_key_loop 16 hi (length pre + 16) (pre @ W @ V @ post, rc) =
    set_key_loop 16 hi (length (pre @ W) + 16)
      ((pre @ W) @ fst (update_encrypt_key_128 (W, rc)) @ post, snd (update_encrypt_key_128 (W, rc)))"
proof -
  have st: "set_key_step 16 (length pre + c) (pre @ u, r) =
      (pre @ fst (set_key_step 16 c (u, r)), snd (set_key_step 16 c (u, r)))" if "16 \<le> c" for c u r
    by (rule set_key_step_append) (use assms(3) that in simp_all)
  have "set_key_loop 16 hi (length pre + 16) (pre @ W @ V @ post, rc) =
      set_key_loop 16 hi (length pre + 32)
        (set_key_step 16 (length pre + 28) (set_key_step 16 (length pre + 24)
          (set_key_step 16 (length pre + 20) (set_key_step 16 (length pre + 16) (pre @ W @ V @ post, rc)))))"
    using assms(4) set_key_loop_4 [of "length pre + 16" hi 16] by (simp add: add.assoc)
  then show ?thesis
    using window_128 [OF assms(1,2), of post rc] assms(1) by (simp add: st add.commute [of 32])
qed

lemma set_key_loop_done: "hi \<le> cc \<Longrightarrow> set_key_loop L hi cc s = s"
  by (simp add: set_key_loop.simps)

lemma set_key_loop_128:
  assumes "length W = 16" "length pre mod 16 = 0" "16 * n \<le> length post" "hi = length pre + 16 * (n + 1)"
  shows "\<exists>rest. fst (set_key_loop 16 hi (length pre + 16) (pre @ W @ post, rc)) =
    pre @ concat (map (\<lambda>i. fst ((update_encrypt_key_128 ^^ i) (W, rc))) [0..<Suc n]) @ rest"
  using assms
proof (induction n arbitrary: W pre post rc)
  case 0
  then show ?case by (simp add: set_key_loop_done)
next
  case (Suc n)
  let ?x = "update_encrypt_key_128 (W, rc)"
  define V where "V = take 16 post"
  define post' where "post' = drop 16 post"
  have p: "post = V @ post'" "length V = 16" "16 * n \<le> length post'"
    using Suc.prems(3) by (simp_all add: V_def post'_def)
  have "set_key_loop 16 hi (length pre + 16) (pre @ W @ V @ post', rc) =
      set_key_loop 16 hi (length (pre @ W) + 16) ((pre @ W) @ fst ?x @ post', snd ?x)"
    using Suc.prems p by (intro set_key_window_128) simp_all
  moreover have "\<exists>rest. fst (set_key_loop 16 hi (length (pre @ W) + 16) ((pre @ W) @ fst ?x @ post', snd ?x)) =
      (pre @ W) @ concat (map (\<lambda>i. fst ((update_encrypt_key_128 ^^ i) (fst ?x, snd ?x))) [0..<Suc n]) @ rest"
    using Suc.prems p(3) by (intro Suc.IH) (simp_all add: len_simps)
  moreover have "map (\<lambda>i. fst ((update_encrypt_key_128 ^^ i) (W, rc))) [0..<Suc (Suc n)] =
      W # map (\<lambda>i. fst ((update_encrypt_key_128 ^^ i) ?x)) [0..<Suc n]"
    by (simp add: map_upt_Suc funpow_swap1 del: upt_Suc)
  ultimately show ?case
    by (simp add: p(1) del: upt_Suc)
qed

lemma take_drop_concat:
  assumes "\<forall>xs \<in> set xss. length xs = n" "r < length xss"
  shows "take n (drop (r * n) (concat xss @ rest)) = xss ! r"
  using assms
proof (induction xss arbitrary: r)
  case (Cons xs xss)
  then show ?case by (cases r) (simp_all add: add.commute)
qed simp

lemma aes_set_key_128:
  assumes "length key = 16" "length (ksch ctx) = 240"
  shows "\<exists>ctx'. aes_set_key key 16 ctx = (0, ctx') \<and> unat (rnd ctx') = 10 \<and> 176 \<le> length (ksch ctx') \<and>
    (\<forall>r \<le> 10. take 16 (round_key ctx' r) = fst (key_128 key r))"
proof -
  let ?ks = "key @ drop 16 (ksch ctx)"
  let ?ks' = "fst (set_key_loop 16 176 16 (?ks, 1))"
  let ?ctx = "ctx\<lparr>ksch := ?ks', rnd := 10\<rparr>"
  obtain rest where r: "?ks' = concat (map (\<lambda>i. fst (key_128 key i)) [0..<11]) @ rest"
    using set_key_loop_128 [of key "[]" 10 "drop 16 (ksch ctx)" 176 1] assms by auto
  have "length (concat (map (\<lambda>i. fst (key_128 key i)) [0..<11])) = 176"
    by (simp add: length_concat o_def len_simps assms(1) sum_list_triv)
  then have "176 \<le> length ?ks'" unfolding r by simp
  moreover have "take 16 (round_key ?ctx r) = fst (key_128 key r)" if "r \<le> 10" for r
    using that take_drop_concat [of "map (\<lambda>i. fst (key_128 key i)) [0..<11]" 16 r rest] assms(1)
    by (auto simp: round_key_def N_BLOCK_def r len_simps)
  moreover have "aes_set_key key 16 ctx = (0, ?ctx)"
    using assms by (simp add: aes_set_key_def Let_def case_prod_beta push_bit_eq_mult drop_bit_eq_div)
  ultimately show ?thesis by (intro exI [of _ ?ctx]) auto
qed

lemma add_round_key_take: "add_round_key s (take 16 k) = add_round_key s k"
  by (simp add: add_round_key_def xor_block_def N_BLOCK_def)

lemma rounds_take: "aes.rounds s (map (take 16) ks) = aes.rounds s ks"
  by (simp add: aes.rounds_def foldl_map add_round_key_take)

text \<open>Only the first block of a round key counts.\<close>

lemma aes_encrypt_round_keys:
  assumes "unat (rnd ctx) = n" "0 < n" "\<forall>r \<le> n. take 16 (round_key ctx r) = take 16 (rk r)"
  shows "aes_encrypt inb out ctx =
    (0, add_round_key (shift_sub_rows (aes.rounds (add_round_key inb (rk 0)) (map rk [1..<n]))) (rk n))"
proof -
  have "map (take 16) (map (round_key ctx) [1..<n]) = map (take 16) (map rk [1..<n])" using assms(3) by simp
  then have "aes.rounds s (map (round_key ctx) [1..<n]) = aes.rounds s (map rk [1..<n])" for s
    by (metis rounds_take)
  moreover have "add_round_key s (round_key ctx r) = add_round_key s (rk r)" if "r \<le> n" for s r
    using assms(3) that add_round_key_take by metis
  moreover have "rnd ctx \<noteq> 0" using assms(1,2) by auto
  ultimately show ?thesis using assms(1) by (simp add: aes_encrypt_rounds)
qed

lemma aes_encrypt_128_equiv:
  assumes "length key = 16" "length inb = 16" "length (ksch ctx) = 240"
    and "aes_set_key key 16 ctx = (ret, ctx')"
  shows "ret = 0 \<and> aes_encrypt inb out ctx' = (0, fst (aes_encrypt_128 inb key))"
proof -
  have c: "ret = 0" "unat (rnd ctx') = 10" "\<forall>r \<le> 10. take 16 (round_key ctx' r) = fst (key_128 key r)"
    using aes_set_key_128 [OF assms(1,3)] assms(4) by auto
  have "take 16 (fst (key_128 key r)) = fst (key_128 key r)" for r using assms(1) by (simp add: len_simps)
  then have "\<forall>r \<le> 10. take 16 (round_key ctx' r) = take 16 (fst (key_128 key r))" using c(3) by simp
  from aes_encrypt_round_keys [OF c(2) _ this, of inb out] show ?thesis
    using c(1) encrypt_128_rounds [OF assms(1), of inb] by simp
qed

section \<open>256-bit keys\<close>

lemma set_key_step_first_half:
  "set_key_step 32 32 ([a0, a1, a2, a3, a4, a5, a6, a7, a8, a9, a10, a11, a12, a13, a14, a15] @ [b0, b1, b2, b3, b4, b5, b6, b7, b8, b9, b10, b11, b12, b13, b14, b15] @ [v0, v1, v2, v3, v4, v5, v6, v7, v8, v9, v10, v11, v12, v13, v14, v15] @ post, rc) =
     ([a0, a1, a2, a3, a4, a5, a6, a7, a8, a9, a10, a11, a12, a13, a14, a15] @ [b0, b1, b2, b3, b4, b5, b6, b7, b8, b9, b10, b11, b12, b13, b14, b15] @ [a0 XOR (s_box b13 XOR rc), a1 XOR s_box b14, a2 XOR s_box b15, a3 XOR s_box b12, v4, v5, v6, v7, v8, v9, v10, v11, v12, v13, v14, v15] @ post, f2_byte rc)"
  "set_key_step 32 36 ([a0, a1, a2, a3, a4, a5, a6, a7, a8, a9, a10, a11, a12, a13, a14, a15] @ [b0, b1, b2, b3, b4, b5, b6, b7, b8, b9, b10, b11, b12, b13, b14, b15] @ [v0, v1, v2, v3, v4, v5, v6, v7, v8, v9, v10, v11, v12, v13, v14, v15] @ post, rc) =
     ([a0, a1, a2, a3, a4, a5, a6, a7, a8, a9, a10, a11, a12, a13, a14, a15] @ [b0, b1, b2, b3, b4, b5, b6, b7, b8, b9, b10, b11, b12, b13, b14, b15] @ [v0, v1, v2, v3, a4 XOR v0, a5 XOR v1, a6 XOR v2, a7 XOR v3, v8, v9, v10, v11, v12, v13, v14, v15] @ post, rc)"
  "set_key_step 32 40 ([a0, a1, a2, a3, a4, a5, a6, a7, a8, a9, a10, a11, a12, a13, a14, a15] @ [b0, b1, b2, b3, b4, b5, b6, b7, b8, b9, b10, b11, b12, b13, b14, b15] @ [v0, v1, v2, v3, v4, v5, v6, v7, v8, v9, v10, v11, v12, v13, v14, v15] @ post, rc) =
     ([a0, a1, a2, a3, a4, a5, a6, a7, a8, a9, a10, a11, a12, a13, a14, a15] @ [b0, b1, b2, b3, b4, b5, b6, b7, b8, b9, b10, b11, b12, b13, b14, b15] @ [v0, v1, v2, v3, v4, v5, v6, v7, a8 XOR v4, a9 XOR v5, a10 XOR v6, a11 XOR v7, v12, v13, v14, v15] @ post, rc)"
  "set_key_step 32 44 ([a0, a1, a2, a3, a4, a5, a6, a7, a8, a9, a10, a11, a12, a13, a14, a15] @ [b0, b1, b2, b3, b4, b5, b6, b7, b8, b9, b10, b11, b12, b13, b14, b15] @ [v0, v1, v2, v3, v4, v5, v6, v7, v8, v9, v10, v11, v12, v13, v14, v15] @ post, rc) =
     ([a0, a1, a2, a3, a4, a5, a6, a7, a8, a9, a10, a11, a12, a13, a14, a15] @ [b0, b1, b2, b3, b4, b5, b6, b7, b8, b9, b10, b11, b12, b13, b14, b15] @ [v0, v1, v2, v3, v4, v5, v6, v7, v8, v9, v10, v11, a12 XOR v8, a13 XOR v9, a14 XOR v10, a15 XOR v11] @ post, rc)"
  by (simp_all add: set_key_step_def Let_def)

lemma set_key_step_second_half:
  "set_key_step 32 48 ([a0, a1, a2, a3, a4, a5, a6, a7, a8, a9, a10, a11, a12, a13, a14, a15] @ [b0, b1, b2, b3, b4, b5, b6, b7, b8, b9, b10, b11, b12, b13, b14, b15] @ [u0, u1, u2, u3, u4, u5, u6, u7, u8, u9, u10, u11, u12, u13, u14, u15] @ [v0, v1, v2, v3, v4, v5, v6, v7, v8, v9, v10, v11, v12, v13, v14, v15] @ post, rc) =
     ([a0, a1, a2, a3, a4, a5, a6, a7, a8, a9, a10, a11, a12, a13, a14, a15] @ [b0, b1, b2, b3, b4, b5, b6, b7, b8, b9, b10, b11, b12, b13, b14, b15] @ [u0, u1, u2, u3, u4, u5, u6, u7, u8, u9, u10, u11, u12, u13, u14, u15] @ [b0 XOR s_box u12, b1 XOR s_box u13, b2 XOR s_box u14, b3 XOR s_box u15, v4, v5, v6, v7, v8, v9, v10, v11, v12, v13, v14, v15] @ post, rc)"
  "set_key_step 32 52 ([a0, a1, a2, a3, a4, a5, a6, a7, a8, a9, a10, a11, a12, a13, a14, a15] @ [b0, b1, b2, b3, b4, b5, b6, b7, b8, b9, b10, b11, b12, b13, b14, b15] @ [u0, u1, u2, u3, u4, u5, u6, u7, u8, u9, u10, u11, u12, u13, u14, u15] @ [v0, v1, v2, v3, v4, v5, v6, v7, v8, v9, v10, v11, v12, v13, v14, v15] @ post, rc) =
     ([a0, a1, a2, a3, a4, a5, a6, a7, a8, a9, a10, a11, a12, a13, a14, a15] @ [b0, b1, b2, b3, b4, b5, b6, b7, b8, b9, b10, b11, b12, b13, b14, b15] @ [u0, u1, u2, u3, u4, u5, u6, u7, u8, u9, u10, u11, u12, u13, u14, u15] @ [v0, v1, v2, v3, b4 XOR v0, b5 XOR v1, b6 XOR v2, b7 XOR v3, v8, v9, v10, v11, v12, v13, v14, v15] @ post, rc)"
  "set_key_step 32 56 ([a0, a1, a2, a3, a4, a5, a6, a7, a8, a9, a10, a11, a12, a13, a14, a15] @ [b0, b1, b2, b3, b4, b5, b6, b7, b8, b9, b10, b11, b12, b13, b14, b15] @ [u0, u1, u2, u3, u4, u5, u6, u7, u8, u9, u10, u11, u12, u13, u14, u15] @ [v0, v1, v2, v3, v4, v5, v6, v7, v8, v9, v10, v11, v12, v13, v14, v15] @ post, rc) =
     ([a0, a1, a2, a3, a4, a5, a6, a7, a8, a9, a10, a11, a12, a13, a14, a15] @ [b0, b1, b2, b3, b4, b5, b6, b7, b8, b9, b10, b11, b12, b13, b14, b15] @ [u0, u1, u2, u3, u4, u5, u6, u7, u8, u9, u10, u11, u12, u13, u14, u15] @ [v0, v1, v2, v3, v4, v5, v6, v7, b8 XOR v4, b9 XOR v5, b10 XOR v6, b11 XOR v7, v12, v13, v14, v15] @ post, rc)"
  "set_key_step 32 60 ([a0, a1, a2, a3, a4, a5, a6, a7, a8, a9, a10, a11, a12, a13, a14, a15] @ [b0, b1, b2, b3, b4, b5, b6, b7, b8, b9, b10, b11, b12, b13, b14, b15] @ [u0, u1, u2, u3, u4, u5, u6, u7, u8, u9, u10, u11, u12, u13, u14, u15] @ [v0, v1, v2, v3, v4, v5, v6, v7, v8, v9, v10, v11, v12, v13, v14, v15] @ post, rc) =
     ([a0, a1, a2, a3, a4, a5, a6, a7, a8, a9, a10, a11, a12, a13, a14, a15] @ [b0, b1, b2, b3, b4, b5, b6, b7, b8, b9, b10, b11, b12, b13, b14, b15] @ [u0, u1, u2, u3, u4, u5, u6, u7, u8, u9, u10, u11, u12, u13, u14, u15] @ [v0, v1, v2, v3, v4, v5, v6, v7, v8, v9, v10, v11, b12 XOR v8, b13 XOR v9, b14 XOR v10, b15 XOR v11] @ post, rc)"
  by (simp_all add: set_key_step_def Let_def)

lemma chain_word_double_block:
  "chain_word [a0, a1, a2, a3, a4, a5, a6, a7, a8, a9, a10, a11, a12, a13, a14, a15, b0, b1, b2, b3, b4, b5, b6, b7, b8, b9, b10, b11, b12, b13, b14, b15] 4 =
     [a0, a1, a2, a3, a4 XOR a0, a5 XOR a1, a6 XOR a2, a7 XOR a3, a8, a9, a10, a11, a12, a13, a14, a15, b0, b1, b2, b3, b4, b5, b6, b7, b8, b9, b10, b11, b12, b13, b14, b15]"
  "chain_word [a0, a1, a2, a3, a4, a5, a6, a7, a8, a9, a10, a11, a12, a13, a14, a15, b0, b1, b2, b3, b4, b5, b6, b7, b8, b9, b10, b11, b12, b13, b14, b15] 8 =
     [a0, a1, a2, a3, a4, a5, a6, a7, a8 XOR a4, a9 XOR a5, a10 XOR a6, a11 XOR a7, a12, a13, a14, a15, b0, b1, b2, b3, b4, b5, b6, b7, b8, b9, b10, b11, b12, b13, b14, b15]"
  "chain_word [a0, a1, a2, a3, a4, a5, a6, a7, a8, a9, a10, a11, a12, a13, a14, a15, b0, b1, b2, b3, b4, b5, b6, b7, b8, b9, b10, b11, b12, b13, b14, b15] 12 =
     [a0, a1, a2, a3, a4, a5, a6, a7, a8, a9, a10, a11, a12 XOR a8, a13 XOR a9, a14 XOR a10, a15 XOR a11, b0, b1, b2, b3, b4, b5, b6, b7, b8, b9, b10, b11, b12, b13, b14, b15]"
  "chain_word [a0, a1, a2, a3, a4, a5, a6, a7, a8, a9, a10, a11, a12, a13, a14, a15, b0, b1, b2, b3, b4, b5, b6, b7, b8, b9, b10, b11, b12, b13, b14, b15] 20 =
     [a0, a1, a2, a3, a4, a5, a6, a7, a8, a9, a10, a11, a12, a13, a14, a15, b0, b1, b2, b3, b4 XOR b0, b5 XOR b1, b6 XOR b2, b7 XOR b3, b8, b9, b10, b11, b12, b13, b14, b15]"
  "chain_word [a0, a1, a2, a3, a4, a5, a6, a7, a8, a9, a10, a11, a12, a13, a14, a15, b0, b1, b2, b3, b4, b5, b6, b7, b8, b9, b10, b11, b12, b13, b14, b15] 24 =
     [a0, a1, a2, a3, a4, a5, a6, a7, a8, a9, a10, a11, a12, a13, a14, a15, b0, b1, b2, b3, b4, b5, b6, b7, b8 XOR b4, b9 XOR b5, b10 XOR b6, b11 XOR b7, b12, b13, b14, b15]"
  "chain_word [a0, a1, a2, a3, a4, a5, a6, a7, a8, a9, a10, a11, a12, a13, a14, a15, b0, b1, b2, b3, b4, b5, b6, b7, b8, b9, b10, b11, b12, b13, b14, b15] 28 =
     [a0, a1, a2, a3, a4, a5, a6, a7, a8, a9, a10, a11, a12, a13, a14, a15, b0, b1, b2, b3, b4, b5, b6, b7, b8, b9, b10, b11, b12 XOR b8, b13 XOR b9, b14 XOR b10, b15 XOR b11]"
  by (simp_all add: chain_word_def xor_word_def)

lemma xor_word_double_block:
  "xor_word 0 x0 x1 x2 x3 [a0, a1, a2, a3, a4, a5, a6, a7, a8, a9, a10, a11, a12, a13, a14, a15, b0, b1, b2, b3, b4, b5, b6, b7, b8, b9, b10, b11, b12, b13, b14, b15] =
     [a0 XOR x0, a1 XOR x1, a2 XOR x2, a3 XOR x3, a4, a5, a6, a7, a8, a9, a10, a11, a12, a13, a14, a15, b0, b1, b2, b3, b4, b5, b6, b7, b8, b9, b10, b11, b12, b13, b14, b15]"
  "xor_word 16 x0 x1 x2 x3 [a0, a1, a2, a3, a4, a5, a6, a7, a8, a9, a10, a11, a12, a13, a14, a15, b0, b1, b2, b3, b4, b5, b6, b7, b8, b9, b10, b11, b12, b13, b14, b15] =
     [a0, a1, a2, a3, a4, a5, a6, a7, a8, a9, a10, a11, a12, a13, a14, a15, b0 XOR x0, b1 XOR x1, b2 XOR x2, b3 XOR x3, b4, b5, b6, b7, b8, b9, b10, b11, b12, b13, b14, b15]"
  by (simp_all add: xor_word_def)

lemma window_256_first:
  assumes "length A = 16" "length B = 16" "length V = 16"
  shows "set_key_step 32 44 (set_key_step 32 40 (set_key_step 32 36 (set_key_step 32 32 (A @ B @ V @ post, rc)))) =
    (A @ B @ take 16 (fst (update_encrypt_key_256 (A @ B, rc))) @ post, snd (update_encrypt_key_256 (A @ B, rc)))"
proof -
  obtain a0 a1 a2 a3 a4 a5 a6 a7 a8 a9 a10 a11 a12 a13 a14 a15 where A: "A = [a0, a1, a2, a3, a4, a5, a6, a7, a8, a9, a10, a11, a12, a13, a14, a15]"
    using assms(1) by (rule block_cases)
  obtain b0 b1 b2 b3 b4 b5 b6 b7 b8 b9 b10 b11 b12 b13 b14 b15 where B: "B = [b0, b1, b2, b3, b4, b5, b6, b7, b8, b9, b10, b11, b12, b13, b14, b15]"
    using assms(2) by (rule block_cases)
  obtain v0 v1 v2 v3 v4 v5 v6 v7 v8 v9 v10 v11 v12 v13 v14 v15 where V: "V = [v0, v1, v2, v3, v4, v5, v6, v7, v8, v9, v10, v11, v12, v13, v14, v15]"
    using assms(3) by (rule block_cases)
  show ?thesis
    unfolding A B V set_key_step_first_half update_encrypt_key_256_def
    by (simp add: chain_word_double_block xor_word_double_block)
qed

lemma window_256_second:
  assumes "length A = 16" "length B = 16" "length V = 16"
  shows "set_key_step 32 60 (set_key_step 32 56 (set_key_step 32 52 (set_key_step 32 48
      (A @ B @ take 16 (fst (update_encrypt_key_256 (A @ B, rc))) @ V @ post, rc')))) =
    (A @ B @ fst (update_encrypt_key_256 (A @ B, rc)) @ post, rc')"
proof -
  obtain a0 a1 a2 a3 a4 a5 a6 a7 a8 a9 a10 a11 a12 a13 a14 a15 where A: "A = [a0, a1, a2, a3, a4, a5, a6, a7, a8, a9, a10, a11, a12, a13, a14, a15]"
    using assms(1) by (rule block_cases)
  obtain b0 b1 b2 b3 b4 b5 b6 b7 b8 b9 b10 b11 b12 b13 b14 b15 where B: "B = [b0, b1, b2, b3, b4, b5, b6, b7, b8, b9, b10, b11, b12, b13, b14, b15]"
    using assms(2) by (rule block_cases)
  obtain v0 v1 v2 v3 v4 v5 v6 v7 v8 v9 v10 v11 v12 v13 v14 v15 where V: "V = [v0, v1, v2, v3, v4, v5, v6, v7, v8, v9, v10, v11, v12, v13, v14, v15]"
    using assms(3) by (rule block_cases)
  define U where "U = take 16 (fst (update_encrypt_key_256 (A @ B, rc)))"
  have "length U = 16" using assms by (simp add: U_def len_simps)
  then obtain u0 u1 u2 u3 u4 u5 u6 u7 u8 u9 u10 u11 u12 u13 u14 u15 where u: "U = [u0, u1, u2, u3, u4, u5, u6, u7, u8, u9, u10, u11, u12, u13, u14, u15]"
    by (rule block_cases)
  have "fst (update_encrypt_key_256 (A @ B, rc)) = U @ foldl chain_word (xor_word 0 (s_box (U ! 12)) (s_box (U ! 13)) (s_box (U ! 14)) (s_box (U ! 15)) B) [4, 8, 12]"
    unfolding U_def A B update_encrypt_key_256_def
    by (simp add: chain_word_double_block xor_word_double_block chain_word_block xor_word_block)
  then show ?thesis
    unfolding U_def [symmetric] unfolding A B V u set_key_step_second_half
    by (simp add: chain_word_block xor_word_block)
qed

lemma set_key_steps_256:
  assumes "length pre mod 32 = 0" "32 \<le> c" "length pre + c + 12 < hi"
  shows "set_key_loop 32 hi (length pre + c) (pre @ u, rc) =
    (case set_key_step 32 (c + 12) (set_key_step 32 (c + 8) (set_key_step 32 (c + 4) (set_key_step 32 c (u, rc)))) of
       (u', rc') \<Rightarrow> set_key_loop 32 hi (length pre + (c + 16)) (pre @ u', rc'))"
proof -
  have st: "set_key_step 32 (length pre + d) (pre @ u, r) =
      (pre @ fst (set_key_step 32 d (u, r)), snd (set_key_step 32 d (u, r)))" if "32 \<le> d" for d u r
    by (rule set_key_step_append) (use assms(1) that in simp_all)
  show ?thesis
    using set_key_loop_4 [of "length pre + c" hi 32] assms(2,3) by (simp add: add.assoc st case_prod_beta)
qed

lemma set_key_half_window_256:
  assumes "length A = 16" "length B = 16" "length V = 16" "length pre mod 32 = 0" "length pre + 48 \<le> hi"
  shows "set_key_loop 32 hi (length pre + 32) (pre @ A @ B @ V @ post, rc) =
    set_key_loop 32 hi (length pre + 48)
      (pre @ A @ B @ take 16 (fst (update_encrypt_key_256 (A @ B, rc))) @ post, snd (update_encrypt_key_256 (A @ B, rc)))"
  using set_key_steps_256 [OF assms(4), of 32 hi "A @ B @ V @ post" rc] assms(5)
  by (simp add: window_256_first [OF assms(1-3)])

lemma set_key_window_256:
  assumes "length A = 16" "length B = 16" "length V = 16" "length V' = 16" "length pre mod 32 = 0" "length pre + 64 \<le> hi"
  shows "set_key_loop 32 hi (length pre + 32) (pre @ A @ B @ V @ V' @ post, rc) =
    set_key_loop 32 hi (length pre + 64)
      (pre @ A @ B @ fst (update_encrypt_key_256 (A @ B, rc)) @ post, snd (update_encrypt_key_256 (A @ B, rc)))"
proof -
  let ?U = "take 16 (fst (update_encrypt_key_256 (A @ B, rc)))"
  have "set_key_loop 32 hi (length pre + 48) (pre @ A @ B @ ?U @ V' @ post, r) =
    set_key_loop 32 hi (length pre + 64) (pre @ A @ B @ fst (update_encrypt_key_256 (A @ B, rc)) @ post, r)" for r
    using set_key_steps_256 [OF assms(5), of 48 hi "A @ B @ ?U @ V' @ post" r] assms(6)
    by (simp add: window_256_second [OF assms(1,2,4)])
  then show ?thesis using set_key_half_window_256 [OF assms(1-3,5), of hi "V' @ post" rc] assms(6) by simp
qed

lemma set_key_loop_256:
  assumes "length W = 32" "length pre mod 32 = 0" "32 * n + 16 \<le> length post" "hi = length pre + 32 * (n + 1) + 16"
  shows "\<exists>rest. fst (set_key_loop 32 hi (length pre + 32) (pre @ W @ post, rc)) =
    pre @ concat (map (\<lambda>i. fst ((update_encrypt_key_256 ^^ i) (W, rc))) [0..<Suc n])
      @ take 16 (fst ((update_encrypt_key_256 ^^ Suc n) (W, rc))) @ rest"
  using assms
proof (induction n arbitrary: W pre post rc)
  case 0
  define A B V where "A = take 16 W" and "B = drop 16 W" and "V = take 16 post"
  have e: "W = A @ B" "post = V @ drop 16 post" and l: "length A = 16" "length B = 16" "length V = 16"
    using 0 by (simp_all add: A_def B_def V_def)
  have "set_key_loop 32 hi (length pre + 32) (pre @ A @ B @ V @ drop 16 post, rc) =
      (pre @ A @ B @ take 16 (fst (update_encrypt_key_256 (A @ B, rc))) @ drop 16 post, snd (update_encrypt_key_256 (A @ B, rc)))"
    using set_key_half_window_256 [OF l 0(2), of hi] 0(4) by (simp add: set_key_loop_done)
  then show ?case by (subst e(2)) (simp add: e(1))
next
  case (Suc n)
  define A B V V' post' where "A = take 16 W" and "B = drop 16 W" and "V = take 16 post"
    and "V' = take 16 (drop 16 post)" and "post' = drop 32 post"
  let ?x = "update_encrypt_key_256 (W, rc)"
  have W: "W = A @ B" and l: "length A = 16" "length B = 16" "length V = 16" "length V' = 16" "32 * n + 16 \<le> length post'"
    using Suc.prems by (simp_all add: A_def B_def V_def V'_def post'_def)
  have p: "post = V @ V' @ post'" 
    unfolding V_def V'_def post'_def by (metis append_take_drop_id drop_drop numeral_Bit0)
  have "set_key_loop 32 hi (length pre + 32) (pre @ A @ B @ V @ V' @ post', rc) =
      set_key_loop 32 hi (length (pre @ W) + 32) ((pre @ W) @ fst ?x @ post', snd ?x)"
    using set_key_window_256 [OF l(1-4) Suc.prems(2), of hi] Suc.prems(1,4) by (simp add: W add.commute)
  moreover have "\<exists>rest. fst (set_key_loop 32 hi (length (pre @ W) + 32) ((pre @ W) @ fst ?x @ post', snd ?x)) =
      (pre @ W) @ concat (map (\<lambda>i. fst ((update_encrypt_key_256 ^^ i) (fst ?x, snd ?x))) [0..<Suc n])
        @ take 16 (fst ((update_encrypt_key_256 ^^ Suc n) (fst ?x, snd ?x))) @ rest"
    using Suc.prems l(5) by (intro Suc.IH) (simp_all add: len_simps)
  moreover have "map (\<lambda>i. fst ((update_encrypt_key_256 ^^ i) (W, rc))) [0..<Suc (Suc n)] =
      W # map (\<lambda>i. fst ((update_encrypt_key_256 ^^ i) ?x)) [0..<Suc n]"
    by (simp add: map_upt_Suc funpow_swap1 del: upt_Suc)
  moreover have "(update_encrypt_key_256 ^^ Suc (Suc n)) (W, rc) = (update_encrypt_key_256 ^^ Suc n) ?x"
    by (simp add: funpow_swap1)
  ultimately show ?case
    by (simp add: p W del: upt_Suc funpow.simps)
qed

lemma take_drop_half:
  assumes "take 32 xs = ys" "length ys = 32" "b \<le> 16"
  shows "take 16 (drop b xs) = take 16 (drop b ys)"
proof -
  have "take 16 (drop b ys) = take 16 (drop b (take 32 xs))" by (simp add: assms(1))
  also have "\<dots> = take 16 (drop b xs)" using assms(3) by (simp add: drop_take)
  finally show ?thesis by simp
qed

lemma aes_set_key_256:
  assumes "length key = 32" "length (ksch ctx) = 240"
  shows "\<exists>ctx'. aes_set_key key 32 ctx = (0, ctx') \<and> unat (rnd ctx') = 14 \<and>
    (\<forall>r \<le> 14. take 16 (round_key ctx' r) = take 16 (round_256 key r))"
proof -
  let ?ks = "key @ drop 32 (ksch ctx)"
  let ?ks' = "fst (set_key_loop 32 240 32 (?ks, 1))"
  let ?ctx = "ctx\<lparr>ksch := ?ks', rnd := 14\<rparr>"
  let ?keys = "map (\<lambda>i. fst (key_256 key i)) [0..<7]"
  obtain rest where r: "?ks' = concat ?keys @ take 16 (fst (key_256 key 7)) @ rest"
  proof -
    have c: "length [] mod 32 = (0 :: nat)" "32 * 6 + 16 \<le> length (drop 32 (ksch ctx))" "240 = length [] + 32 * (6 + 1) + 16" "Suc 6 = 7"
      using assms(2) by simp_all
    show thesis using set_key_loop_256 [OF assms(1) c(1-3), of 1, unfolded c(4) append_Nil list.size add_0] that by blast
  qed
  have len: "\<forall>xs \<in> set ?keys. length xs = 32" using assms(1) by (auto simp: len_simps)
  have "take 16 (round_key ?ctx r) = take 16 (round_256 key r)" if "r \<le> 14" for r
  proof (cases "r = 14")
    case True
    have "length (concat ?keys) = 224" by (simp add: length_concat o_def len_simps assms(1) sum_list_triv)
    then show ?thesis using True assms(1) by (simp add: round_key_def N_BLOCK_def r round_256_def len_simps del: funpow.simps)
  next
    case False
    then have h: "r div 2 < 7" using that by simp
    have at: "r * 16 = r mod 2 * 16 + r div 2 * 32" by presburger
    have "take 32 (drop (r div 2 * 32) ?ks') = fst (key_256 key (r div 2))"
      using take_drop_concat [OF len, of "r div 2" "take 16 (fst (key_256 key 7)) @ rest"] h by (simp add: r)
    then have "take 16 (drop (r mod 2 * 16) (drop (r div 2 * 32) ?ks')) = take 16 (drop (r mod 2 * 16) (fst (key_256 key (r div 2))))"
      by (rule take_drop_half) (use assms(1) in \<open>simp_all add: len_simps\<close>)
    moreover have "drop (r mod 2 * 16) (fst (key_256 key (r div 2))) = round_256 key r"
      by (simp add: round_256_def odd_iff_mod_2_eq_one)
    ultimately show ?thesis by (simp add: round_key_def N_BLOCK_def at)
  qed
  moreover have "aes_set_key key 32 ctx = (0, ?ctx)"
    using assms by (simp add: aes_set_key_def Let_def case_prod_beta push_bit_eq_mult drop_bit_eq_div)
  ultimately show ?thesis by (intro exI [of _ ?ctx]) auto
qed

lemma aes_encrypt_256_equiv:
  assumes "length key = 32" "length inb = 16" "length (ksch ctx) = 240"
    and "aes_set_key key 32 ctx = (ret, ctx')"
  shows "ret = 0 \<and> aes_encrypt inb out ctx' = (0, fst (aes_encrypt_256 inb key))"
proof -
  have c: "ret = 0" "unat (rnd ctx') = 14" "\<forall>r \<le> 14. take 16 (round_key ctx' r) = take 16 (round_256 key r)"
    using aes_set_key_256 [OF assms(1,3)] assms(4) by auto
  have "round_256 key 0 = key" by (simp add: round_256_def)
  then show ?thesis
    using c(1) aes_encrypt_round_keys [OF c(2) _ c(3), of inb out] encrypt_256_rounds [OF assms(1), of inb] by simp
qed

end
