(* ===== verification/Cmac_Spec.thy ===== *)
theory Cmac_Spec imports Crypto_Toolbox AES_Schedule begin
unbundle bit_operations_syntax

text \<open>AES-CMAC as RFC 4493 defines it, on 128-bit words and big-endian messages, and the proof that
  \<open>aes_cmac\<close> of \<open>aes_cmac.cc\<close>, which works on little-endian buffers from the last block to the
  first, computes it.\<close>

section \<open>Specification\<close>

text \<open>A little-endian block as a 128-bit word, and a big-endian one.\<close>

fun le_word :: "u8 list \<Rightarrow> 128 word" where
  "le_word [] = 0"
| "le_word (b # bs) = ucast b XOR push_bit 8 (le_word bs)"

definition be_word :: "u8 list \<Rightarrow> 128 word" where
  "be_word bs = le_word (rev bs)"

definition word_bytes :: "128 word \<Rightarrow> u8 list" where
  "word_bytes v = map (\<lambda>i. ucast (drop_bit (8 * i) v)) [0..<16]"

definition cmac_dbl :: "128 word \<Rightarrow> 128 word" where
  "cmac_dbl v = (if bit v 127 then push_bit 1 v XOR 0x87 else push_bit 1 v)"

fun cbc_mac :: "(128 word \<Rightarrow> 128 word) \<Rightarrow> 128 word \<Rightarrow> 128 word list \<Rightarrow> 128 word" where
  "cbc_mac E x [] = x"
| "cbc_mac E x (m # ms) = cbc_mac E (E (m XOR x)) ms"

definition rfc4493 :: "(128 word \<Rightarrow> 128 word) \<Rightarrow> u8 list \<Rightarrow> 128 word" where
  "rfc4493 E msg =
     (let n = (if msg = [] then 1 else (length msg + 15) div 16);
          k1 = cmac_dbl (E 0);
          k2 = cmac_dbl k1;
          ms = map (\<lambda>i. be_word (take 16 (drop (16 * i) msg))) [0..<n - 1];
          last_m = drop (16 * (n - 1)) msg;
          ml = (if length last_m = 16 then be_word last_m XOR k1
                else be_word (last_m @ 0x80 # replicate (15 - length last_m) 0) XOR k2)
      in cbc_mac E 0 (ms @ [ml]))"

definition aes_word :: "u8 list \<Rightarrow> 128 word \<Rightarrow> 128 word" where
  "aes_word key v = le_word (aes_128 key (word_bytes v))"

section \<open>Words and bytes\<close>

lemma bit_le_word:
  "bit (le_word bs) n \<longleftrightarrow> n < 128 \<and> n div 8 < length bs \<and> bit (bs ! (n div 8)) (n mod 8)"
proof (induction bs arbitrary: n)
  case (Cons b bs)
  show ?case
  proof (cases "n < 8")
    case True
    then show ?thesis by (simp add: bit_xor_iff bit_push_bit_iff bit_unsigned_iff)
  next
    case False
    then have n: "n div 8 = Suc ((n - 8) div 8)" "n mod 8 = (n - 8) mod 8"
      by (simp_all add: le_div_geq le_mod_geq)
    have "\<not> bit b n" using False by (auto dest: bit_imp_le_length)
    then show ?thesis
      using False Cons.IH [of "n - 8"]
      by (auto simp: bit_xor_iff bit_push_bit_iff bit_unsigned_iff n)
  qed
qed simp

lemma word_bytes_le_word:
  assumes "length bs = 16"
  shows "word_bytes (le_word bs) = bs"
proof (rule nth_equalityI)
  fix i assume "i < length (word_bytes (le_word bs))"
  then have i: "i < 16" by (simp add: word_bytes_def)
  show "word_bytes (le_word bs) ! i = bs ! i"
  proof (rule bit_word_eqI)
    fix n assume n: "n < LENGTH(8)"
    then have "(8 * i + n) div 8 = i" "(8 * i + n) mod 8 = n" "8 * i + n < 128"
      using i by simp_all
    then show "bit (word_bytes (le_word bs) ! i) n = bit (bs ! i) n"
      using i n assms by (simp add: word_bytes_def bit_unsigned_iff bit_drop_bit_eq bit_le_word)
  qed
qed (simp add: word_bytes_def assms)

lemma ucast_xor_128: "(ucast (x XOR y) :: 128 word) = ucast x XOR ucast y" for x y :: u8
  by (simp add: unsigned_xor_eq)

lemma le_word_xor: "length a = length b \<Longrightarrow> le_word (map2 (XOR) a b) = le_word a XOR le_word b"
  by (induction a b rule: list_induct2) (simp_all add: ucast_xor_128 push_bit_xor ac_simps xor.left_commute)

lemma le_word_zeros: "le_word (replicate n 0) = 0"
  by (induction n) simp_all

lemma word_bytes_0: "word_bytes 0 = replicate 16 0"
  using word_bytes_le_word [of "replicate 16 0"] by (simp add: le_word_zeros)

lemma and_0x80: "b AND 0x80 \<noteq> 0 \<longleftrightarrow> bit b 7" for b :: u8
proof -
  have "b AND 2 ^ 7 = 0 \<longleftrightarrow> \<not> bit b 7" by (rule and_exp_eq_0_iff_not_bit)
  then show ?thesis by simp
qed

lemma leftshift_loop_nth:
  "i < length bs \<Longrightarrow> leftshift_loop ov bs ! i =
     push_bit 1 (bs ! i) OR (if i = 0 then ov else of_bool (bit (bs ! (i - 1)) 7))"
proof (induction bs arbitrary: ov i)
  case (Cons b bs)
  then show ?case
    by (cases i) (auto simp: and_0x80 nth_Cons split: nat.split)
qed simp

lemma length_leftshift_loop [len_simps]: "length (leftshift_loop ov bs) = length bs"
  by (induction bs arbitrary: ov) simp_all

lemma bit_leftshift_byte:
  assumes "m < 8"
  shows "bit (push_bit 1 (b :: u8) OR of_bool c) m = (if m = 0 then c else bit b (m - 1))"
  unfolding bit_or_iff using assms by (subst bit_push_bit_iff) (auto simp: bit_1_iff)

lemma leftshift_onebit_value:
  assumes "length bs = 16"
  shows "le_word (leftshift_onebit bs) = push_bit 1 (le_word bs)"
proof (rule bit_word_eqI)
  fix n assume n: "n < LENGTH(128)"
  let ?i = "n div 8" and ?m = "n mod 8"
  have i: "?i < 16" "?m < 8" using n by simp_all
  have nth: "leftshift_onebit bs ! ?i = push_bit 1 (bs ! ?i) OR of_bool (0 < ?i \<and> bit (bs ! (?i - 1)) 7)"
    using leftshift_loop_nth [of ?i bs 0] i assms
    by (simp add: leftshift_onebit_def kOctet16Length_def)
  have l: "length (leftshift_onebit bs) = 16"
    using assms by (simp add: leftshift_onebit_def kOctet16Length_def len_simps)
  have "bit (le_word (leftshift_onebit bs)) n =
      (if ?m = 0 then 0 < ?i \<and> bit (bs ! (?i - 1)) 7 else bit (bs ! ?i) (?m - 1))"
    using n i l unfolding bit_le_word nth bit_leftshift_byte [OF i(2)] by simp
  also have "\<dots> \<longleftrightarrow> 1 \<le> n \<and> bit (le_word bs) (n - 1)"
  proof (cases "?m = 0")
    case True
    then have eq: "n = 8 * ?i" using div_mult_mod_eq [of n 8] by simp
    show ?thesis
    proof (cases ?i)
      case 0
      then have "n = 0" using eq by simp
      then show ?thesis by simp
    next
      case (Suc j)
      then have n1: "n - 1 = 8 * j + 7" "1 \<le> n" "j < 16" using eq i by simp_all
      then show ?thesis using True Suc assms unfolding n1(1) by (simp add: bit_le_word)
    qed
  next
    case False
    then have n1: "n - 1 = 8 * ?i + (?m - 1)" "1 \<le> n" "?m - 1 < 8"
      using div_mult_mod_eq [of n 8] i by simp_all
    have "bit (le_word bs) (8 * ?i + (?m - 1)) = bit (bs ! ?i) (?m - 1)"
      using i n1(3) assms unfolding bit_le_word by simp
    then show ?thesis using False n1 by simp
  qed
  also have "\<dots> \<longleftrightarrow> bit (push_bit 1 (le_word bs)) n"
    using n by (subst bit_push_bit_iff) simp
  finally show "bit (le_word (leftshift_onebit bs)) n \<longleftrightarrow> bit (push_bit 1 (le_word bs)) n" .
qed

lemma subkey_value:
  assumes "length p = 16"
  shows "length (if p ! 15 AND 0x80 \<noteq> 0 then xor_128 (leftshift_onebit p) const_Rb else leftshift_onebit p) = 16"
    and "le_word (if p ! 15 AND 0x80 \<noteq> 0 then xor_128 (leftshift_onebit p) const_Rb else leftshift_onebit p) =
      cmac_dbl (le_word p)"
proof -
  have l: "length (leftshift_onebit p) = 16"
    using assms by (simp add: leftshift_onebit_def kOctet16Length_def len_simps)
  have "le_word const_Rb = 0x87" by (simp add: const_Rb_def)
  moreover have "bit (le_word p) 127 = bit (p ! 15) 7" using assms by (simp add: bit_le_word)
  ultimately show "le_word (if p ! 15 AND 0x80 \<noteq> 0 then xor_128 (leftshift_onebit p) const_Rb else leftshift_onebit p) =
      cmac_dbl (le_word p)"
    using assms l unfolding and_0x80
    by (simp add: cmac_dbl_def leftshift_onebit_value xor_128_def le_word_xor const_Rb_def del: push_bit_numeral)
  show "length (if p ! 15 AND 0x80 \<noteq> 0 then xor_128 (leftshift_onebit p) const_Rb else leftshift_onebit p) = 16"
    using l by (simp add: xor_128_def const_Rb_def)
qed

section \<open>The chain of blocks\<close>

lemma aes_128_otf:
  assumes "length key = 16" "length message = 16"
  shows "aes_128 key message = rev (fst (aes_encrypt_128 (rev message) (rev key)))"
proof -
  obtain ret ctx where c: "aes_set_key (rev key) 16 stack_ctx = (ret, ctx)" by fastforce
  have "length (ksch stack_ctx) = 240" by (simp add: stack_ctx_def)
  then show ?thesis
    using aes_encrypt_128_equiv [OF _ _ _ c, of "rev message" "replicate kOctet16Length 0"] assms c
    by (simp add: aes_128_def)
qed

lemma length_aes_128 [len_simps]:
  assumes "length key = 16" "length message = 16"
  shows "length (aes_128 key message) = 16"
proof -
  have "length (add_round_key (shift_sub_rows s) k) = 16" if "length s = 16" "length k = 16" for s k
    using that aes.add_blk [OF aes.fin_blk] by simp
  moreover have "length (aes.rounds (add_round_key (rev message) (rev key))
      (map (\<lambda>i. fst (key_128 (rev key) i)) [1..<10])) = 16"
    using assms by (intro aes.rounds_blk) (auto simp: len_simps intro!: aes.add_blk)
  ultimately show ?thesis
    using assms by (simp add: aes_128_otf encrypt_128_rounds len_simps)
qed

definition text_blocks :: "nat \<Rightarrow> u8 list \<Rightarrow> u8 list list" where
  "text_blocks m tx = map (\<lambda>j. text_block tx (16 * j)) [0..<m]"

lemma text_block_put_other:
  assumes "off' + 16 \<le> off" "off + 16 \<le> length tx"
  shows "text_block (put_block tx off blk) off' = text_block tx off'"
proof -
  have "off' \<le> off" "16 \<le> off - off'" "off \<le> length tx" using assms by simp_all
  then show ?thesis
    by (simp add: text_block_def put_block_def kOctet16Length_def drop_take)
qed

lemma text_block_put_same:
  assumes "off \<le> length tx" "length blk = 16"
  shows "text_block (put_block tx off blk) off = blk"
  using assms by (simp add: text_block_def put_block_def kOctet16Length_def)

lemma cmac_loop:
  assumes "length key = 16" "length tx = 16 * n" "m \<le> n" "length x = 16"
  shows "snd (foldl (cmac_round key n) (tx, x) [Suc n - m..<Suc n]) =
    foldl (\<lambda>x b. aes_128 key (xor_128 b x)) x (rev (text_blocks m tx))"
  using assms(2-)
proof (induction m arbitrary: tx x)
  case (Suc m)
  let ?b = "xor_128 (text_block tx (16 * m)) x"
  let ?tx = "put_block tx (16 * m) ?b"
  have len: "length (text_block tx (16 * m)) = 16"
    using Suc.prems by (simp add: text_block_def kOctet16Length_def)
  then have b: "length ?b = 16" using Suc.prems by (simp add: xor_128_def)
  have upt: "[Suc n - Suc m..<Suc n] = (n - m) # [Suc n - m..<Suc n]"
    using Suc.prems(2) by (simp add: upt_conv_Cons Suc_diff_le del: upt_Suc)
  have "(n - (n - m)) * 16 = 16 * m" using Suc.prems(2) by simp
  then have st: "cmac_round key n (tx, x) (n - m) = (?tx, aes_128 key ?b)"
    using text_block_put_same [of "16 * m" tx ?b] Suc.prems b
    by (simp add: cmac_round_def kOctet16Length_def Let_def mult.commute [of m])
  have blocks: "text_blocks m ?tx = text_blocks m tx"
    using Suc.prems by (simp add: text_blocks_def text_block_put_other)
  have "length ?tx = 16 * n"
    using Suc.prems b by (simp add: put_block_def kOctet16Length_def)
  then have "snd (foldl (cmac_round key n) (?tx, aes_128 key ?b) [Suc n - m..<Suc n]) =
      foldl (\<lambda>x b. aes_128 key (xor_128 b x)) (aes_128 key ?b) (rev (text_blocks m ?tx))"
    using Suc.prems b assms(1) by (intro Suc.IH) (simp_all add: len_simps)
  moreover have "rev (text_blocks (Suc m) tx) = text_block tx (16 * m) # rev (text_blocks m tx)"
    by (simp add: text_blocks_def)
  ultimately show ?case
    unfolding upt foldl_Cons st by (simp add: blocks)
qed (simp add: text_blocks_def)

lemma chain_words:
  assumes "length key = 16" "length x = 16" "\<forall>b \<in> set bs. length b = 16"
  shows "le_word (foldl (\<lambda>x b. aes_128 key (xor_128 b x)) x bs) = cbc_mac (aes_word key) (le_word x) (map le_word bs)"
  using assms(2,3)
proof (induction bs arbitrary: x)
  case (Cons b bs)
  have l: "length (xor_128 b x) = 16" using Cons.prems by (simp add: xor_128_def)
  have "le_word b XOR le_word x = le_word (xor_128 b x)"
    using Cons.prems by (simp add: xor_128_def le_word_xor)
  then have "aes_word key (le_word b XOR le_word x) = le_word (aes_128 key (xor_128 b x))"
    by (simp add: aes_word_def word_bytes_le_word [OF l])
  then show ?case
    using Cons l assms(1) by (simp add: len_simps)
qed simp

section \<open>The last block\<close>

lemma padding_value:
  assumes "length b = 16" "q < 16"
  shows "padding b q = replicate (15 - q) 0 @ 0x80 # drop (16 - q) b"
proof -
  define F where "F = (\<lambda>(p :: u8 list) i. p[15 - i := if i = q then 0x80 else 0])"
  define R where "R k = (if k = q then [] else replicate (k - q - 1) 0 @ [0x80]) @ drop (16 - q) b" for k
  have "q \<le> k \<Longrightarrow> k \<le> 16 \<Longrightarrow> foldl F b [q..<k] = take (16 - k) b @ R k" for k
  proof (induction k)
    case (Suc k)
    show ?case
    proof (cases "Suc k = q")
      case True
      then show ?thesis using Suc.prems by (simp add: R_def)
    next
      case False
      then have k: "q \<le> k" "k < 16" using Suc.prems by simp_all
      have "foldl F b [q..<Suc k] = F (take (16 - k) b @ R k) k"
        using Suc.IH k by simp
      also have "take (16 - k) b = take (15 - k) b @ [b ! (15 - k)]"
        using take_Suc_conv_app_nth [of "15 - k" b] k assms(1) by (simp add: Suc_diff_le [symmetric])
      also have "F ((take (15 - k) b @ [b ! (15 - k)]) @ R k) k =
          take (15 - k) b @ (if k = q then 0x80 else 0) # R k"
        using k assms(1) by (simp add: F_def list_update_append)
      also have "(if k = q then 0x80 else 0) # R k = R (Suc k)"
      proof (cases "k = q")
        case neq: False
        then have "k - q = Suc (k - q - 1)" using k by simp
        then show ?thesis using neq k by (simp add: R_def)
      qed (simp add: R_def)
      finally show ?thesis by simp
    qed
  qed (simp add: R_def)
  from this [of 16] show ?thesis
    using assms by (simp add: padding_def kOctet16Length_def F_def R_def)
qed

section \<open>CMAC\<close>

lemma chunk_from_end:
  assumes "k + 16 \<le> length tx"
  shows "rev (take 16 (drop k (rev tx))) = text_block tx (length tx - (k + 16))"
proof -
  have "length tx - k - (length tx - (k + 16)) = 16" using assms by simp
  then show ?thesis
    using assms by (simp add: text_block_def kOctet16Length_def drop_rev take_rev drop_take)
qed

lemma rev_text_blocks:
  assumes "length tx = 16 * n" "j < n"
  shows "rev (text_blocks n tx) ! j = text_block tx (length tx - (16 * j + 16))"
proof -
  have "16 * (n - Suc j) = length tx - (16 * j + 16)"
    using assms by (simp add: diff_mult_distrib2)
  then show ?thesis
    using assms by (simp add: rev_nth text_blocks_def)
qed

lemma cmac_text:
  assumes "length key = 16" "length tx = 16 * n" "0 < n" "length b = 16"
  shows "le_word (cmac_aes_k_calculate \<lparr>cmac_text = put_block tx 0 b, cmac_len = l, cmac_rounds = n\<rparr> key) =
    cbc_mac (aes_word key) 0
      (map (\<lambda>j. be_word (take 16 (drop (16 * j) (rev tx)))) [0..<n - 1] @ [le_word b])"
proof -
  let ?tx = "put_block tx 0 b"
  have len: "length ?tx = 16 * n"
    using assms by (simp add: put_block_def kOctet16Length_def)
  have eq: "rev (text_blocks n ?tx) = map (\<lambda>j. rev (take 16 (drop (16 * j) (rev tx)))) [0..<n - 1] @ [b]"
  proof (rule nth_equalityI)
    fix j assume "j < length (rev (text_blocks n ?tx))"
    then have j: "j < n" by (simp add: text_blocks_def)
    show "rev (text_blocks n ?tx) ! j =
        (map (\<lambda>j. rev (take 16 (drop (16 * j) (rev tx)))) [0..<n - 1] @ [b]) ! j"
    proof (cases "j = n - 1")
      case True
      then have "length ?tx - (16 * j + 16) = 0" using len assms(3) by simp
      then show ?thesis
        using True rev_text_blocks [OF len j] assms text_block_put_same [of 0 tx b] by (simp add: nth_append)
    next
      case False
      then have k: "16 \<le> length tx - (16 * j + 16)" "16 * j + 16 \<le> length tx" "j < n - 1"
        using j assms(2) by simp_all
      have "text_block ?tx off = text_block tx off" if "16 \<le> off" for off
        using that assms(4) by (simp add: text_block_def put_block_def kOctet16Length_def)
      then show ?thesis
        using rev_text_blocks [OF len j] k chunk_from_end [of "16 * j" tx] len assms(2)
        by (simp add: nth_append)
    qed
  qed (simp add: text_blocks_def assms(3))
  have bl: "\<forall>c \<in> set (rev (text_blocks n ?tx)). length c = 16"
    using len by (auto simp: text_blocks_def text_block_def kOctet16Length_def)
  have "cmac_aes_k_calculate \<lparr>cmac_text = ?tx, cmac_len = l, cmac_rounds = n\<rparr> key =
      foldl (\<lambda>x b. aes_128 key (xor_128 b x)) (replicate 16 0) (rev (text_blocks n ?tx))"
    using cmac_loop [OF assms(1) len, of n "replicate 16 0"]
    by (simp add: cmac_aes_k_calculate_def kOctet16Length_def)
  then show ?thesis
    using chain_words [OF assms(1) _ bl, of "replicate 16 0"]
    unfolding eq by (simp add: le_word_zeros be_word_def o_def)
qed

text \<open>The first block of the buffer, which is the last one of the message, once it is prepared.\<close>

definition last_block :: "u8 list \<Rightarrow> nat \<Rightarrow> u8 list \<Rightarrow> u8 list \<Rightarrow> u8 list" where
  "last_block b l k1 k2 =
     (if l mod 16 = 0 \<and> l \<noteq> 0 then xor_128 b k1 else xor_128 (padding b (l mod 16)) k2)"

lemma length_padding [len_simps]: "length (padding b q) = length b"
proof -
  have "length (foldl (\<lambda>p i. p[f i := g i]) b is) = length b" for f g "is"
    by (induction "is" arbitrary: b) simp_all
  then show ?thesis by (simp add: padding_def)
qed

lemma prepare_last_block:
  assumes "16 \<le> length tx"
  shows "cmac_prepare_last_block \<lparr>cmac_text = tx, cmac_len = l, cmac_rounds = n\<rparr> k1 k2 =
    \<lparr>cmac_text = put_block tx 0 (last_block (text_block tx 0) l k1 k2), cmac_len = l, cmac_rounds = n\<rparr>"
proof -
  have "length (text_block tx 0) = 16" using assms by (simp add: text_block_def kOctet16Length_def)
  then have "text_block (put_block tx 0 (padding (text_block tx 0) q)) 0 = padding (text_block tx 0) q" for q
    by (intro text_block_put_same) (simp_all add: len_simps)
  moreover have "put_block (put_block tx 0 b) 0 c = put_block tx 0 c" if "length b = 16" for b c
    using that by (simp add: put_block_def kOctet16Length_def)
  ultimately show ?thesis
    using \<open>length (text_block tx 0) = 16\<close>
    by (simp add: cmac_prepare_last_block_def last_block_def kOctet16Length_def Let_def len_simps)
qed

lemma subkeys:
  assumes "length key = 16" "16 \<le> length tx"
  shows "\<exists>k1 k2. length k1 = 16 \<and> length k2 = 16 \<and> le_word k1 = cmac_dbl (aes_word key 0) \<and>
    le_word k2 = cmac_dbl (cmac_dbl (aes_word key 0)) \<and>
    cmac_generate_subkey \<lparr>cmac_text = tx, cmac_len = l, cmac_rounds = n\<rparr> key =
    \<lparr>cmac_text = put_block tx 0 (last_block (text_block tx 0) l k1 k2), cmac_len = l, cmac_rounds = n\<rparr>"
proof -
  let ?sub = "\<lambda>p. if p ! 15 AND 0x80 \<noteq> 0 then xor_128 (leftshift_onebit p) const_Rb else leftshift_onebit p"
  let ?p = "aes_128 key (replicate 16 0)"
  have p: "length ?p = 16" using assms by (simp add: len_simps)
  have w: "le_word ?p = aes_word key 0" by (simp add: aes_word_def word_bytes_0)
  note k1 = subkey_value [OF p] and k2 = subkey_value [OF subkey_value(1) [OF p]]
  have "cmac_generate_subkey \<lparr>cmac_text = tx, cmac_len = l, cmac_rounds = n\<rparr> key =
      cmac_prepare_last_block \<lparr>cmac_text = tx, cmac_len = l, cmac_rounds = n\<rparr> (?sub ?p) (?sub (?sub ?p))"
    unfolding cmac_generate_subkey_def Let_def kOctet16Length_def by simp
  then show ?thesis
    unfolding prepare_last_block [OF assms(2)]
    by (intro exI [of _ "?sub ?p"] exI [of _ "?sub (?sub ?p)"] conjI k1(1) k2(1))
      (simp_all only: k1(2) k2(2) w)
qed

lemma aes_cmac_empty:
  assumes "length key = 16" "16 \<le> length stack"
  shows "le_word (aes_cmac stack key (Some []) 0) = rfc4493 (aes_word key) []"
proof -
  let ?tx = "take 16 stack"
  have l: "length ?tx = 16 * 1" using assms by simp
  obtain k1 k2 where k: "length k1 = 16" "length k2 = 16" "le_word k1 = cmac_dbl (aes_word key 0)"
      "le_word k2 = cmac_dbl (cmac_dbl (aes_word key 0))"
      "cmac_generate_subkey \<lparr>cmac_text = ?tx, cmac_len = 0, cmac_rounds = 1\<rparr> key =
       \<lparr>cmac_text = put_block ?tx 0 (last_block (text_block ?tx 0) 0 k1 k2), cmac_len = 0, cmac_rounds = 1\<rparr>"
    using subkeys [OF assms(1), of ?tx] l by force
  have b: "last_block (text_block ?tx 0) 0 k1 k2 = xor_128 (replicate 15 0 @ [0x80]) k2"
    using assms by (simp add: last_block_def padding_value text_block_def kOctet16Length_def)
  have "le_word (aes_cmac stack key (Some []) 0) =
      cbc_mac (aes_word key) 0 [le_word (xor_128 (replicate 15 0 @ [0x80]) k2)]"
    using cmac_text [OF assms(1) l, of "xor_128 (replicate 15 0 @ [0x80]) k2" 0] k(2)
    by (simp add: aes_cmac_def Let_def k(5) [simplified] b kOctet16Length_def xor_128_def)
  also have "le_word (xor_128 (replicate 15 0 @ [0x80]) k2) = le_word (replicate 15 0 @ [0x80]) XOR le_word k2"
    using k(2) by (simp add: xor_128_def le_word_xor)
  finally show ?thesis
    by (simp add: rfc4493_def be_word_def k(4) Let_def)
qed

lemma last_block_value:
  assumes "length s = 16 - q" "length p = q" "0 < q" "q \<le> 16" "l mod 16 = q mod 16" "0 < l"
    and "length k1 = 16" "length k2 = 16"
  shows "length (last_block (s @ p) l k1 k2) = 16"
    and "le_word (last_block (s @ p) l k1 k2) =
      (if q = 16 then be_word (rev p) XOR le_word k1
       else be_word (rev p @ 0x80 # replicate (15 - q) 0) XOR le_word k2)"
proof -
  have "q < 16 \<Longrightarrow> padding (s @ p) q = replicate (15 - q) 0 @ 0x80 # p"
    using assms by (simp add: padding_value)
  then have e: "last_block (s @ p) l k1 k2 =
      (if q = 16 then xor_128 p k1 else xor_128 (replicate (15 - q) 0 @ 0x80 # p) k2)"
    using assms by (auto simp: last_block_def)
  show "length (last_block (s @ p) l k1 k2) = 16"
    using assms by (auto simp: e xor_128_def)
  show "le_word (last_block (s @ p) l k1 k2) =
      (if q = 16 then be_word (rev p) XOR le_word k1
       else be_word (rev p @ 0x80 # replicate (15 - q) 0) XOR le_word k2)"
    using assms by (auto simp: e xor_128_def le_word_xor be_word_def)
qed

lemma aes_cmac_blocks:
  assumes "length key = 16" "length inp = unat w" "0 < unat w" "unat w + 16 \<le> length stack"
  shows "le_word (aes_cmac stack key (Some inp) w) = rfc4493 (aes_word key) (rev inp)"
proof -
  let ?L = "length inp"
  define n where "n = (?L + 15) div 16"
  define q where "q = ?L - 16 * (n - 1)"
  have L: "0 < ?L" using assms by simp
  have n: "0 < n" "?L = 16 * (n - 1) + q" "0 < q" "q \<le> 16"
    using L unfolding n_def q_def by presburger+
  define tx where "tx = take (16 - q) stack @ inp"
  have len: "length tx = 16 * n"
    using n assms(2,4) by (simp add: tx_def)
  have tl: "16 \<le> length tx" using len n(1) by simp
  obtain k1 k2 where k: "length k1 = 16" "length k2 = 16" "le_word k1 = cmac_dbl (aes_word key 0)"
      "le_word k2 = cmac_dbl (cmac_dbl (aes_word key 0))"
      "cmac_generate_subkey \<lparr>cmac_text = tx, cmac_len = ?L, cmac_rounds = n\<rparr> key =
       \<lparr>cmac_text = put_block tx 0 (last_block (text_block tx 0) ?L k1 k2), cmac_len = ?L, cmac_rounds = n\<rparr>"
    using subkeys [OF assms(1) tl] by blast
  let ?b = "last_block (text_block tx 0) ?L k1 k2"
  have b0: "text_block tx 0 = take (16 - q) stack @ take q inp"
    using n assms(2,4) by (simp add: tx_def text_block_def kOctet16Length_def)
  have lm: "drop (16 * (n - 1)) (rev inp) = rev (take q inp)"
    using n(2) by (simp add: drop_rev)
  have m: "?L mod 16 = q mod 16" by (simp add: n(2))
  have "length (take (16 - q) stack) = 16 - q" "length (take q inp) = q"
    using assms(2,4) n(2) by simp_all
  note b = last_block_value [OF this n(3,4) m L k(1,2), folded b0, unfolded k(3,4)]
  have "aes_cmac stack key (Some inp) w =
      cmac_aes_k_calculate \<lparr>cmac_text = put_block tx 0 ?b, cmac_len = ?L, cmac_rounds = n\<rparr> key"
  proof -
    have a: "(unat w + 16 - 1) div 16 = n" "take (unat w) inp = inp"
      using assms(2) by (simp_all add: n_def)
    have a': "n * 16 - unat w = 16 - q" "n \<noteq> 0"
      using n assms(2) by simp_all
    have t: "16 - q \<le> n * 16" using n(1) by linarith
    show ?thesis
      unfolding aes_cmac_def Let_def kOctet16Length_def a
      using assms(2,3) n(1) k(5) by (simp add: a a' t min_def flip: tx_def)
  qed
  then have "le_word (aes_cmac stack key (Some inp) w) = cbc_mac (aes_word key) 0
      (map (\<lambda>j. be_word (take 16 (drop (16 * j) (rev tx)))) [0..<n - 1] @ [le_word ?b])"
    using cmac_text [OF assms(1) len n(1) b(1)] by simp
  also have "map (\<lambda>j. be_word (take 16 (drop (16 * j) (rev tx)))) [0..<n - 1] =
      map (\<lambda>j. be_word (take 16 (drop (16 * j) (rev inp)))) [0..<n - 1]"
    using n by (intro map_cong) (simp_all add: tx_def)
  finally have r: "le_word (aes_cmac stack key (Some inp) w) = cbc_mac (aes_word key) 0
      (map (\<lambda>j. be_word (take 16 (drop (16 * j) (rev inp)))) [0..<n - 1] @ [le_word ?b])" .
  have "rev inp \<noteq> []" "(length (rev inp) + 15) div 16 = n"
    using L by (simp_all add: n_def)
  moreover have "length (rev (take q inp)) = q" using n(2) by simp
  ultimately show ?thesis
    unfolding r rfc4493_def Let_def b(2) by (simp only: if_False lm refl)
qed
end
