(* ===== verification/Crypto_Properties.thy ===== *)
theory Crypto_Properties imports Cmac_Spec AES_Otfk AES_Rounds begin
unbundle bit_operations_syntax

text \<open>The properties of the cryptographic toolbox: AES with a key schedule and with the key on the
  fly, cipher block chaining, AES-CMAC, and the functions of the Security Manager built on it.\<close>

section \<open>Specification\<close>

text \<open>The length of a key in bytes, which \<open>aes_set_key\<close> takes in bytes or in bits.\<close>

definition key_bytes :: "u8 \<Rightarrow> nat" where
  "key_bytes keylen = (if keylen = 128 then 16 else if keylen = 192 then 24 else unat keylen)"

text \<open>The salt of \<open>f5\<close> as the specification prints it, most significant byte first.\<close>

definition f5_salt :: "u8 list" where
  "f5_salt = [0x6C, 0x88, 0x83, 0x91, 0xAA, 0xF5, 0xA5, 0x38, 0x60, 0x37, 0x0B, 0xDB, 0x5A, 0x60, 0x83, 0xBE]"

text \<open>A context as the witnesses start from.\<close>

abbreviation blank_context :: aes_context where
  "blank_context \<equiv> \<lparr>ksch = replicate 240 0, rnd = 0\<rparr>"

section \<open>The key schedule sets up a usable context\<close>

lemma length_set_key_step: "length (fst (set_key_step n cc s)) = length (fst s)"
  by (cases s) (simp add: set_key_step_def Let_def)

lemma length_set_key_loop: "length (fst (set_key_loop n hi cc s)) = length (fst s)"
proof (induction n hi cc s rule: set_key_loop.induct)
  case (1 n hi cc s)
  then show ?case by (simp add: set_key_loop.simps [of n hi cc] length_set_key_step)
qed

lemma aes_set_key_valid:
  assumes "aes_set_key key keylen ctx = (0, ctx')" "length key = key_bytes keylen" "length (ksch ctx) = 240"
  shows "ctx_wf ctx'"
proof -
  have l: "length (fst (set_key_loop n hi n (take n key @ drop n (ksch ctx), 1))) = 240"
    if "length key = n" "n \<le> 32" for n hi
    using that assms by (simp add: length_set_key_loop)
  show ?thesis
    using assms(1,2) l [of 16 176] l [of 24 208] l [of 32 240] unfolding key_bytes_def
    by (auto simp: aes_set_key_def Let_def push_bit_eq_mult drop_bit_eq_div split: if_splits prod.splits)
qed

lemma aes_set_key_ret: "fst (aes_set_key key keylen ctx) = (if keylen \<in> {16, 128, 24, 192, 32} then 0 else - 1)"
  by (auto simp: aes_set_key_def Let_def split: prod.splits)

lemma aes_cmac_spec:
  assumes "length key = 16" "length inp = unat w" "unat w + 16 \<le> length stack"
  shows "le_word (aes_cmac stack key (Some inp) w) = rfc4493 (aes_word key) (rev inp)"
proof (cases "inp = []")
  case True
  then have "w = 0" using assms(2) by (simp add: unat_eq_0)
  then show ?thesis using True aes_cmac_empty assms(1,3) by simp
next
  case False
  then have "0 < unat w" using assms(2) by (metis length_greater_0_conv)
  then show ?thesis using assms by (intro aes_cmac_blocks)
qed

lemma aes_cmac_len:
  assumes "length key = 16" "length inp < 65536" "length inp + 16 \<le> length stack"
  shows "le_word (aes_cmac stack key (Some inp) (of_nat (length inp))) = rfc4493 (aes_word key) (rev inp)"
  using assms by (intro aes_cmac_spec) (simp_all add: unat_of_nat)

lemma length_put_block: "off + 16 \<le> length tx \<Longrightarrow> length b = 16 \<Longrightarrow> length (put_block tx off b) = length tx"
  by (simp add: put_block_def kOctet16Length_def)

lemma length_cmac_rounds:
  assumes "length key = 16" "length x = 16" "length tx = 16 * n" "set is \<subseteq> {1..n}"
  shows "length (snd (foldl (cmac_round key n) (tx, x) is)) = 16"
  using assms(2-4)
proof (induction "is" arbitrary: tx x)
  case (Cons i "is")
  have o: "(n - i) * 16 + 16 \<le> length tx" using Cons.prems by auto
  let ?b = "xor_128 (text_block tx ((n - i) * 16)) x"
  have b: "length ?b = 16" using o Cons.prems by (simp add: xor_128_def text_block_def kOctet16Length_def)
  then have "text_block (put_block tx ((n - i) * 16) ?b) ((n - i) * 16) = ?b"
    using o by (intro text_block_put_same) simp_all
  then show ?case
    using Cons b o by (simp add: cmac_round_def Let_def kOctet16Length_def length_put_block length_aes_128 assms(1))
qed simp

lemma length_cmac_calculate:
  assumes "length key = 16" "length tx = 16 * n" "0 < n"
  shows "length (cmac_aes_k_calculate (cmac_generate_subkey \<lparr>cmac_text = tx, cmac_len = l, cmac_rounds = n\<rparr> key) key) = 16"
proof -
  have tl: "16 \<le> length tx" using assms by simp
  obtain k1 k2 where k: "length k1 = 16" "length k2 = 16"
      "cmac_generate_subkey \<lparr>cmac_text = tx, cmac_len = l, cmac_rounds = n\<rparr> key =
       \<lparr>cmac_text = put_block tx 0 (last_block (text_block tx 0) l k1 k2), cmac_len = l, cmac_rounds = n\<rparr>"
    using subkeys [OF assms(1) tl] by blast
  have "length (text_block tx 0) = 16" using tl by (simp add: text_block_def kOctet16Length_def)
  then have "length (last_block (text_block tx 0) l k1 k2) = 16"
    using k by (simp add: last_block_def xor_128_def len_simps)
  then show ?thesis
    using tl assms unfolding k(3) cmac_aes_k_calculate_def
    by (intro length_cmac_rounds) (auto simp: length_put_block kOctet16Length_def)
qed

lemma length_aes_cmac:
  assumes "length key = 16" "length inp = unat w" "unat w + 16 \<le> length stack"
  shows "length (aes_cmac stack key (Some inp) w) = 16"
proof -
  define n where "n = (if unat w = 0 then 1 else (unat w + 15) div 16)"
  have n: "0 < n" "unat w \<le> n * 16" "n * 16 \<le> unat w + 16" unfolding n_def by auto
  have "(if (unat w + 15) div 16 = 0 then 1 else (unat w + 15) div 16) = n" by (auto simp: n_def)
  then show ?thesis
    using assms n unfolding aes_cmac_def Let_def kOctet16Length_def
    by (auto intro!: length_cmac_calculate)
qed

lemma le_word_inj: "length a = 16 \<Longrightarrow> length b = 16 \<Longrightarrow> le_word a = le_word b \<Longrightarrow> a = b"
  using word_bytes_le_word by metis


lemma le32toh_ucast: "length b = 16 \<Longrightarrow> le32toh b = ucast (le_word b)"
proof (rule bit_word_eqI)
  fix n assume a: "length b = 16" "n < LENGTH(32)"
  then have "n < 8 \<or> n \<in> {8..<16} \<or> n \<in> {16..<24} \<or> n \<in> {24..<32}" by auto
  moreover have "n \<in> {8..<16} \<Longrightarrow> n div 8 = 1 \<and> n mod 8 = n - 8" "n \<in> {16..<24} \<Longrightarrow> n div 8 = 2 \<and> n mod 8 = n - 16"
      "n \<in> {24..<32} \<Longrightarrow> n div 8 = 3 \<and> n mod 8 = n - 24"
    by (auto simp: div_nat_eqI mod_if)
  ultimately show "bit (le32toh b) n = bit (ucast (le_word b) :: u32) n"
    using a by (auto simp: le32toh_def bit_or_iff bit_push_bit_iff bit_ucast_iff bit_le_word bit_imp_le_length
        dest: bit_imp_le_length)
qed

section \<open>Properties\<close>

text \<open>C2: After \<open>aes_set_key\<close> has accepted a key of 16, 24 or 32 bytes, given with its length in bytes
  or in bits, \<open>aes_encrypt\<close> succeeds on every block and \<open>aes_decrypt\<close> gives the block back.\<close>

theorem aes_decrypt_inverts_encrypt:
  assumes "aes_set_key key keylen ctx = (0, ctx')" "length key = key_bytes keylen" "length (ksch ctx) = 240"
    and "length inb = 16"
  shows "\<exists>c. aes_encrypt inb out ctx' = (0, c) \<and> length c = 16 \<and> aes_decrypt c out' ctx' = (0, inb)"
  using aes_decrypt_encrypt [OF aes_set_key_valid] assms by blast

lemma set_key_blank:
  "aes_set_key (replicate 16 0) 128 blank_context = (0, snd (aes_set_key (replicate 16 0) 128 blank_context))"
  using aes_set_key_ret [of "replicate 16 0" 128 blank_context] by (simp add: prod_eq_iff)

theorem aes_decrypt_inverts_encrypt_witness:
  "\<exists>c. aes_encrypt (replicate 16 7) [] (snd (aes_set_key (replicate 16 0) 128 blank_context)) = (0, c) \<and>
    length c = 16 \<and> aes_decrypt c [] (snd (aes_set_key (replicate 16 0) 128 blank_context)) = (0, replicate 16 7)"
  using aes_decrypt_inverts_encrypt [OF set_key_blank, of "replicate 16 7" "[]" "[]"]
  by (simp add: key_bytes_def)

text \<open>C27: Cipher block chaining: whatever number of blocks \<open>aes_cbc_encrypt\<close> encrypts,
  \<open>aes_cbc_decrypt\<close> with the same context and the same initialisation vector returns the message,
  and neither reports an error.\<close>

theorem aes_cbc_inverts:
  assumes "aes_set_key key keylen ctx = (0, ctx')" "length key = key_bytes keylen" "length (ksch ctx) = 240"
    and "length iv = 16" "length inb = 16 * n"
  shows "\<exists>c iv'. aes_cbc_encrypt inb n iv ctx' = (0, c, iv') \<and> length c = 16 * n \<and>
    (\<exists>iv''. aes_cbc_decrypt c n iv ctx' = (0, inb, iv''))"
  using cbc_round_trip [OF aes_set_key_valid] assms by blast

theorem aes_cbc_inverts_witness:
  "\<exists>c iv'. aes_cbc_encrypt (replicate 32 7) 2 (replicate 16 1) (snd (aes_set_key (replicate 16 0) 128 blank_context)) = (0, c, iv') \<and>
    length c = 32 \<and> (\<exists>iv''. aes_cbc_decrypt c 2 (replicate 16 1) (snd (aes_set_key (replicate 16 0) 128 blank_context)) =
      (0, replicate 32 7, iv''))"
  using aes_cbc_inverts [OF set_key_blank, of "replicate 16 1" "replicate 32 7" 2]
  by (simp add: key_bytes_def)

text \<open>C16: The routines with the key on the fly: decryption with the key that encryption leaves in
  \<open>o_key\<close> returns the plain block and restores the key, for 128-bit and for 256-bit keys.\<close>

theorem aes_otfk_round_trip:
  assumes "length inb = 16" "length key = 16" "length key' = 32"
  shows "case_prod aes_decrypt_128 (aes_encrypt_128 inb key) = (inb, key) \<and>
    case_prod aes_decrypt_256 (aes_encrypt_256 inb key') = (inb, key')"
  using assms aes_128_round_trip aes_256_round_trip by (auto split: prod.split)

theorem aes_otfk_round_trip_witness:
  "case_prod aes_decrypt_128 (aes_encrypt_128 (replicate 16 1) (replicate 16 2)) = (replicate 16 1, replicate 16 2) \<and>
    case_prod aes_decrypt_256 (aes_encrypt_256 (replicate 16 1) (replicate 32 3)) = (replicate 16 1, replicate 32 3)"
  by (rule aes_otfk_round_trip) simp_all

text \<open>C18: The two implementations of AES with a 128-bit key agree, and so do the two with a 256-bit key: with a precomputed
  key schedule and with the key updated on the fly, every block is encrypted to the same value. The code has no variant for
  192-bit keys on the fly.\<close>

theorem aes_encrypt_prekeyed_otfk:
  assumes "length key = 16" "length key2 = 32" "length inb = 16" "length (ksch ctx) = 240"
  shows "aes_encrypt inb out (snd (aes_set_key key 16 ctx)) = (0, fst (aes_encrypt_128 inb key)) \<and>
    aes_encrypt inb out (snd (aes_set_key key2 32 ctx)) = (0, fst (aes_encrypt_256 inb key2))"
  using aes_encrypt_128_equiv [OF assms(1,3,4) prod.collapse [symmetric], of out]
    aes_encrypt_256_equiv [OF assms(2-4) prod.collapse [symmetric], of out] by blast

theorem aes_encrypt_prekeyed_otfk_witness:
  "aes_encrypt (replicate 16 1) [] (snd (aes_set_key (replicate 16 2) 16 blank_context)) =
      (0, fst (aes_encrypt_128 (replicate 16 1) (replicate 16 2))) \<and>
    aes_encrypt (replicate 16 1) [] (snd (aes_set_key (replicate 32 3) 32 blank_context)) =
      (0, fst (aes_encrypt_256 (replicate 16 1) (replicate 32 3)))"
  by (rule aes_encrypt_prekeyed_otfk) simp_all

text \<open>A key length that is none of 16, 24, 32, 128 and 192 is reported as 255, the byte the
  return type makes of -1. The context is then marked unusable: encryption and
  decryption fail with 255 and write no output. An accepted key sets 10, 12 or 14 rounds.\<close>

theorem aes_set_key_rejects:
  "if keylen \<in> {16, 24, 32, 128, 192}
   then fst (aes_set_key key keylen ctx) = 0 \<and>
     rnd (snd (aes_set_key key keylen ctx)) = of_nat (key_bytes keylen div 4 + 6)
   else aes_set_key key keylen ctx = (255, ctx\<lparr>rnd := 0\<rparr>) \<and>
     aes_encrypt inb out (ctx\<lparr>rnd := 0\<rparr>) = (255, out) \<and> aes_decrypt inb out (ctx\<lparr>rnd := 0\<rparr>) = (255, out)"
  by (auto simp: aes_set_key_def aes_encrypt_def aes_decrypt_def Let_def key_bytes_def push_bit_eq_mult drop_bit_eq_div
      split: prod.splits)

text \<open>C1: \<open>aes_cmac\<close>, with key, message and result in little-endian order, computes AES-CMAC as
  RFC 4493 defines it on the big-endian message: subkeys by doubling in the field of order 2^128,
  padding with one bit and zeros, chaining of the blocks. It holds for every length of the message,
  the empty one included, and whatever the stack memory held that \<open>alloca\<close> hands out.\<close>

theorem aes_cmac_rfc4493:
  assumes "length key = 16" "length inp = unat w" "unat w + 16 \<le> length stack"
  shows "le_word (aes_cmac stack key (Some inp) w) = rfc4493 (aes_word key) (rev inp)"
  using assms by (rule aes_cmac_spec)

theorem aes_cmac_rfc4493_witness:
  "le_word (aes_cmac (replicate 60 9) (replicate 16 1) (Some (replicate 40 5)) 40) =
    rfc4493 (aes_word (replicate 16 1)) (replicate 40 5)"
  using aes_cmac_rfc4493 [of "replicate 16 1" "replicate 40 5" 40 "replicate 60 9"] by simp


text \<open>The Secure Connections functions of the Security Manager, on the little-endian arguments
  the code holds: confirm value \<open>f4\<close>, check value \<open>f6\<close> and the key conversions \<open>h6\<close> and \<open>h7\<close>
  are AES-CMAC of the concatenations that the Bluetooth Core specification defines on big-endian
  values: \<open>U || V || Z\<close>, \<open>N1 || N2 || R || IOcap || A1 || A2\<close>, \<open>keyID\<close> and \<open>W\<close>.\<close>

theorem smp_cmac_messages:
  assumes "length u = 32" "length v = 32" "length x = 16" "length n1 = 16" "length n2 = 16" "length r = 16"
    and "length iocap = 3" "length a1 = 7" "length a2 = 7" "length keyid = 4" "length w = 16" "96 \<le> length stack"
  shows "le_word (crypto_f4 stack u v x z) = rfc4493 (aes_word x) (rev u @ rev v @ [z]) \<and>
    le_word (f6 stack w n1 n2 r iocap a1 a2) =
      rfc4493 (aes_word w) (rev n1 @ rev n2 @ rev r @ rev iocap @ rev a1 @ rev a2) \<and>
    le_word (h6 stack w keyid) = rfc4493 (aes_word w) (rev keyid) \<and>
    le_word (h7 stack x w) = rfc4493 (aes_word x) (rev w)"
  using assms aes_cmac_len [of x "[z] @ v @ u" stack] aes_cmac_len [of w "a2 @ a1 @ iocap @ r @ n2 @ n1" stack]
    aes_cmac_len [of w keyid stack] aes_cmac_len [of x w stack]
  by (simp add: crypto_f4_def f6_def h6_def h7_def)

theorem smp_cmac_messages_witness:
  "le_word (crypto_f4 (replicate 96 0) (replicate 32 1) (replicate 32 2) (replicate 16 3) 4) =
     rfc4493 (aes_word (replicate 16 3)) (replicate 32 1 @ replicate 32 2 @ [4])"
  using smp_cmac_messages [of "replicate 32 1" "replicate 32 2" "replicate 16 3" "replicate 16 0" "replicate 16 0"
      "replicate 16 0" "replicate 3 0" "replicate 7 0" "replicate 7 0" "replicate 4 0" "replicate 16 0" "replicate 96 0" 4]
  by simp

text \<open>C29: \<open>f5\<close> derives the MacKey and the LTK as the specification has them: with
  \<open>T = AES-CMAC_SALT(DHKey)\<close>, both are AES-CMAC under \<open>T\<close> of
  \<open>Counter || "btle" || N1 || N2 || A1 || A2 || 256\<close>, the counter 0 for the MacKey and 1 for the LTK.\<close>

theorem f5_mac_key_ltk:
  assumes "length dhkey = 32" "length n1 = 16" "length n2 = 16" "length a1 = 7" "length a2 = 7" "96 \<le> length stack"
  shows "let t = word_bytes (rfc4493 (aes_word (rev f5_salt)) (rev dhkey));
             msg = (\<lambda>counter. [counter, 0x62, 0x74, 0x6c, 0x65] @ rev n1 @ rev n2 @ rev a1 @ rev a2 @ [1, 0])
         in map_prod le_word le_word (f5 stack dhkey n1 n2 a1 a2) =
            (rfc4493 (aes_word t) (msg 0), rfc4493 (aes_word t) (msg 1))"
proof -
  let ?t = "aes_cmac stack (rev f5_salt) (Some dhkey) 32"
  have lt: "length ?t = 16" using assms by (intro length_aes_cmac) (simp_all add: f5_salt_def)
  have "le_word ?t = rfc4493 (aes_word (rev f5_salt)) (rev dhkey)"
    using assms by (intro aes_cmac_spec) (simp_all add: f5_salt_def)
  then have t: "?t = word_bytes (rfc4493 (aes_word (rev f5_salt)) (rev dhkey))"
    using word_bytes_le_word [OF lt] by simp
  have "le_word (calculate_mac_key_or_ltk stack ?t c [0x65, 0x6c, 0x74, 0x62] n1 n2 a1 a2 [0, 1]) =
      rfc4493 (aes_word ?t) ([c, 0x62, 0x74, 0x6c, 0x65] @ rev n1 @ rev n2 @ rev a1 @ rev a2 @ [1, 0])" for c
    using assms lt aes_cmac_len [of ?t "[0, 1] @ a2 @ a1 @ n2 @ n1 @ [0x65, 0x6c, 0x74, 0x62] @ [c]" stack]
    by (simp add: calculate_mac_key_or_ltk_def)
  then show ?thesis
    unfolding t [symmetric] by (simp add: f5_def Let_def f5_salt_def)
qed

theorem f5_mac_key_ltk_witness:
  "le_word (fst (f5 (replicate 96 0) (replicate 32 1) (replicate 16 2) (replicate 16 3) (replicate 7 4) (replicate 7 5))) =
    rfc4493 (aes_word (word_bytes (rfc4493 (aes_word (rev f5_salt)) (replicate 32 1))))
      ([0, 0x62, 0x74, 0x6c, 0x65] @ replicate 16 2 @ replicate 16 3 @ replicate 7 4 @ replicate 7 5 @ [1, 0])"
  using f5_mac_key_ltk [of "replicate 32 1" "replicate 16 2" "replicate 16 3" "replicate 7 4" "replicate 7 5" "replicate 96 0"]
  unfolding Let_def map_prod_def by (simp add: split_beta)

text \<open>C40: \<open>g2\<close> returns a number of at most six digits: the low 32 bits of
  \<open>AES-CMAC_X(U || V || Y)\<close> modulo one million.\<close>

theorem g2_six_digits:
  assumes "length u = 32" "length v = 32" "length x = 16" "length y = 16" "96 \<le> length stack"
  shows "g2 stack u v x y = ucast (rfc4493 (aes_word x) (rev u @ rev v @ rev y)) mod 1000000 \<and>
    unat (g2 stack u v x y) < 1000000"
proof -
  let ?m = "y @ v @ u"
  have "length (aes_cmac stack x (Some ?m) (of_nat (length ?m))) = 16"
    using assms by (intro length_aes_cmac) simp_all
  from le32toh_ucast [OF this]
  show ?thesis
    using assms aes_cmac_len [of x ?m stack]
    by (simp add: g2_def Let_def unat_mod)
qed

theorem g2_six_digits_witness:
  "unat (g2 (replicate 96 0) (replicate 32 1) (replicate 32 2) (replicate 16 3) (replicate 16 4)) < 1000000"
  by (rule g2_six_digits [THEN conjunct2]) simp_all

end
