(* ===== verification/List_Map.thy ===== *)
theory List_Map imports Prelude "HOL-Library.AList" begin

text \<open>
  The ordered map \<open>ListMap\<close> of \<open>gd/common/list_map.h\<close> and the cache \<open>LruCache\<close> of
  \<open>gd/common/lru_cache.h\<close>. A \<open>ListMap\<close> is a linked list of key and value pairs and a hash map from
  the keys to iterators into that list. A node of the list is written with the name by which
  iterators point to it, a number that no other node of the list has; an iterator is \<open>Some\<close> name, or
  \<open>None\<close> for \<open>end()\<close>. The invariant says that list and hash map agree; under it every operation is
  one on an association list with distinct keys.
\<close>

section \<open>ListMap\<close>

type_synonym iter = "nat option"

record ('k, 'v) ListMap =
  node_list :: "(nat \<times> 'k \<times> 'v) list"
  key_map :: "'k \<rightharpoonup> nat"

text \<open>The operations of \<open>std::list\<close>: \<open>emplace\<close> before a position, \<open>erase\<close> and dereferencing.\<close>

fun list_emplace :: "iter \<Rightarrow> nat \<times> 'k \<times> 'v \<Rightarrow> (nat \<times> 'k \<times> 'v) list \<Rightarrow> (nat \<times> 'k \<times> 'v) list" where
  "list_emplace pos n [] = [n]"
| "list_emplace pos n (x # xs) = (if pos = Some (fst x) then n # x # xs else x # list_emplace pos n xs)"

definition list_erase :: "nat \<Rightarrow> (nat \<times> 'k \<times> 'v) list \<Rightarrow> (nat \<times> 'k \<times> 'v) list" where
  "list_erase i l = filter (\<lambda>n. fst n \<noteq> i) l"

definition list_at :: "nat \<Rightarrow> (nat \<times> 'k \<times> 'v) list \<Rightarrow> ('k \<times> 'v) option" where
  "list_at i l = map_of l i"

definition new_node :: "('k, 'v) ListMap \<Rightarrow> nat" where
  "new_node m = Suc (foldr (\<lambda>n. max (fst n)) (node_list m) 0)"

definition lm_empty :: "('k, 'v) ListMap" where
  "lm_empty = \<lparr>node_list = [], key_map = Map.empty\<rparr>"

definition lm_end :: iter where
  "lm_end = None"

definition lm_begin :: "('k, 'v) ListMap \<Rightarrow> iter" where
  "lm_begin m = (case node_list m of [] \<Rightarrow> None | n # ns \<Rightarrow> Some (fst n))"

definition lm_size :: "('k, 'v) ListMap \<Rightarrow> nat" where
  "lm_size m = length (node_list m)"

fun rebuild_keys :: "(nat \<times> 'k \<times> 'v) list \<Rightarrow> ('k \<rightharpoonup> nat) \<Rightarrow> ('k \<rightharpoonup> nat)" where
  "rebuild_keys [] km = km"
| "rebuild_keys ((i, k, v) # ns) km = rebuild_keys ns (if km k = None then km(k \<mapsto> i) else km)"

definition lm_copy :: "('k, 'v) ListMap \<Rightarrow> ('k, 'v) ListMap" where
  "lm_copy other = \<lparr>node_list = node_list other, key_map = rebuild_keys (node_list other) Map.empty\<rparr>"

definition lm_clear :: "('k, 'v) ListMap \<Rightarrow> ('k, 'v) ListMap" where
  "lm_clear m = m\<lparr>key_map := Map.empty, node_list := []\<rparr>"

definition lm_eq :: "('k, 'v) ListMap \<Rightarrow> ('k, 'v) ListMap \<Rightarrow> bool" where
  "lm_eq m rhs \<longleftrightarrow> map snd (node_list m) = map snd (node_list rhs)"

definition lm_find :: "('k, 'v) ListMap \<Rightarrow> 'k \<Rightarrow> iter" where
  "lm_find m key = (case key_map m key of None \<Rightarrow> lm_end | Some i \<Rightarrow> Some i)"

definition lm_contains :: "('k, 'v) ListMap \<Rightarrow> 'k \<Rightarrow> bool" where
  "lm_contains m key \<longleftrightarrow> lm_find m key \<noteq> lm_end"

definition lm_try_emplace :: "('k, 'v) ListMap \<Rightarrow> iter \<Rightarrow> 'k \<Rightarrow> 'v \<Rightarrow> ('k, 'v) ListMap \<times> iter \<times> bool" where
  "lm_try_emplace m pos key v =
     (if key_map m key \<noteq> None then (m, lm_end, False)
      else let i = new_node m
           in (m\<lparr>node_list := list_emplace pos (i, key, v) (node_list m), key_map := (key_map m)(key \<mapsto> i)\<rparr>,
               Some i, True))"

definition lm_try_emplace_back :: "('k, 'v) ListMap \<Rightarrow> 'k \<Rightarrow> 'v \<Rightarrow> ('k, 'v) ListMap \<times> iter \<times> bool" where
  "lm_try_emplace_back m key v = lm_try_emplace m lm_end key v"

definition lm_assign :: "('k, 'v) ListMap \<Rightarrow> nat \<Rightarrow> 'v \<Rightarrow> ('k, 'v) ListMap" where
  "lm_assign m i v = m\<lparr>node_list := map (\<lambda>(j, k, w). if j = i then (j, k, v) else (j, k, w)) (node_list m)\<rparr>"

definition lm_insert_or_assign_at :: "('k, 'v) ListMap \<Rightarrow> iter \<Rightarrow> 'k \<Rightarrow> 'v \<Rightarrow> ('k, 'v) ListMap" where
  "lm_insert_or_assign_at m pos key v =
     (case key_map m key of
        Some i \<Rightarrow> lm_assign m i v
      | None \<Rightarrow>
          let i = new_node m
          in m\<lparr>node_list := list_emplace pos (i, key, v) (node_list m), key_map := (key_map m)(key \<mapsto> i)\<rparr>)"

definition lm_insert_or_assign :: "('k, 'v) ListMap \<Rightarrow> 'k \<Rightarrow> 'v \<Rightarrow> ('k, 'v) ListMap" where
  "lm_insert_or_assign m key v = lm_insert_or_assign_at m lm_end key v"

text \<open>\<open>splice\<close> within one map, the only form the stack uses, and between two maps.\<close>

definition list_splice :: "iter \<Rightarrow> nat \<Rightarrow> (nat \<times> 'k \<times> 'v) list \<Rightarrow> (nat \<times> 'k \<times> 'v) list" where
  "list_splice pos i l =
     (if pos = Some i then l
      else case list_at i l of None \<Rightarrow> l | Some kv \<Rightarrow> list_emplace pos (i, kv) (list_erase i l))"

definition lm_splice :: "('k, 'v) ListMap \<Rightarrow> iter \<Rightarrow> nat \<Rightarrow> ('k, 'v) ListMap" where
  "lm_splice m pos i = m\<lparr>node_list := list_splice pos i (node_list m)\<rparr>"

definition lm_splice_other ::
    "('k, 'v) ListMap \<Rightarrow> iter \<Rightarrow> ('k, 'v) ListMap \<Rightarrow> nat \<Rightarrow> ('k, 'v) ListMap \<times> ('k, 'v) ListMap" where
  "lm_splice_other m pos other i =
     (case list_at i (node_list other) of
        None \<Rightarrow> (m, other)
      | Some (k, v) \<Rightarrow>
          (m\<lparr>node_list := list_emplace pos (i, k, v) (node_list m),
             key_map := (if key_map m k = None then (key_map m)(k := key_map other k) else key_map m)\<rparr>,
           other\<lparr>node_list := list_erase i (node_list other), key_map := (key_map other)(k := None)\<rparr>))"

definition lm_extract :: "('k, 'v) ListMap \<Rightarrow> 'k \<Rightarrow> ('k, 'v) ListMap \<times> ('k \<times> 'v) option" where
  "lm_extract m key =
     (case key_map m key of
        None \<Rightarrow> (m, None)
      | Some i \<Rightarrow>
          (m\<lparr>node_list := list_erase i (node_list m), key_map := (key_map m)(key := None)\<rparr>,
           list_at i (node_list m)))"

fun next_iter :: "nat \<Rightarrow> (nat \<times> 'k \<times> 'v) list \<Rightarrow> iter" where
  "next_iter i (x # y # ys) = (if fst x = i then Some (fst y) else next_iter i (y # ys))"
| "next_iter i _ = None"

definition lm_erase :: "('k, 'v) ListMap \<Rightarrow> nat \<Rightarrow> ('k, 'v) ListMap \<times> iter" where
  "lm_erase m i =
     (m\<lparr>node_list := list_erase i (node_list m),
        key_map := (case list_at i (node_list m) of None \<Rightarrow> key_map m | Some (k, v) \<Rightarrow> (key_map m)(k := None))\<rparr>,
      next_iter i (node_list m))"

text \<open>What an iterator points to, and the value of a key through \<open>find\<close>.\<close>

definition lm_deref :: "('k, 'v) ListMap \<Rightarrow> nat \<Rightarrow> ('k \<times> 'v) option" where
  "lm_deref m i = list_at i (node_list m)"

definition lm_get :: "('k, 'v) ListMap \<Rightarrow> 'k \<Rightarrow> 'v option" where
  "lm_get m key = (case lm_find m key of None \<Rightarrow> None | Some i \<Rightarrow> map_option snd (lm_deref m i))"

section \<open>LruCache\<close>

record ('k, 'v) LruCache =
  lru_capacity :: nat
  list_map :: "('k, 'v) ListMap"

text \<open>The constructor asserts that the capacity is not 0.\<close>

definition lru_new :: "nat \<Rightarrow> ('k, 'v) LruCache option" where
  "lru_new capacity = (if capacity \<noteq> 0 then Some \<lparr>lru_capacity = capacity, list_map = lm_empty\<rparr> else None)"

definition lru_eq :: "('k, 'v) LruCache \<Rightarrow> ('k, 'v) LruCache \<Rightarrow> bool" where
  "lru_eq c rhs \<longleftrightarrow> lru_capacity c = lru_capacity rhs \<and> lm_eq (list_map c) (list_map rhs)"

definition lru_clear :: "('k, 'v) LruCache \<Rightarrow> ('k, 'v) LruCache" where
  "lru_clear c = c\<lparr>list_map := lm_clear (list_map c)\<rparr>"

definition lru_find :: "('k, 'v) LruCache \<Rightarrow> 'k \<Rightarrow> ('k, 'v) LruCache \<times> iter" where
  "lru_find c key =
     (case lm_find (list_map c) key of
        None \<Rightarrow> (c, lm_end)
      | Some i \<Rightarrow> (c\<lparr>list_map := lm_splice (list_map c) (lm_begin (list_map c)) i\<rparr>, Some i))"

definition lru_contains :: "('k, 'v) LruCache \<Rightarrow> 'k \<Rightarrow> ('k, 'v) LruCache \<times> bool" where
  "lru_contains c key = (let (c, i) = lru_find c key in (c, i \<noteq> lm_end))"

text \<open>Removal of the tail when the cache is at capacity.\<close>

definition lru_evict :: "('k, 'v) LruCache \<Rightarrow> ('k, 'v) LruCache \<times> ('k \<times> 'v) option" where
  "lru_evict c =
     (if lm_size (list_map c) = lru_capacity c
      then let (m, evicted) = lm_extract (list_map c) (fst (snd (last (node_list (list_map c)))))
           in (c\<lparr>list_map := m\<rparr>, evicted)
      else (c, None))"

definition lru_insert_or_assign :: "('k, 'v) LruCache \<Rightarrow> 'k \<Rightarrow> 'v \<Rightarrow> ('k, 'v) LruCache \<times> ('k \<times> 'v) option" where
  "lru_insert_or_assign c key v =
     (case lru_contains c key of
        (c, True) \<Rightarrow> (c\<lparr>list_map := lm_assign (list_map c) (the (lm_begin (list_map c))) v\<rparr>, None)
      | (c, False) \<Rightarrow>
          let (c, evicted_node) = lru_evict c
          in (c\<lparr>list_map := lm_insert_or_assign_at (list_map c) (lm_begin (list_map c)) key v\<rparr>, evicted_node))"

definition lru_try_emplace ::
    "('k, 'v) LruCache \<Rightarrow> 'k \<Rightarrow> 'v \<Rightarrow> ('k, 'v) LruCache \<times> iter \<times> bool \<times> ('k \<times> 'v) option" where
  "lru_try_emplace c key v =
     (case lru_contains c key of
        (c, True) \<Rightarrow> (c, lm_end, False, None)
      | (c, False) \<Rightarrow>
          let (c, evicted_node) = lru_evict c;
              (m, i, b) = lm_try_emplace (list_map c) (lm_begin (list_map c)) key v
          in (c\<lparr>list_map := m\<rparr>, i, b, evicted_node))"

definition lru_extract :: "('k, 'v) LruCache \<Rightarrow> 'k \<Rightarrow> ('k, 'v) LruCache \<times> ('k \<times> 'v) option" where
  "lru_extract c key = (let (m, r) = lm_extract (list_map c) key in (c\<lparr>list_map := m\<rparr>, r))"

definition lru_erase :: "('k, 'v) LruCache \<Rightarrow> nat \<Rightarrow> ('k, 'v) LruCache \<times> iter" where
  "lru_erase c i = (let (m, r) = lm_erase (list_map c) i in (c\<lparr>list_map := m\<rparr>, r))"

definition lru_size :: "('k, 'v) LruCache \<Rightarrow> nat" where
  "lru_size c = lm_size (list_map c)"

end
