(* ===== verification/Strings.thy ===== *)
theory Strings imports Prelude "HOL-Library.Char_ord" begin

text \<open>
  The string helpers of \<open>gd/common/strings.{h,cc}\<close> and \<open>gd/common/numbers.h\<close>. Of the C and C++
  libraries the code uses character classes, \<open>strtol\<close> and its relatives, \<open>std::from_chars\<close>,
  \<open>std::to_string\<close> and formatted output of bytes in hexadecimal; the first section writes out what
  they compute in the C locale. A string is a list of characters.
\<close>

section \<open>The library functions the code calls\<close>

definition is_space :: "char \<Rightarrow> bool" where
  "is_space c \<longleftrightarrow> c = CHR 0x20 \<or> 9 \<le> (of_char c :: nat) \<and> (of_char c :: nat) \<le> 13"

definition digit_value :: "char \<Rightarrow> nat option" where
  "digit_value c =
     (let n = of_char c :: nat
      in if 48 \<le> n \<and> n \<le> 57 then Some (n - 48)
         else if 97 \<le> n \<and> n \<le> 122 then Some (n - 87)
         else if 65 \<le> n \<and> n \<le> 90 then Some (n - 55)
         else None)"

definition is_digit :: "nat \<Rightarrow> char \<Rightarrow> bool" where
  "is_digit base c = (case digit_value c of None \<Rightarrow> False | Some d \<Rightarrow> d < base)"

definition is_xdigit :: "char \<Rightarrow> bool" where
  "is_xdigit c = is_digit 16 c"

definition digits_value :: "nat \<Rightarrow> string \<Rightarrow> nat" where
  "digits_value base ds = foldl (\<lambda>n c. base * n + the (digit_value c)) 0 ds"

definition digit_char :: "nat \<Rightarrow> char" where
  "digit_char d = (if d < 10 then char_of (48 + d) else char_of (87 + d))"

text \<open>
  \<open>strtol\<close> and \<open>strtoull\<close> before the result is limited to the range of the type: white space, a
  sign, for base 16 an optional \<open>0x\<close>, then the longest run of digits. The result is the value
  and the number of characters that were used, 0 when there is no number.
\<close>

definition skip_sign :: "string \<Rightarrow> bool \<times> string" where
  "skip_sign s = (case s of [] \<Rightarrow> (False, s)
     | c # r \<Rightarrow> if c = CHR ''-'' then (True, r) else if c = CHR ''+'' then (False, r) else (False, s))"

definition skip_prefix :: "nat \<Rightarrow> string \<Rightarrow> string" where
  "skip_prefix base s =
     (if base = 16 \<and> 3 \<le> length s \<and> s ! 0 = CHR ''0'' \<and> s ! 1 \<in> {CHR ''x'', CHR ''X''} \<and> is_xdigit (s ! 2)
      then drop 2 s else s)"

definition c_strtol :: "nat \<Rightarrow> string \<Rightarrow> int \<times> nat" where
  "c_strtol base s =
     (let (neg, r) = skip_sign (dropWhile is_space s);
          r = skip_prefix base r;
          ds = takeWhile (is_digit base) r;
          v = int (digits_value base ds)
      in if ds = [] then (0, 0) else (if neg then - v else v, length s - length r + length ds))"

fun nat_to_string :: "nat \<Rightarrow> string" where
  "nat_to_string n = (if n < 10 then [digit_char n] else nat_to_string (n div 10) @ [digit_char (n mod 10)])"

declare nat_to_string.simps [simp del]

definition to_string :: "int \<Rightarrow> string" where
  "to_string v = (if v < 0 then ''-'' @ nat_to_string (nat (- v)) else nat_to_string (nat v))"

definition hex_byte :: "u8 \<Rightarrow> string" where
  "hex_byte b = [digit_char (unat b div 16), digit_char (unat b mod 16)]"

definition find_sub :: "string \<Rightarrow> string \<Rightarrow> nat option" where
  "find_sub delim s = find (\<lambda>i. take (length delim) (drop i s) = delim \<and> i + length delim \<le> length s) [0..<Suc (length s)]"

text \<open>
  The tokens that successive calls of \<open>std::getline\<close> with a delimiter deliver. Nothing is delivered
  once the end is reached, so a delimiter at the end adds no empty token.
\<close>

fun getline_tokens :: "char \<Rightarrow> string \<Rightarrow> string list" where
  "getline_tokens d [] = []"
| "getline_tokens d (c # cs) =
     (if c = d then [] # getline_tokens d cs
      else case getline_tokens d cs of
             [] \<Rightarrow> [[c]]
           | t # ts \<Rightarrow> (c # t) # ts)"

section \<open>Hexadecimal strings\<close>

definition ToHexString :: "u8 list \<Rightarrow> string" where
  "ToHexString bs = concat (map hex_byte bs)"

definition IsValidHexString :: "string \<Rightarrow> bool" where
  "IsValidHexString str = (find (\<lambda>c. \<not> is_xdigit c) str = None)"

fun from_hex_pairs :: "string \<Rightarrow> u8 list option" where
  "from_hex_pairs [] = Some []"
| "from_hex_pairs [c] = None"
| "from_hex_pairs (a # b # cs) =
     (case takeWhile is_xdigit [a, b] of
        [] \<Rightarrow> None
      | ds \<Rightarrow> map_option (\<lambda>v. of_nat (digits_value 16 ds) # v) (from_hex_pairs cs))"

definition FromHexString :: "string \<Rightarrow> u8 list option" where
  "FromHexString str =
     (if length str mod 2 \<noteq> 0 then None
      else if find (\<lambda>c. \<not> is_xdigit c) str \<noteq> None then None
      else from_hex_pairs str)"

section \<open>Trimming, splitting and joining\<close>

definition StringTrim :: "string \<Rightarrow> string" where
  "StringTrim str = rev (dropWhile is_space (rev (dropWhile is_space str)))"

text \<open>
  The loop of \<open>StringSplit\<close> keeps the index behind the last delimiter; here the string from that
  index on is passed along. The index never passes the end of the string, so the last token is
  always appended. The code asserts that the delimiter is not empty.
\<close>

function split_loop :: "string \<Rightarrow> string \<Rightarrow> nat \<Rightarrow> string list \<Rightarrow> string list" where
  "split_loop str delim max_token tokens =
     (case find_sub delim str of
        Some i \<Rightarrow>
          if (max_token = 0 \<or> length tokens < max_token - 1) \<and> delim \<noteq> []
          then split_loop (drop (i + length delim) str) delim max_token (tokens @ [take i str])
          else tokens @ [str]
      | None \<Rightarrow> tokens @ [str])"
  by auto
termination
proof (relation "measure (\<lambda>(str, delim, max_token, tokens). length str)")
  fix str delim :: string and max_token :: nat and tokens :: "string list" and i
  assume "find_sub delim str = Some i" "(max_token = 0 \<or> length tokens < max_token - 1) \<and> delim \<noteq> []"
  then have "i + length delim \<le> length str" "0 < length delim"
    by (auto simp: find_sub_def find_Some_iff)
  then have "length str - (i + length delim) < length str" by linarith
  then show "((drop (i + length delim) str, delim, max_token, tokens @ [take i str]), str, delim, max_token, tokens)
      \<in> measure (\<lambda>(str, delim, max_token, tokens). length str)"
    by simp
qed simp

declare split_loop.simps [simp del]

definition StringSplit :: "string \<Rightarrow> string \<Rightarrow> nat \<Rightarrow> string list option" where
  "StringSplit str delim max_token =
     (if delim = [] then None else Some (split_loop str delim max_token []))"

fun StringJoin :: "string list \<Rightarrow> string \<Rightarrow> string" where
  "StringJoin [] delim = []"
| "StringJoin [s] delim = s"
| "StringJoin (s # t # ss) delim = s @ delim @ StringJoin (t # ss) delim"

section \<open>Numbers and booleans\<close>

definition Int64FromString :: "string \<Rightarrow> int option" where
  "Int64FromString str =
     (let (value, used) = c_strtol 10 str
      in if value < - (2 ^ 63) \<or> 2 ^ 63 \<le> value then None
         else if used = 0 then None
         else if used \<noteq> length str then None
         else Some value)"

definition Uint64FromString :: "string \<Rightarrow> int option" where
  "Uint64FromString str =
     (if CHR ''-'' \<in> set str then None
      else let (value, used) = c_strtol 10 str
           in if 2 ^ 64 \<le> value then None
              else if used = 0 then None
              else if used \<noteq> length str then None
              else Some value)"

definition BoolFromString :: "string \<Rightarrow> bool option" where
  "BoolFromString str = (if str = ''true'' then Some True else if str = ''false'' then Some False else None)"

definition bool_ToString :: "bool \<Rightarrow> string" where
  "bool_ToString value = (if value then ''true'' else ''false'')"

definition IsNumberInNumericLimits :: "int \<Rightarrow> int \<Rightarrow> int \<Rightarrow> bool" where
  "IsNumberInNumericLimits lowest highest input =
     (if highest < input then False else if input < lowest then False else True)"

section \<open>Digits\<close>

lemma digit_value_char [simp]: "d < 16 \<Longrightarrow> digit_value (digit_char d) = Some d"
  by (auto simp: digit_value_def digit_char_def Let_def of_char_of)

lemma is_digit_char [simp]: "d < 16 \<Longrightarrow> is_digit b (digit_char d) \<longleftrightarrow> d < b"
  by (simp add: is_digit_def)

lemma digits_value_Nil [simp]: "digits_value b [] = 0"
  by (simp add: digits_value_def)

lemma digits_value_snoc [simp]: "digits_value b (ds @ [c]) = b * digits_value b ds + the (digit_value c)"
  by (simp add: digits_value_def)

lemma digits_value_nat_to_string [simp]: "digits_value 10 (nat_to_string n) = n"
proof (induction n rule: nat_to_string.induct)
  case (1 n)
  then show ?case
    by (subst nat_to_string.simps) (simp add: digits_value_def)
qed

lemma nat_to_string_digits: "c \<in> set (nat_to_string n) \<Longrightarrow> \<exists>d < 10. c = digit_char d"
proof (induction n rule: nat_to_string.induct)
  case (1 n)
  from 1(2) show ?case
    by (subst (asm) nat_to_string.simps) (auto dest: 1(1) intro: exI [of _ "n mod 10"] split: if_splits)
qed

lemma nat_to_string_ne [simp]: "nat_to_string n \<noteq> []"
  by (subst nat_to_string.simps) simp

lemma digit_char_plain:
  assumes "d < 10"
  shows "\<not> is_space (digit_char d) \<and> digit_char d \<noteq> CHR ''-'' \<and> digit_char d \<noteq> CHR ''+''"
proof -
  have "of_char (digit_char d) = 48 + d" using assms by (simp add: digit_char_def of_char_of)
  then show ?thesis using assms by (auto simp: is_space_def)
qed

lemma takeWhile_all: "\<forall>x \<in> set xs. P x \<Longrightarrow> takeWhile P xs = xs"
  by (simp add: takeWhile_eq_all_conv)

lemma takeWhile_nat_to_string: "takeWhile (is_digit 10) (nat_to_string n) = nat_to_string n"
  by (rule takeWhile_all) (auto dest!: nat_to_string_digits)

lemma c_strtol_nat: "c_strtol 10 (nat_to_string n) = (int n, length (nat_to_string n))"
proof -
  let ?s = "nat_to_string n"
  obtain c r where s: "?s = c # r" using nat_to_string_ne by (cases ?s) auto
  then obtain d where d: "d < 10" "c = digit_char d" using nat_to_string_digits [of c n] by auto
  have "dropWhile is_space ?s = ?s" "skip_sign ?s = (False, ?s)"
    using digit_char_plain [OF d(1)] by (simp_all add: s d(2) skip_sign_def)
  moreover note takeWhile_nat_to_string [of n]
  ultimately show ?thesis by (simp only: c_strtol_def skip_prefix_def) (simp add: Let_def takeWhile_nat_to_string)
qed

lemma c_strtol_neg: "c_strtol 10 (CHR ''-'' # nat_to_string n) = (- int n, Suc (length (nat_to_string n)))"
proof -
  let ?s = "nat_to_string n"
  have "\<not> is_space CHR ''-''" by (simp add: is_space_def)
  then show ?thesis
    by (simp add: c_strtol_def skip_prefix_def skip_sign_def takeWhile_nat_to_string Let_def)
qed

lemma Int64FromString_to_string:
  "Int64FromString (to_string v) = (if - (2 ^ 63) \<le> v \<and> v < 2 ^ 63 then Some v else None)"
  by (auto simp: Int64FromString_def to_string_def c_strtol_nat c_strtol_neg)

lemma Uint64FromString_to_string:
  "Uint64FromString (to_string v) = (if 0 \<le> v \<and> v < 2 ^ 64 then Some v else None)"
proof (cases "v < 0")
  case False
  then have "CHR ''-'' \<notin> set (to_string v)"
    by (auto simp: to_string_def dest!: nat_to_string_digits digit_char_plain)
  then show ?thesis using False by (simp add: Uint64FromString_def to_string_def c_strtol_nat)
qed (simp add: Uint64FromString_def to_string_def)

section \<open>Bytes in hexadecimal\<close>

lemma unat_less_byte: "unat (b :: u8) < 256"
  using unsigned_less [of b] by simp

lemma unat_nibbles: "unat (b :: u8) div 16 < 16" "unat b mod 16 < 16"
  using unat_less_byte [of b] by simp_all

lemma from_hex_pairs_byte: "from_hex_pairs (hex_byte b @ cs) = map_option ((#) b) (from_hex_pairs cs)"
proof -
  have "16 * (unat b div 16) + unat b mod 16 = unat b" by simp
  then show ?thesis
    by (simp add: hex_byte_def is_xdigit_def unat_nibbles digits_value_def)
qed

lemma from_hex_pairs_ToHexString: "from_hex_pairs (ToHexString bs) = Some bs"
  by (induction bs) (simp_all add: ToHexString_def from_hex_pairs_byte)

lemma ToHexString_xdigits: "c \<in> set (ToHexString bs) \<Longrightarrow> is_xdigit c"
  by (auto simp: ToHexString_def hex_byte_def is_xdigit_def unat_nibbles)

lemma length_ToHexString: "length (ToHexString bs) = 2 * length bs"
  by (induction bs) (simp_all add: ToHexString_def hex_byte_def)

lemma FromHexString_ToHexString: "FromHexString (ToHexString bs) = Some bs"
  by (auto simp: FromHexString_def length_ToHexString from_hex_pairs_ToHexString find_None_iff dest: ToHexString_xdigits)

section \<open>Trimming and splitting\<close>

abbreviation trimmed :: "string \<Rightarrow> bool" where
  "trimmed s \<equiv> s = [] \<or> \<not> is_space (hd s) \<and> \<not> is_space (last s)"

lemma dropWhile_hd: "s \<noteq> [] \<Longrightarrow> \<not> P (hd s) \<Longrightarrow> dropWhile P s = s"
  by (cases s) simp_all

lemma StringTrim_id: "trimmed s \<Longrightarrow> StringTrim s = s"
  by (cases "s = []") (simp_all add: StringTrim_def dropWhile_hd hd_rev)

lemma StringTrim_trimmed: "trimmed (StringTrim s)"
proof (cases "StringTrim s = []")
  case False
  let ?d = "dropWhile is_space s" let ?e = "dropWhile is_space (rev ?d)"
  have e: "?e \<noteq> []" "StringTrim s = rev ?e" using False by (simp_all add: StringTrim_def)
  have "\<not> is_space (hd ?e)" using e(1) by (rule hd_dropWhile)
  moreover have "last ?e = last (rev ?d)"
    using e(1) takeWhile_dropWhile_id [of is_space "rev ?d"] by (metis last_appendR)
  moreover have "?d \<noteq> []" using e(1) by (cases "?d = []") simp_all
  ultimately show ?thesis using e by (simp add: last_rev hd_rev hd_dropWhile)
qed simp

lemma StringTrim_pad: "is_space c \<Longrightarrow> StringTrim (c # s) = StringTrim s" "is_space c \<Longrightarrow> StringTrim (s @ [c]) = StringTrim s"
  by (cases "\<forall>x \<in> set s. is_space x")
    (auto simp: StringTrim_def dropWhile_append dropWhile_eq_Nil_conv [THEN iffD2])

lemma find_sub_char:
  "find_sub [c] (a @ c # b) = Some (length a)" if "c \<notin> set a"
proof -
  have "a ! i \<noteq> c" if "i < length a" for i using that \<open>c \<notin> set a\<close> by (metis nth_mem)
  then have "take 1 (drop i (a @ c # b)) \<noteq> [c]" if "i < length a" for i
    using that by (simp add: nth_append take_Suc_conv_app_nth flip: Cons_nth_drop_Suc)
  then show ?thesis
    unfolding find_sub_def find_Some_iff
    by (intro exI [of _ "length a"]) (auto simp: nth_append simp del: upt_Suc)
qed

lemma find_sub_none: "c \<notin> set s \<Longrightarrow> find_sub [c] s = None"
proof -
  assume "c \<notin> set s"
  then have "take 1 (drop i s) \<noteq> [c]" for i
    by (metis in_set_dropD in_set_takeD list.set_intros(1))
  then show ?thesis by (auto simp: find_sub_def find_None_iff)
qed

lemma split_two:
  assumes "c \<notin> set a"
  shows "StringSplit (a @ c # b) [c] 2 = Some [a, b]"
  using assms by (simp add: StringSplit_def split_loop.simps find_sub_char split: option.split)

lemma getline_tokens_last: "t \<noteq> [] \<Longrightarrow> d \<notin> set t \<Longrightarrow> getline_tokens d t = [t]"
proof (induction t)
  case (Cons c t)
  then show ?case by (cases "t = []") auto
qed simp

lemma getline_tokens_sep: "d \<notin> set t \<Longrightarrow> getline_tokens d (t @ d # s) = t # getline_tokens d s"
  by (induction t) auto

end
