(* ===== verification/Address.thy ===== *)
theory Address imports Strings begin

text \<open>
  Device addresses: \<open>hci::Address\<close> of \<open>pdl/hci/address.cc\<close>, which holds the six bytes least
  significant first, and \<open>RawAddress\<close> of \<open>types/src/address.cc\<close>, which holds them most significant
  first. Both print and parse the form \<open>aa:bb:cc:dd:ee:ff\<close>.
\<close>

section \<open>Definitions\<close>

type_synonym hci_address = "u8 list"
type_synonym raw_address = "u8 list"

definition kLength :: nat where
  "kLength = 6"

definition address_kAny :: hci_address where
  "address_kAny = [0xFF, 0xFF, 0xFF, 0xFF, 0xFF, 0xFF]"

definition address_kEmpty :: hci_address where
  "address_kEmpty = [0x00, 0x00, 0x00, 0x00, 0x00, 0x00]"

definition address_of_list :: "u8 list \<Rightarrow> hci_address" where
  "address_of_list l = take kLength l @ replicate (kLength - length l) 0"

definition address_of_raw :: "raw_address \<Rightarrow> hci_address" where
  "address_of_raw a = [a ! 5, a ! 4, a ! 3, a ! 2, a ! 1, a ! 0]"

text \<open>The loop over the bytes from the most significant one; \<open>count\<close> is how many were written.\<close>

fun masked_loop :: "nat \<Rightarrow> nat \<Rightarrow> u8 list \<Rightarrow> string" where
  "masked_loop count bytes_to_mask [] = []"
| "masked_loop count bytes_to_mask (b # bs) =
     (if count < bytes_to_mask then ''xx'' else hex_byte b)
     @ (if bs \<noteq> [] then '':'' else [])
     @ masked_loop (count + 1) bytes_to_mask bs"

definition ToMaskedColonSepHexString :: "hci_address \<Rightarrow> nat \<Rightarrow> string" where
  "ToMaskedColonSepHexString a bytes_to_mask = masked_loop 0 bytes_to_mask (rev a)"

definition address_ToString :: "hci_address \<Rightarrow> string" where
  "address_ToString a = ToMaskedColonSepHexString a 0"

definition address_ToRedactedStringForLogging :: "hci_address \<Rightarrow> string" where
  "address_ToRedactedStringForLogging a = ToMaskedColonSepHexString a 4"

fun parse_octets :: "(nat \<Rightarrow> nat) \<Rightarrow> string list \<Rightarrow> nat \<Rightarrow> u8 list \<Rightarrow> (nat \<times> u8 list) option" where
  "parse_octets pos [] index addr = Some (index, addr)"
| "parse_octets pos (token # ts) index addr =
     (if 6 \<le> index then None
      else if length token \<noteq> 2 then None
      else let (v, used) = c_strtol 16 token;
               addr = addr[pos index := of_int v]
           in if used = 0 then None
              else if used \<noteq> length token then None
              else parse_octets pos ts (index + 1) addr)"

definition parse_address :: "(nat \<Rightarrow> nat) \<Rightarrow> string \<Rightarrow> u8 list option" where
  "parse_address pos from_s =
     (if length from_s \<noteq> 17 then None
      else case parse_octets pos (getline_tokens CHR '':'' from_s) 0 (replicate kLength 0) of
             None \<Rightarrow> None
           | Some (index, addr) \<Rightarrow> if index \<noteq> 6 then None else Some addr)"

definition address_FromString :: "string \<Rightarrow> hci_address option" where
  "address_FromString from_s = parse_address (\<lambda>index. 5 - index) from_s"

text \<open>The variant with an output parameter: the result and the new value of \<open>to\<close>.\<close>

definition address_FromString_to :: "string \<Rightarrow> hci_address \<Rightarrow> bool \<times> hci_address" where
  "address_FromString_to from_s to_a =
     (case address_FromString from_s of
        None \<Rightarrow> (False, replicate kLength 0)
      | Some addr \<Rightarrow> (True, addr))"

definition address_FromOctets :: "u8 list \<Rightarrow> nat \<times> hci_address" where
  "address_FromOctets from_b = (kLength, take kLength from_b)"

definition IsValidAddress :: "string \<Rightarrow> bool" where
  "IsValidAddress a \<longleftrightarrow> address_FromString a \<noteq> None"

definition raw_ToString :: "raw_address \<Rightarrow> string" where
  "raw_ToString a = hex_byte (a ! 0) @ '':'' @ hex_byte (a ! 1) @ '':'' @ hex_byte (a ! 2) @ '':''
     @ hex_byte (a ! 3) @ '':'' @ hex_byte (a ! 4) @ '':'' @ hex_byte (a ! 5)"

definition raw_ToRedactedStringForLogging :: "raw_address \<Rightarrow> string" where
  "raw_ToRedactedStringForLogging a =
     (if a = replicate 6 0xFF \<or> a = replicate 6 0 then raw_ToString a
      else ''xx:xx:xx:xx:'' @ hex_byte (a ! 4) @ '':'' @ hex_byte (a ! 5))"

definition raw_FromString :: "string \<Rightarrow> raw_address option" where
  "raw_FromString from_s = parse_address (\<lambda>index. index) from_s"

definition raw_FromOctets :: "u8 list \<Rightarrow> raw_address" where
  "raw_FromOctets from_b = take kLength from_b"

definition raw_IsValidAddress :: "string \<Rightarrow> bool" where
  "raw_IsValidAddress a \<longleftrightarrow> raw_FromString a \<noteq> None"

definition BDADDR_TO_STREAM :: "u8 list \<Rightarrow> raw_address \<Rightarrow> u8 list" where
  "BDADDR_TO_STREAM p a = p @ map (\<lambda>ijk. a ! (6 - 1 - ijk)) [0..<6]"

definition STREAM_TO_BDADDR :: "u8 list \<Rightarrow> raw_address \<times> u8 list" where
  "STREAM_TO_BDADDR p = (map (\<lambda>k. p ! (5 - k)) [0..<6], drop 6 p)"

section \<open>Lemmas\<close>

lemma of_char_digit_char: "d < 16 \<Longrightarrow> of_char (digit_char d) = (if d < 10 then 48 + d else 87 + d)"
  by (simp add: digit_char_def of_char_of)

lemma digit_char_neq:
  assumes "d < 16"
  shows "digit_char d \<noteq> CHR '':''" "digit_char d \<noteq> CHR ''-''" "digit_char d \<noteq> CHR ''+''" "\<not> is_space (digit_char d)"
    "digit_char d \<noteq> CHR 0x0A" "digit_char d \<noteq> CHR ''x''"
  using assms of_char_digit_char [OF assms] by (auto simp: is_space_def split: if_splits)

lemma hex_byte_no_colon: "CHR '':'' \<notin> set (hex_byte b)"
  using digit_char_neq(1) [OF unat_nibbles(1) [of b]] digit_char_neq(1) [OF unat_nibbles(2) [of b]] by (auto simp: hex_byte_def)

lemma length_hex_byte [simp]: "length (hex_byte b) = 2" "hex_byte b \<noteq> []"
  by (simp_all add: hex_byte_def)

lemma c_strtol_hex_byte: "c_strtol 16 (hex_byte b) = (int (unat b), 2)"
proof -
  note n = digit_char_neq [OF unat_nibbles(1) [of b]]
  have "16 * (unat b div 16) + unat b mod 16 = unat b" by simp
  then show ?thesis
    using n by (simp add: c_strtol_def skip_sign_def skip_prefix_def hex_byte_def unat_nibbles digits_value_def Let_def)
qed

lemma zero_address: "replicate kLength 0 = [0, 0, 0, 0, 0, 0 :: u8]"
  by (simp add: kLength_def numeral_eq_Suc)

lemma six_cases:
  assumes "length a = 6"
  obtains a0 a1 a2 a3 a4 a5 where "a = [a0, a1, a2, a3, a4, a5]"
  using assms by (auto simp: length_Suc_conv numeral_eq_Suc)

lemma getline_tokens_raw:
  "length a = 6 \<Longrightarrow> getline_tokens CHR '':'' (raw_ToString a) = map hex_byte a"
  by (erule six_cases) (simp add: raw_ToString_def getline_tokens_sep hex_byte_no_colon getline_tokens_last)

lemma raw_round_trip: "length a = 6 \<Longrightarrow> raw_FromString (raw_ToString a) = Some a"
proof -
  assume a: "length a = 6"
  have "length (raw_ToString a) = 17" by (simp add: raw_ToString_def)
  with a show ?thesis
    by (elim six_cases)
      (simp add: raw_FromString_def parse_address_def getline_tokens_raw c_strtol_hex_byte zero_address)
qed

lemma address_ToString_raw: "length a = 6 \<Longrightarrow> address_ToString (address_of_raw a) = raw_ToString a"
  by (erule six_cases)
    (simp add: address_ToString_def ToMaskedColonSepHexString_def address_of_raw_def raw_ToString_def)

lemma address_of_raw_rev: "length a = 6 \<Longrightarrow> address_of_raw a = rev a"
  by (erule six_cases) (simp add: address_of_raw_def)

lemma address_round_trip: "length a = 6 \<Longrightarrow> address_FromString (address_ToString a) = Some a"
proof -
  assume a: "length a = 6"
  have s: "address_ToString a = raw_ToString (rev a)"
    using a address_ToString_raw [of "rev a"] by (simp add: address_of_raw_rev)
  have "length (raw_ToString (rev a)) = 17" by (simp add: raw_ToString_def)
  with a show ?thesis
    unfolding s
    by (elim six_cases)
      (simp add: address_FromString_def parse_address_def getline_tokens_raw c_strtol_hex_byte zero_address)
qed

lemma parse_octets_length: "parse_octets pos ts i addr = Some (j, a) \<Longrightarrow> length a = length addr"
  by (induction ts arbitrary: i addr) (auto simp: Let_def split: if_splits prod.splits)

lemma address_FromString_length: "address_FromString s = Some a \<Longrightarrow> length a = 6"
  by (auto simp: address_FromString_def parse_address_def kLength_def dest!: parse_octets_length split: if_splits option.splits prod.splits)

lemma IsValidAddress_length: "IsValidAddress s \<Longrightarrow> length s = 17"
  by (auto simp: IsValidAddress_def address_FromString_def parse_address_def split: if_splits)

lemma bdaddr_stream_round_trip:
  "length a = 6 \<Longrightarrow> STREAM_TO_BDADDR (BDADDR_TO_STREAM [] a @ rest) = (a, rest)"
  by (erule six_cases) (simp add: STREAM_TO_BDADDR_def BDADDR_TO_STREAM_def upt_rec numeral_eq_Suc)

end
