(* ===== verification/Config_Cache.thy ===== *)
theory Config_Cache imports List_Map Address begin

text \<open>
  The configuration store: \<open>ConfigCache\<close> of \<open>gd/storage/config_cache.{h,cc}\<close>, the mutations of
  \<open>gd/storage/mutation.cc\<close> and \<open>mutation_entry.cc\<close>, the file format of
  \<open>gd/storage/legacy_config_file.cc\<close> and the key store of \<open>btif/src/btif_keystore.cc\<close> that keeps the
  link keys in Common Criteria mode. A failed \<open>log::assert_that\<close> aborts the process; an operation that
  can abort returns \<open>None\<close> then. The mutex is not part of the model: every method holds it from its
  first to its last statement. The look-ups that the code declares \<open>const\<close> still move a temporary
  section to the front of its cache, so they return the cache as well.
\<close>

section \<open>The key store\<close>

record bt_keystore =
  ks_callbacks :: "(string \<Rightarrow> string) option"
  ks_key_map :: "string \<rightharpoonup> string"
  ks_posted :: "(string \<times> string) list"

definition set_encrypt_key_or_remove_key :: "bt_keystore \<Rightarrow> string \<Rightarrow> string \<Rightarrow> bool \<times> bt_keystore" where
  "set_encrypt_key_or_remove_key ks prefix decryptedString =
     (case ks_callbacks ks of
        None \<Rightarrow> (False, ks)
      | Some _ \<Rightarrow>
          (True, ks\<lparr>ks_key_map := (ks_key_map ks)(prefix \<mapsto> decryptedString),
                    ks_posted := ks_posted ks @ [(prefix, decryptedString)]\<rparr>))"

definition get_key :: "bt_keystore \<Rightarrow> string \<Rightarrow> string \<times> bt_keystore" where
  "get_key ks prefix =
     (case ks_callbacks ks of
        None \<Rightarrow> ([], ks)
      | Some cb \<Rightarrow>
          (case ks_key_map ks prefix of
             None \<Rightarrow> (cb prefix, ks\<lparr>ks_key_map := (ks_key_map ks)(prefix \<mapsto> cb prefix)\<rparr>)
           | Some decryptedString \<Rightarrow> (decryptedString, ks)))"

definition clear_map :: "bt_keystore \<Rightarrow> bt_keystore" where
  "clear_map ks = ks\<lparr>ks_key_map := Map.empty\<rparr>"

text \<open>\<open>ParameterProvider\<close>: the registered key store, if there is one, and the mode.\<close>

record parameter_provider =
  bt_keystore_interface :: "bt_keystore option"
  common_criteria_mode :: bool

section \<open>State\<close>

type_synonym section_map = "(string, string) ListMap"

record config_cache =
  has_callback :: bool
  notified :: nat
  persistent_property_names :: "string set"
  information_sections :: "(string, section_map) ListMap"
  persistent_devices :: "(string, section_map) ListMap"
  temporary_devices :: "(string, section_map) LruCache"

definition kEncryptKeyNameList :: "string list" where
  "kEncryptKeyNameList = [''LinkKey'', ''LE_KEY_PENC'', ''LE_KEY_PID'', ''LE_KEY_LID'',
     ''LE_KEY_PCSRK'', ''LE_KEY_LENC'', ''LE_KEY_LCSRK'']"

definition TrimAfterNewLine :: "string \<Rightarrow> string" where
  "TrimAfterNewLine value = takeWhile (\<lambda>c. c \<noteq> CHR 0x0A) value"

definition InEncryptKeyNameList :: "string \<Rightarrow> bool" where
  "InEncryptKeyNameList key \<longleftrightarrow> key \<in> set kEncryptKeyNameList"

definition kLePropertyNames :: "string list" where
  "kLePropertyNames = [''LE_KEY_PENC'', ''LE_KEY_PID'', ''LE_KEY_PCSRK'', ''LE_KEY_LENC'', ''LE_KEY_LCSRK'']"

definition kClassicPropertyNames :: "string list" where
  "kClassicPropertyNames = [''LinkKey'', ''SdpDiMaufacturer'', ''SdpDiModel'', ''SdpDiHardwareVersion'', ''SdpDiVendorSource'']"

definition kDefaultSectionName :: string where
  "kDefaultSectionName = ''Global''"

definition kEncryptedStr :: string where
  "kEncryptedStr = ''encrypted''"

definition new_ConfigCache :: "nat \<Rightarrow> string set \<Rightarrow> config_cache option" where
  "new_ConfigCache temp_device_capacity names =
     map_option (\<lambda>lru. \<lparr>has_callback = False, notified = 0, persistent_property_names = names,
         information_sections = lm_empty, persistent_devices = lm_empty, temporary_devices = lru\<rparr>)
       (lru_new temp_device_capacity)"

definition SetPersistentConfigChangedCallback :: "config_cache \<Rightarrow> bool \<Rightarrow> config_cache" where
  "SetPersistentConfigChangedCallback c callback = c\<lparr>has_callback := callback\<rparr>"

definition PersistentConfigChangedCallback :: "config_cache \<Rightarrow> config_cache" where
  "PersistentConfigChangedCallback c = (if has_callback c then c\<lparr>notified := notified c + 1\<rparr> else c)"

text \<open>Move construction and assignment: the source must not have a callback, the target loses its own.\<close>

definition move_ConfigCache :: "config_cache \<Rightarrow> config_cache option" where
  "move_ConfigCache other = (if has_callback other then None else Some (other\<lparr>has_callback := False\<rparr>))"

definition lm_eq_nested :: "(string, section_map) ListMap \<Rightarrow> (string, section_map) ListMap \<Rightarrow> bool" where
  "lm_eq_nested m rhs \<longleftrightarrow>
     list_all2 (\<lambda>(i, k, s) (j, k', s'). k = k' \<and> lm_eq s s') (node_list m) (node_list rhs)"

definition config_cache_eq :: "config_cache \<Rightarrow> config_cache \<Rightarrow> bool" where
  "config_cache_eq c rhs \<longleftrightarrow>
     persistent_property_names c = persistent_property_names rhs
     \<and> lm_eq_nested (information_sections c) (information_sections rhs)
     \<and> lm_eq_nested (persistent_devices c) (persistent_devices rhs)
     \<and> lru_capacity (temporary_devices c) = lru_capacity (temporary_devices rhs)
     \<and> lm_eq_nested (list_map (temporary_devices c)) (list_map (temporary_devices rhs))"

definition Clear :: "config_cache \<Rightarrow> config_cache" where
  "Clear c =
     (let c = (if 0 < lm_size (information_sections c)
               then PersistentConfigChangedCallback (c\<lparr>information_sections := lm_clear (information_sections c)\<rparr>)
               else c);
          c = (if 0 < lm_size (persistent_devices c)
               then PersistentConfigChangedCallback (c\<lparr>persistent_devices := lm_clear (persistent_devices c)\<rparr>)
               else c)
      in if 0 < lru_size (temporary_devices c)
         then c\<lparr>temporary_devices := lru_clear (temporary_devices c)\<rparr>
         else c)"

section \<open>Observers\<close>

text \<open>The section an iterator points to, and its replacement through the iterator.\<close>

definition section_at :: "(string, section_map) ListMap \<Rightarrow> nat \<Rightarrow> section_map" where
  "section_at m i = (case lm_deref m i of None \<Rightarrow> lm_empty | Some (k, s) \<Rightarrow> s)"

definition modify_at :: "(string, section_map) ListMap \<Rightarrow> iter \<Rightarrow> (section_map \<Rightarrow> section_map) \<Rightarrow> (string, section_map) ListMap" where
  "modify_at m it f = (case it of None \<Rightarrow> m | Some i \<Rightarrow> lm_assign m i (f (section_at m i)))"

definition IsDeviceSection :: "string \<Rightarrow> bool" where
  "IsDeviceSection section = IsValidAddress section"

definition IsPersistentProperty :: "config_cache \<Rightarrow> string \<Rightarrow> bool" where
  "IsPersistentProperty c property \<longleftrightarrow> property \<in> persistent_property_names c"

definition find_temporary :: "config_cache \<Rightarrow> string \<Rightarrow> config_cache \<times> iter" where
  "find_temporary c section =
     (let (lru, it) = lru_find (temporary_devices c) section in (c\<lparr>temporary_devices := lru\<rparr>, it))"

definition HasSection :: "config_cache \<Rightarrow> string \<Rightarrow> config_cache \<times> bool" where
  "HasSection c section =
     (if lm_contains (information_sections c) section then (c, True)
      else if lm_contains (persistent_devices c) section then (c, True)
      else let (c, it) = find_temporary c section in (c, it \<noteq> lm_end))"

definition HasProperty :: "config_cache \<Rightarrow> string \<Rightarrow> string \<Rightarrow> config_cache \<times> bool" where
  "HasProperty c section property =
     (case lm_find (information_sections c) section of
        Some i \<Rightarrow> (c, lm_find (section_at (information_sections c) i) property \<noteq> lm_end)
      | None \<Rightarrow>
          (case lm_find (persistent_devices c) section of
             Some i \<Rightarrow> (c, lm_find (section_at (persistent_devices c) i) property \<noteq> lm_end)
           | None \<Rightarrow>
               let (c, it) = find_temporary c section
               in case it of
                    Some i \<Rightarrow> (c, lm_find (section_at (list_map (temporary_devices c)) i) property \<noteq> lm_end)
                  | None \<Rightarrow> (c, False)))"

definition property_at :: "(string, section_map) ListMap \<Rightarrow> iter \<Rightarrow> string \<Rightarrow> string option" where
  "property_at m it property = (case it of None \<Rightarrow> None | Some i \<Rightarrow> lm_get (section_at m i) property)"

definition GetProperty ::
    "parameter_provider \<Rightarrow> config_cache \<Rightarrow> string \<Rightarrow> string \<Rightarrow> parameter_provider \<times> config_cache \<times> string option" where
  "GetProperty env c section property =
     (case property_at (information_sections c) (lm_find (information_sections c) section) property of
        Some value \<Rightarrow> (env, c, Some value)
      | None \<Rightarrow>
          (case property_at (persistent_devices c) (lm_find (persistent_devices c) section) property of
             Some value \<Rightarrow>
               (case bt_keystore_interface env of
                  Some ks \<Rightarrow>
                    if value = kEncryptedStr
                    then let (key, ks) = get_key ks (section @ ''-'' @ property)
                         in (env\<lparr>bt_keystore_interface := Some ks\<rparr>, c, Some key)
                    else (env, c, Some value)
                | None \<Rightarrow> (env, c, Some value))
           | None \<Rightarrow>
               let (c, it) = find_temporary c section
               in (env, c, property_at (list_map (temporary_devices c)) it property)))"

definition GetPersistentSections :: "config_cache \<Rightarrow> string list" where
  "GetPersistentSections c = map (fst \<circ> snd) (node_list (persistent_devices c))"

definition IsPersistentSection :: "config_cache \<Rightarrow> string \<Rightarrow> bool" where
  "IsPersistentSection c section = lm_contains (persistent_devices c) section"

definition sections_with_property :: "(string, section_map) ListMap \<Rightarrow> string \<Rightarrow> (string \<times> string) list" where
  "sections_with_property m property =
     List.map_filter (\<lambda>(i, k, s). map_option (Pair k) (lm_get s property)) (node_list m)"

definition GetSectionNamesWithProperty :: "config_cache \<Rightarrow> string \<Rightarrow> (string \<times> string) list" where
  "GetSectionNamesWithProperty c property =
     sections_with_property (information_sections c) property
     @ sections_with_property (persistent_devices c) property
     @ sections_with_property (list_map (temporary_devices c)) property"

definition property_names_at :: "(string, section_map) ListMap \<Rightarrow> nat \<Rightarrow> string list" where
  "property_names_at m i = map (fst \<circ> snd) (node_list (section_at m i))"

definition GetPropertyNames :: "config_cache \<Rightarrow> string \<Rightarrow> config_cache \<times> string list" where
  "GetPropertyNames c section =
     (case lm_find (information_sections c) section of
        Some i \<Rightarrow> (c, property_names_at (information_sections c) i)
      | None \<Rightarrow>
          (case lm_find (persistent_devices c) section of
             Some i \<Rightarrow> (c, property_names_at (persistent_devices c) i)
           | None \<Rightarrow>
               let (c, it) = find_temporary c section
               in (c, case it of None \<Rightarrow> [] | Some i \<Rightarrow> property_names_at (list_map (temporary_devices c)) i)))"

definition has_matching :: "section_map \<Rightarrow> string set \<Rightarrow> bool" where
  "has_matching s property_names = list_ex (\<lambda>(i, k, v). k \<in> property_names) (node_list s)"

definition HasAtLeastOneMatchingPropertiesInSection :: "config_cache \<Rightarrow> string \<Rightarrow> string set \<Rightarrow> config_cache \<times> bool" where
  "HasAtLeastOneMatchingPropertiesInSection c section property_names =
     (if \<not> IsDeviceSection section
      then case lm_find (information_sections c) section of
             None \<Rightarrow> (c, False)
           | Some i \<Rightarrow> (c, has_matching (section_at (information_sections c) i) property_names)
      else case lm_find (persistent_devices c) section of
             Some i \<Rightarrow> (c, has_matching (section_at (persistent_devices c) i) property_names)
           | None \<Rightarrow>
               let (c, it) = find_temporary c section
               in case it of
                    None \<Rightarrow> (c, False)
                  | Some i \<Rightarrow> (c, has_matching (section_at (list_map (temporary_devices c)) i) property_names))"

section \<open>Modifiers\<close>

text \<open>\<open>SetProperty\<close> in the parts its code has: an information section, the section of a device that is or
  becomes persistent, with the value moved to the key store in Common Criteria mode, and the section
  of a temporary device.\<close>

definition set_information_property :: "config_cache \<Rightarrow> string \<Rightarrow> string \<Rightarrow> string \<Rightarrow> config_cache" where
  "set_information_property c section property value =
     (let (m, it) = (case lm_find (information_sections c) section of
                       Some i \<Rightarrow> (information_sections c, Some i)
                     | None \<Rightarrow> let (m, it, b) = lm_try_emplace_back (information_sections c) section lm_empty in (m, it));
          m = modify_at m it (\<lambda>s. lm_insert_or_assign s property value)
      in PersistentConfigChangedCallback (c\<lparr>information_sections := m\<rparr>))"

definition make_persistent :: "config_cache \<Rightarrow> string \<Rightarrow> string \<Rightarrow> config_cache \<times> iter" where
  "make_persistent c section property =
     (case lm_find (persistent_devices c) section of
        Some i \<Rightarrow> (c, Some i)
      | None \<Rightarrow>
          if IsPersistentProperty c property
          then let (lru, section_properties) = lru_extract (temporary_devices c) section;
                   props = (case section_properties of Some (k, s) \<Rightarrow> s | None \<Rightarrow> lm_empty);
                   (m, it, b) = lm_try_emplace_back (persistent_devices c) section props
               in (c\<lparr>persistent_devices := m, temporary_devices := lru\<rparr>, it)
          else (c, lm_end))"

definition encrypt_value ::
    "parameter_provider \<Rightarrow> string \<Rightarrow> string \<Rightarrow> string \<Rightarrow> parameter_provider \<times> string" where
  "encrypt_value env section property value =
     (case bt_keystore_interface env of
        Some ks \<Rightarrow>
          if value \<noteq> [] \<and> common_criteria_mode env \<and> InEncryptKeyNameList property \<and> value \<noteq> kEncryptedStr
          then let (ok, ks) = set_encrypt_key_or_remove_key ks (section @ ''-'' @ property) value
               in (env\<lparr>bt_keystore_interface := Some ks\<rparr>, if ok then kEncryptedStr else value)
          else (env, value)
      | None \<Rightarrow> (env, value))"

definition set_temporary_property :: "config_cache \<Rightarrow> string \<Rightarrow> string \<Rightarrow> string \<Rightarrow> config_cache" where
  "set_temporary_property c section property value =
     (let (c, it) = find_temporary c section;
          (lru, it) = (case it of
                         Some i \<Rightarrow> (temporary_devices c, Some i)
                       | None \<Rightarrow> let (lru, it, b, ev) = lru_try_emplace (temporary_devices c) section lm_empty in (lru, it))
      in c\<lparr>temporary_devices :=
             lru\<lparr>list_map := modify_at (list_map lru) it (\<lambda>s. lm_insert_or_assign s property value)\<rparr>\<rparr>)"

definition SetProperty ::
    "parameter_provider \<Rightarrow> config_cache \<Rightarrow> string \<Rightarrow> string \<Rightarrow> string \<Rightarrow> (parameter_provider \<times> config_cache) option" where
  "SetProperty env c section property value =
     (let section = TrimAfterNewLine section;
          property = TrimAfterNewLine property;
          value = TrimAfterNewLine value
      in if section = [] then None
         else if property = [] then None
         else if \<not> IsDeviceSection section then Some (env, set_information_property c section property value)
         else
           let (c, it) = make_persistent c section property
           in if it \<noteq> lm_end
              then let (env, value) = encrypt_value env section property value
                   in Some (env, PersistentConfigChangedCallback
                        (c\<lparr>persistent_devices := modify_at (persistent_devices c) it (\<lambda>s. lm_insert_or_assign s property value)\<rparr>))
              else Some (env, set_temporary_property c section property value))"

definition RemoveSection :: "config_cache \<Rightarrow> string \<Rightarrow> config_cache \<times> bool" where
  "RemoveSection c section =
     (case lm_extract (information_sections c) section of
        (m, Some n) \<Rightarrow> (PersistentConfigChangedCallback (c\<lparr>information_sections := m\<rparr>), True)
      | (m, None) \<Rightarrow>
          let c = c\<lparr>information_sections := m\<rparr>
          in case lm_extract (persistent_devices c) section of
               (m, Some n) \<Rightarrow> (PersistentConfigChangedCallback (c\<lparr>persistent_devices := m\<rparr>), True)
             | (m, None) \<Rightarrow>
                 let c = c\<lparr>persistent_devices := m\<rparr>;
                     (lru, r) = lru_extract (temporary_devices c) section
                 in (c\<lparr>temporary_devices := lru\<rparr>, r \<noteq> None))"

text \<open>Removal of a property through the iterator of its section: the map, the removed value, and
  whether the section is empty now.\<close>

definition extract_at ::
    "(string, section_map) ListMap \<Rightarrow> nat \<Rightarrow> string \<Rightarrow> (string, section_map) ListMap \<times> (string \<times> string) option \<times> bool" where
  "extract_at m i property =
     (let (s, value) = lm_extract (section_at m i) property
      in (lm_assign m i s, value, lm_size s = 0))"

definition remove_key :: "parameter_provider \<Rightarrow> string \<Rightarrow> string \<Rightarrow> parameter_provider" where
  "remove_key env section property =
     (case bt_keystore_interface env of
        Some ks \<Rightarrow>
          if common_criteria_mode env \<and> InEncryptKeyNameList property
          then env\<lparr>bt_keystore_interface := Some (snd (set_encrypt_key_or_remove_key ks (section @ ''-'' @ property) []))\<rparr>
          else env
      | None \<Rightarrow> env)"

definition remove_information_property :: "config_cache \<Rightarrow> nat \<Rightarrow> string \<Rightarrow> config_cache \<times> bool" where
  "remove_information_property c i property =
     (let (m, value, is_empty) = extract_at (information_sections c) i property;
          m = (if is_empty then fst (lm_erase m i) else m);
          c = c\<lparr>information_sections := m\<rparr>
      in if value \<noteq> None then (PersistentConfigChangedCallback c, True) else (c, False))"

definition remove_persistent_property ::
    "parameter_provider \<Rightarrow> config_cache \<Rightarrow> nat \<Rightarrow> string \<Rightarrow> string \<Rightarrow> parameter_provider \<times> config_cache \<times> bool" where
  "remove_persistent_property env c i section property =
     (let (m, value, is_empty) = extract_at (persistent_devices c) i property;
          c = (if is_empty then c\<lparr>persistent_devices := fst (lm_erase m i)\<rparr>
               else if value \<noteq> None \<and> IsPersistentProperty c property
               then let (m, section_properties) = lm_extract m section;
                        props = (case section_properties of Some (k, s) \<Rightarrow> s | None \<Rightarrow> lm_empty)
                    in c\<lparr>persistent_devices := m,
                         temporary_devices := fst (lru_insert_or_assign (temporary_devices c) section props)\<rparr>
               else c\<lparr>persistent_devices := m\<rparr>)
      in if value \<noteq> None then (remove_key env section property, PersistentConfigChangedCallback c, True)
         else (env, c, False))"

definition remove_temporary_property :: "config_cache \<Rightarrow> string \<Rightarrow> string \<Rightarrow> config_cache \<times> bool" where
  "remove_temporary_property c section property =
     (let (c, it) = find_temporary c section
      in case it of
           None \<Rightarrow> (c, False)
         | Some i \<Rightarrow>
             let (m, value, is_empty) = extract_at (list_map (temporary_devices c)) i property;
                 lru = (temporary_devices c)\<lparr>list_map := m\<rparr>;
                 lru = (if is_empty then fst (lru_erase lru i) else lru)
             in (c\<lparr>temporary_devices := lru\<rparr>, value \<noteq> None))"

definition RemoveProperty ::
    "parameter_provider \<Rightarrow> config_cache \<Rightarrow> string \<Rightarrow> string \<Rightarrow> parameter_provider \<times> config_cache \<times> bool" where
  "RemoveProperty env c section property =
     (case lm_find (information_sections c) section of
        Some i \<Rightarrow> (env, remove_information_property c i property)
      | None \<Rightarrow>
          (case lm_find (persistent_devices c) section of
             Some i \<Rightarrow> remove_persistent_property env c i section property
           | None \<Rightarrow> (env, remove_temporary_property c section property)))"

text \<open>One property of one section in \<open>ConvertEncryptOrDecryptKeyIfNeeded\<close>, which goes through all
  names of \<open>kEncryptKeyNameList\<close> for every persistent section. The order in which the code visits the
  names is that of an unordered set.\<close>

definition convert_property ::
    "string \<Rightarrow> (parameter_provider \<times> config_cache) option \<Rightarrow> string \<Rightarrow> (parameter_provider \<times> config_cache) option" where
  "convert_property section st property =
     (case st of
        None \<Rightarrow> None
      | Some (env, c) \<Rightarrow>
          (case property_at (persistent_devices c) (lm_find (persistent_devices c) section) property of
             None \<Rightarrow> Some (env, c)
           | Some value \<Rightarrow>
               (case bt_keystore_interface env of
                  None \<Rightarrow> Some (env, c)
                | Some ks \<Rightarrow>
                    if value \<noteq> kEncryptedStr
                    then if value \<noteq> [] \<and> common_criteria_mode env
                         then let (ok, ks) = set_encrypt_key_or_remove_key ks (section @ ''-'' @ property) value;
                                  env = env\<lparr>bt_keystore_interface := Some ks\<rparr>
                              in if ok then SetProperty env c section property kEncryptedStr else Some (env, c)
                         else Some (env, c)
                    else let (value_str, ks) = get_key ks (section @ ''-'' @ property);
                             env = env\<lparr>bt_keystore_interface := Some ks\<rparr>
                         in if \<not> common_criteria_mode env then SetProperty env c section property value_str else Some (env, c))))"

definition ConvertEncryptOrDecryptKeyIfNeeded ::
    "parameter_provider \<Rightarrow> config_cache \<Rightarrow> (parameter_provider \<times> config_cache) option" where
  "ConvertEncryptOrDecryptKeyIfNeeded env c =
     foldl (\<lambda>st section. foldl (convert_property section) st kEncryptKeyNameList) (Some (env, c)) (GetPersistentSections c)"

text \<open>The loop that erases sections: the iterator passes over the nodes the list has at the start.\<close>

definition erase_sections :: "(string, section_map) ListMap \<Rightarrow> string \<Rightarrow> (string, section_map) ListMap \<times> nat" where
  "erase_sections m property =
     foldl (\<lambda>(m, n) (i, k, s). if lm_contains s property then (fst (lm_erase m i), n + 1) else (m, n)) (m, 0) (node_list m)"

definition RemoveSectionWithProperty :: "config_cache \<Rightarrow> string \<Rightarrow> config_cache" where
  "RemoveSectionWithProperty c property =
     (let (info, n1) = erase_sections (information_sections c) property;
          (pers, n2) = erase_sections (persistent_devices c) property;
          (tmp, n3) = erase_sections (list_map (temporary_devices c)) property;
          c = c\<lparr>information_sections := info, persistent_devices := pers,
                temporary_devices := (temporary_devices c)\<lparr>list_map := tmp\<rparr>\<rparr>
      in if 0 < n1 + n2 then PersistentConfigChangedCallback c else c)"

section \<open>Device types\<close>

datatype DeviceType = UNKNOWN | BR_EDR | LE | DUAL

fun device_type_number :: "DeviceType \<Rightarrow> int" where
  "device_type_number UNKNOWN = 0"
| "device_type_number BR_EDR = 1"
| "device_type_number LE = 2"
| "device_type_number DUAL = 3"

definition device_type_string :: "DeviceType \<Rightarrow> string" where
  "device_type_string t = to_string (device_type_number t)"

text \<open>The type that the keys of a section tell.\<close>

definition infer_device_type :: "section_map \<Rightarrow> DeviceType" where
  "infer_device_type s =
     (let is_le = list_ex (\<lambda>(i, k, v). k \<in> set kLePropertyNames) (node_list s);
          is_classic = list_ex (\<lambda>(i, k, v). k \<in> set kClassicPropertyNames) (node_list s)
      in if is_classic \<and> is_le then DUAL else if is_classic then BR_EDR else if is_le then LE else BR_EDR)"

definition FixDeviceTypeInconsistencyInSection :: "string \<Rightarrow> section_map \<Rightarrow> section_map \<times> bool" where
  "FixDeviceTypeInconsistencyInSection section_name s =
     (if \<not> IsValidAddress section_name then (s, False)
      else if lm_get s ''DevType'' = Some (device_type_string DUAL) then (s, False)
      else let device_type_str = device_type_string (infer_device_type s)
           in case lm_find s ''DevType'' of
                Some i \<Rightarrow>
                  if lm_get s ''DevType'' \<noteq> Some device_type_str then (lm_assign s i device_type_str, True) else (s, False)
              | None \<Rightarrow> (lm_insert_or_assign s ''DevType'' device_type_str, True))"

definition fix_sections :: "(string, section_map) ListMap \<Rightarrow> (string, section_map) ListMap \<times> bool" where
  "fix_sections m =
     (m\<lparr>node_list := map (\<lambda>(i, k, s). (i, k, fst (FixDeviceTypeInconsistencyInSection k s))) (node_list m)\<rparr>,
      list_ex (\<lambda>(i, k, s). snd (FixDeviceTypeInconsistencyInSection k s)) (node_list m))"

definition FixDeviceTypeInconsistencies :: "config_cache \<Rightarrow> config_cache \<times> bool" where
  "FixDeviceTypeInconsistencies c =
     (let (info, b1) = fix_sections (information_sections c);
          (pers, b2) = fix_sections (persistent_devices c);
          (tmp, b3) = fix_sections (list_map (temporary_devices c));
          c = c\<lparr>information_sections := info, persistent_devices := pers,
                temporary_devices := (temporary_devices c)\<lparr>list_map := tmp\<rparr>\<rparr>;
          persistent_device_changed = (b1 \<or> b2);
          c = (if persistent_device_changed then PersistentConfigChangedCallback c else c)
      in (c, persistent_device_changed \<or> b3))"

section \<open>Mutations\<close>

datatype EntryType = SET | REMOVE_PROPERTY | REMOVE_SECTION
datatype PropertyType = NORMAL | MEMORY_ONLY

record MutationEntry =
  entry_type :: EntryType
  property_type :: PropertyType
  entry_section :: string
  entry_property :: string
  entry_value :: string

text \<open>The constructor, with its assertions.\<close>

definition new_MutationEntry :: "EntryType \<Rightarrow> PropertyType \<Rightarrow> string \<Rightarrow> string \<Rightarrow> string \<Rightarrow> MutationEntry option" where
  "new_MutationEntry et pt section property value =
     (let entry = \<lparr>entry_type = et, property_type = pt, entry_section = section,
                   entry_property = property, entry_value = value\<rparr>
      in case et of
           SET \<Rightarrow> if section = [] then None else if property = [] then None else if value = [] then None else Some entry
         | REMOVE_PROPERTY \<Rightarrow> if section = [] then None else if property = [] then None else Some entry
         | REMOVE_SECTION \<Rightarrow> if section = [] then None else Some entry)"

definition MutationEntry_Set :: "PropertyType \<Rightarrow> string \<Rightarrow> string \<Rightarrow> string \<Rightarrow> MutationEntry option" where
  "MutationEntry_Set pt section property value = new_MutationEntry SET pt section property value"

definition MutationEntry_RemoveSection :: "PropertyType \<Rightarrow> string \<Rightarrow> MutationEntry option" where
  "MutationEntry_RemoveSection pt section = new_MutationEntry REMOVE_SECTION pt section [] []"

definition MutationEntry_RemoveProperty :: "PropertyType \<Rightarrow> string \<Rightarrow> string \<Rightarrow> MutationEntry option" where
  "MutationEntry_RemoveProperty pt section property = new_MutationEntry REMOVE_PROPERTY pt section property []"

definition commit_entry ::
    "parameter_provider \<times> config_cache \<Rightarrow> MutationEntry \<Rightarrow> (parameter_provider \<times> config_cache) option" where
  "commit_entry = (\<lambda>(env, c) entry.
     (case entry_type entry of
        SET \<Rightarrow> SetProperty env c (entry_section entry) (entry_property entry) (entry_value entry)
      | REMOVE_PROPERTY \<Rightarrow>
          (case RemoveProperty env c (entry_section entry) (entry_property entry) of (env, c, b) \<Rightarrow> Some (env, c))
      | REMOVE_SECTION \<Rightarrow> Some (env, fst (RemoveSection c (entry_section entry)))))"

fun Commit ::
    "parameter_provider \<times> config_cache \<Rightarrow> MutationEntry list \<Rightarrow> (parameter_provider \<times> config_cache) option" where
  "Commit st [] = Some st"
| "Commit st (entry # entries) =
     (case commit_entry st entry of None \<Rightarrow> None | Some st \<Rightarrow> Commit st entries)"

record Mutation =
  normal_config_entries :: "MutationEntry list"
  memory_only_config_entries :: "MutationEntry list"

definition Mutation_Add :: "Mutation \<Rightarrow> MutationEntry \<Rightarrow> Mutation" where
  "Mutation_Add m entry =
     (case property_type entry of
        NORMAL \<Rightarrow>
          let m = (if entry_type entry \<noteq> SET
                   then m\<lparr>memory_only_config_entries := memory_only_config_entries m @ [entry]\<rparr> else m)
          in m\<lparr>normal_config_entries := normal_config_entries m @ [entry]\<rparr>
      | MEMORY_ONLY \<Rightarrow> m\<lparr>memory_only_config_entries := memory_only_config_entries m @ [entry]\<rparr>)"

text \<open>Both queues are empty after the commit.\<close>

definition Mutation_Commit ::
    "parameter_provider \<Rightarrow> config_cache \<Rightarrow> config_cache \<Rightarrow> Mutation \<Rightarrow>
     (parameter_provider \<times> config_cache \<times> config_cache \<times> Mutation) option" where
  "Mutation_Commit env config memory_only_config m =
     (case Commit (env, config) (normal_config_entries m) of
        None \<Rightarrow> None
      | Some (env, config) \<Rightarrow>
          (case Commit (env, memory_only_config) (memory_only_config_entries m) of
             None \<Rightarrow> None
           | Some (env, memory_only_config) \<Rightarrow>
               Some (env, config, memory_only_config, \<lparr>normal_config_entries = [], memory_only_config_entries = []\<rparr>)))"

section \<open>The file format\<close>

definition newline :: string where
  "newline = [CHR 0x0A]"

definition serialize_section :: "string \<Rightarrow> section_map \<Rightarrow> string" where
  "serialize_section name s =
     ''['' @ name @ '']'' @ newline
     @ concat (map (\<lambda>(i, k, v). k @ '' = '' @ v @ newline) (node_list s))
     @ newline"

definition serialize_sections :: "(string, section_map) ListMap \<Rightarrow> string" where
  "serialize_sections m = concat (map (\<lambda>(i, k, s). serialize_section k s) (node_list m))"

definition SerializeToLegacyFormat :: "config_cache \<Rightarrow> string" where
  "SerializeToLegacyFormat c = serialize_sections (information_sections c) @ serialize_sections (persistent_devices c)"

definition kLinkKeyProperties :: "string set" where
  "kLinkKeyProperties = {''LinkKey'', ''LE_KEY_PENC'', ''LE_KEY_PID'', ''LE_KEY_PCSRK'', ''LE_KEY_LENC'', ''LE_KEY_LCSRK''}"

text \<open>One line of the file: the current section and the cache are carried along. No section stands for the return of
  \<open>std::nullopt\<close>; an abort is \<open>None\<close>. The environment is returned in either case: the key store outlives the cache.\<close>

definition read_line ::
    "string \<Rightarrow> parameter_provider \<times> config_cache \<Rightarrow> string \<Rightarrow> (string option \<times> parameter_provider \<times> config_cache) option" where
  "read_line section st line =
     (let line = StringTrim line
      in if line = [] then Some (Some section, st)
         else if hd line = CHR 0x00 \<or> hd line = CHR ''#'' then Some (Some section, st)
         else if hd line = CHR ''[''
         then if last line \<noteq> CHR '']'' then Some (None, st)
              else Some (Some (take (length line - 2) (drop 1 line)), st)
         else case StringSplit line ''='' 2 of
                None \<Rightarrow> None
              | Some [k, v] \<Rightarrow>
                  map_option (Pair (Some section)) (SetProperty (fst st) (snd st) section (StringTrim k) (StringTrim v))
              | Some _ \<Rightarrow> Some (None, st))"

fun read_lines ::
    "string \<Rightarrow> parameter_provider \<times> config_cache \<Rightarrow> string list \<Rightarrow> (parameter_provider \<times> config_cache option) option" where
  "read_lines section st [] = Some (fst st, Some (snd st))"
| "read_lines section st (line # ls) =
     (case read_line section st line of
        None \<Rightarrow> None
      | Some (None, st) \<Rightarrow> Some (fst st, None)
      | Some (Some section, st) \<Rightarrow> read_lines section st ls)"

text \<open>The contents of the file are \<open>None\<close> when it cannot be opened. The result is \<open>None\<close> for an abort; the cache in it is
  \<open>None\<close> for \<open>std::nullopt\<close>.\<close>

definition Read :: "parameter_provider \<Rightarrow> string option \<Rightarrow> nat \<Rightarrow> (parameter_provider \<times> config_cache option) option" where
  "Read env config_file temp_devices_capacity =
     (case config_file of
        None \<Rightarrow> Some (env, None)
      | Some contents \<Rightarrow>
          (case new_ConfigCache temp_devices_capacity kLinkKeyProperties of
             None \<Rightarrow> None
           | Some cache \<Rightarrow> read_lines kDefaultSectionName (env, cache) (getline_tokens CHR 0x0A contents)))"

end
