(* ===== verification/List_Map_Spec.thy ===== *)
theory List_Map_Spec imports List_Map begin

text \<open>
  The invariant of \<open>ListMap\<close> and \<open>LruCache\<close>, and the refinement of both to association lists: every
  operation of the map is one of the library theory \<open>AList\<close> on the list of its entries, and the cache
  is a bounded list with the most recently used entry first. The locale is what a client of the map
  relies on.
\<close>

section \<open>The interface\<close>

lemma update_new: "k \<notin> fst ` set xs \<Longrightarrow> AList.update k v xs = xs @ [(k, v)]"
  by (induction xs) auto

locale assoc_store =
  fixes wf :: "'m \<Rightarrow> bool" and ent :: "'m \<Rightarrow> ('k \<times> 'v) list"
    and get :: "'m \<Rightarrow> 'k \<Rightarrow> 'v option" and put :: "'m \<Rightarrow> 'k \<Rightarrow> 'v \<Rightarrow> 'm" and del :: "'m \<Rightarrow> 'k \<Rightarrow> 'm"
  assumes ent_distinct: "wf m \<Longrightarrow> distinct (map fst (ent m))"
    and get_ent: "wf m \<Longrightarrow> get m k = map_of (ent m) k"
    and put_wf: "wf m \<Longrightarrow> wf (put m k v)"
    and put_ent: "wf m \<Longrightarrow> ent (put m k v) = AList.update k v (ent m)"
    and del_wf: "wf m \<Longrightarrow> wf (del m k)"
    and del_ent: "wf m \<Longrightarrow> ent (del m k) = AList.delete k (ent m)"
begin

lemma get_put: "wf m \<Longrightarrow> get (put m k v) k' = (if k' = k then Some v else get m k')"
  by (simp add: get_ent put_wf put_ent update_conv')

lemma get_del: "wf m \<Longrightarrow> get (del m k) k' = (if k' = k then None else get m k')"
  by (simp add: get_ent del_wf del_ent delete_conv')

lemma get_Some: "wf m \<Longrightarrow> get m k = Some v \<longleftrightarrow> (k, v) \<in> set (ent m)"
  by (simp add: get_ent ent_distinct)

lemma get_None: "wf m \<Longrightarrow> get m k = None \<longleftrightarrow> k \<notin> fst ` set (ent m)"
  by (simp add: get_ent map_of_eq_None_iff)

lemma put_all:
  assumes "wf m" "distinct (map fst kvs)" "fst ` set (ent m) \<inter> fst ` set kvs = {}"
  shows "wf (foldl (\<lambda>m (k, v). put m k v) m kvs) \<and> ent (foldl (\<lambda>m (k, v). put m k v) m kvs) = ent m @ kvs"
  using assms
proof (induction kvs arbitrary: m)
  case (Cons kv kvs)
  obtain k v where kv: "kv = (k, v)" by (cases kv)
  have "ent (put m k v) = ent m @ [(k, v)]"
    using Cons.prems by (simp add: kv put_ent update_new)
  then show ?case using Cons.IH [of "put m k v"] Cons.prems by (auto simp: kv put_wf)
qed simp

end

section \<open>The invariant of ListMap\<close>

definition lm_wf :: "('k, 'v) ListMap \<Rightarrow> bool" where
  "lm_wf m \<longleftrightarrow> distinct (map fst (node_list m)) \<and> distinct (map (fst \<circ> snd) (node_list m)) \<and>
     (\<forall>k i. key_map m k = Some i \<longleftrightarrow> (\<exists>v. (i, k, v) \<in> set (node_list m)))"

definition nodes :: "('k, 'v) ListMap \<Rightarrow> ('k \<times> 'v) list" where
  "nodes m = map snd (node_list m)"

lemma lm_wf_empty [simp]: "lm_wf lm_empty" "nodes lm_empty = []" "lm_size lm_empty = 0"
  by (simp_all add: lm_wf_def lm_empty_def nodes_def lm_size_def)

lemma lm_wf_clear [simp]: "lm_wf (lm_clear m)" "nodes (lm_clear m) = []"
  by (simp_all add: lm_wf_def lm_clear_def nodes_def)

lemma nodes_distinct: "lm_wf m \<Longrightarrow> distinct (map fst (nodes m))"
  by (simp add: lm_wf_def nodes_def)

lemma lm_size_nodes: "lm_size m = length (nodes m)"
  by (simp add: lm_size_def nodes_def)

lemma key_map_Some:
  assumes "lm_wf m" "key_map m k = Some i"
  obtains v where "(i, k, v) \<in> set (node_list m)" "list_at i (node_list m) = Some (k, v)" "map_of (nodes m) k = Some v"
proof -
  obtain v where v: "(i, k, v) \<in> set (node_list m)" using assms by (auto simp: lm_wf_def)
  then have "(k, v) \<in> set (nodes m)" by (force simp: nodes_def)
  then show thesis
    using that v assms(1) nodes_distinct [OF assms(1)] by (simp add: list_at_def lm_wf_def)
qed

lemma key_map_None: "lm_wf m \<Longrightarrow> key_map m k = None \<Longrightarrow> map_of (nodes m) k = None"
  by (force simp: lm_wf_def nodes_def map_of_eq_None_iff)

lemma key_map_iff: "lm_wf m \<Longrightarrow> key_map m k = None \<longleftrightarrow> map_of (nodes m) k = None"
  using key_map_None by (cases "key_map m k") (auto elim: key_map_Some)

lemma lm_get_nodes: "lm_wf m \<Longrightarrow> lm_get m k = map_of (nodes m) k"
  by (cases "key_map m k")
    (auto simp: lm_get_def lm_find_def lm_end_def lm_deref_def key_map_None elim: key_map_Some)

lemma set_list_emplace [simp]: "set (list_emplace pos n l) = insert n (set l)"
  by (induction l) auto

lemma distinct_list_emplace [simp]: "distinct (map f (list_emplace pos n l)) \<longleftrightarrow> f n \<notin> f ` set l \<and> distinct (map f l)"
  by (induction l) auto

lemma list_emplace_end [simp]: "list_emplace None n l = l @ [n]"
  by (induction l) auto

lemma list_emplace_begin: "list_emplace (case l of [] \<Rightarrow> None | n # ns \<Rightarrow> Some (fst n)) x l = x # l"
  by (cases l) simp_all

lemma new_node_fresh: "n \<in> set (node_list m) \<Longrightarrow> fst n < new_node m"
proof -
  have "n \<in> set l \<Longrightarrow> fst n \<le> foldr (\<lambda>n. max (fst n)) l 0" for l :: "(nat \<times> 'a \<times> 'b) list"
    by (induction l) auto
  then show "n \<in> set (node_list m) \<Longrightarrow> ?thesis" by (simp add: new_node_def le_imp_less_Suc)
qed

lemma lm_wf_emplace:
  assumes "lm_wf m" "key_map m k = None"
  shows "lm_wf (m\<lparr>node_list := list_emplace pos (new_node m, k, v) (node_list m), key_map := (key_map m)(k \<mapsto> new_node m)\<rparr>)"
proof -
  have "new_node m \<notin> fst ` set (node_list m)" using new_node_fresh by fastforce
  moreover have "k \<notin> (fst \<circ> snd) ` set (node_list m)" using assms by (force simp: lm_wf_def)
  ultimately show ?thesis using assms(1) by (auto simp: lm_wf_def image_iff)
qed

section \<open>Operations on association lists\<close>

lemma lm_assign_nodes:
  assumes "lm_wf m" "(i, k, w) \<in> set (node_list m)"
  shows "lm_wf (lm_assign m i v)" "nodes (lm_assign m i v) = AList.update k v (nodes m)"
proof -
  let ?f = "\<lambda>(j, k, w). if j = i then (j, k, v) else (j, k, w)"
  have f: "fst (?f n) = fst n" "fst (snd (?f n)) = fst (snd n)" for n by (auto split: prod.split)
  have fwd: "(j, c, w) \<in> set l \<Longrightarrow> (j, c, if j = i then v else w) \<in> set (map ?f l)" for j c w l by force
  have ex: "(\<exists>w. (j, c, w) \<in> set (map ?f l)) \<longleftrightarrow> (\<exists>w. (j, c, w) \<in> set l)" for j c l
  proof
    show "\<exists>w. (j, c, w) \<in> set (map ?f l) \<Longrightarrow> \<exists>w. (j, c, w) \<in> set l" by (auto split: if_splits)
    show "\<exists>w. (j, c, w) \<in> set l \<Longrightarrow> \<exists>w. (j, c, w) \<in> set (map ?f l)"
      by (elim exE, intro exI, rule fwd)
  qed
  show "lm_wf (lm_assign m i v)"
    using assms(1) by (simp add: lm_wf_def lm_assign_def o_def f ex del: set_map)
  have "(i, k, w) \<in> set l \<Longrightarrow> distinct (map fst l) \<Longrightarrow> distinct (map (fst \<circ> snd) l) \<Longrightarrow>
      map snd (map ?f l) = AList.update k v (map snd l)" for l
  proof (induction l)
    case (Cons n l)
    have "(i, k, w) \<in> set l \<Longrightarrow> i \<in> fst ` set l \<and> k \<in> (fst \<circ> snd) ` set l" by force
    then have "n \<noteq> (i, k, w) \<Longrightarrow> fst n \<noteq> i \<and> fst (snd n) \<noteq> k" using Cons.prems by auto
    note ne = this
    show ?case
    proof (cases "n = (i, k, w)")
      case True
      then have "map ?f l = l" using Cons.prems by (intro map_idI) force
      then show ?thesis using True by (simp del: map_map)
    next
      case False
      then have "?f n = n" using ne by (auto split: prod.split)
      then show ?thesis using False ne Cons by (cases "snd n") (simp del: map_map)
    qed
  qed simp
  then show "nodes (lm_assign m i v) = AList.update k v (nodes m)"
    using assms by (simp add: nodes_def lm_assign_def lm_wf_def)
qed

lemma lm_emplace_nodes:
  assumes "lm_wf m" "map_of (nodes m) k = None"
    and "m' = m\<lparr>node_list := list_emplace pos (new_node m, k, v) (node_list m), key_map := (key_map m)(k \<mapsto> new_node m)\<rparr>"
  shows "lm_wf m'" "pos = None \<Longrightarrow> nodes m' = nodes m @ [(k, v)]" "pos = lm_begin m \<Longrightarrow> nodes m' = (k, v) # nodes m"
proof -
  show "lm_wf m'" unfolding assms(3) by (rule lm_wf_emplace) (use assms(1,2) in \<open>simp_all add: key_map_iff\<close>)
  show "pos = None \<Longrightarrow> nodes m' = nodes m @ [(k, v)]" by (simp add: assms(3) nodes_def)
  show "pos = lm_begin m \<Longrightarrow> nodes m' = (k, v) # nodes m"
    by (simp add: assms(3) nodes_def lm_begin_def list_emplace_begin)
qed

lemma lm_insert_or_assign_nodes:
  assumes "lm_wf m"
  shows "lm_wf (lm_insert_or_assign m k v)" "nodes (lm_insert_or_assign m k v) = AList.update k v (nodes m)"
proof -
  have "lm_wf (lm_insert_or_assign m k v) \<and> nodes (lm_insert_or_assign m k v) = AList.update k v (nodes m)"
  proof (cases "key_map m k")
    case None
    note n = key_map_None [OF assms None]
    have "AList.update k v (nodes m) = nodes m @ [(k, v)]" using n by (simp add: update_new map_of_eq_None_iff)
    then show ?thesis
      using lm_emplace_nodes(1,2) [OF assms n refl, of None v] None
      by (simp add: lm_insert_or_assign_def lm_insert_or_assign_at_def lm_end_def Let_def)
  next
    case (Some i)
    obtain w where "(i, k, w) \<in> set (node_list m)" by (rule key_map_Some [OF assms Some])
    from lm_assign_nodes [OF assms this] show ?thesis
      using Some by (simp add: lm_insert_or_assign_def lm_insert_or_assign_at_def)
  qed
  then show "lm_wf (lm_insert_or_assign m k v)" "nodes (lm_insert_or_assign m k v) = AList.update k v (nodes m)" by auto
qed

lemma lm_try_emplace_back_nodes:
  assumes "lm_wf m" "map_of (nodes m) k = None" "lm_try_emplace_back m k v = (m', it, b)"
  shows "lm_wf m'" "nodes m' = nodes m @ [(k, v)]" "lm_find m' k = it" "b"
  using lm_emplace_nodes [OF assms(1,2) refl, of None v] key_map_iff [OF assms(1)] assms(2,3)
  by (auto simp: lm_try_emplace_back_def lm_try_emplace_def lm_end_def Let_def lm_find_def)

lemma list_erase_nodes:
  assumes "lm_wf m" "(i, k, w) \<in> set (node_list m)"
  shows "map snd (list_erase i (node_list m)) = AList.delete k (nodes m)"
    and "lm_wf (m\<lparr>node_list := list_erase i (node_list m), key_map := (key_map m)(k := None)\<rparr>)"
proof -
  have k: "fst n = i \<longleftrightarrow> fst (snd n) = k" if "n \<in> set (node_list m)" for n
  proof -
    obtain j c v where n: "n = (j, c, v)" by (cases n)
    have "key_map m c = Some j" "key_map m k = Some i" using that assms n by (auto simp: lm_wf_def)
    moreover have "j = i \<Longrightarrow> c = k"
      using that assms n by (auto simp: lm_wf_def dest: eq_key_imp_eq_value)
    ultimately show ?thesis using n by auto
  qed
  then have "list_erase i (node_list m) = filter (\<lambda>n. fst (snd n) \<noteq> k) (node_list m)"
    unfolding list_erase_def by (intro filter_cong) auto
  then show "map snd (list_erase i (node_list m)) = AList.delete k (nodes m)"
    by (auto simp: nodes_def AList.delete_eq filter_map o_def split_beta intro!: arg_cong [where f = "map snd"] filter_cong)
  have "((key_map m)(k := None)) c = Some j \<longleftrightarrow> (\<exists>v. (j, c, v) \<in> set (list_erase i (node_list m)))" for j c
  proof -
    have "key_map m c = Some j \<longleftrightarrow> (\<exists>v. (j, c, v) \<in> set (node_list m))" using assms(1) by (simp add: lm_wf_def)
    then show ?thesis using k [of "(j, c, v)" for v] by (auto simp: list_erase_def)
  qed
  then show "lm_wf (m\<lparr>node_list := list_erase i (node_list m), key_map := (key_map m)(k := None)\<rparr>)"
    using assms(1) by (simp add: lm_wf_def list_erase_def distinct_map_filter)
qed

lemma lm_extract_nodes:
  assumes "lm_wf m"
  shows "lm_wf (fst (lm_extract m k))" "nodes (fst (lm_extract m k)) = AList.delete k (nodes m)"
    "snd (lm_extract m k) = map_option (Pair k) (map_of (nodes m) k)"
proof -
  have "lm_wf (fst (lm_extract m k)) \<and> nodes (fst (lm_extract m k)) = AList.delete k (nodes m) \<and>
    snd (lm_extract m k) = map_option (Pair k) (map_of (nodes m) k)"
  proof (cases "key_map m k")
    case None
    have "map_of (nodes m) k = None" by (rule key_map_None [OF assms None])
    then show ?thesis using assms None by (simp add: lm_extract_def map_of_eq_None_iff delete_id)
  next
    case (Some i)
    obtain w where "(i, k, w) \<in> set (node_list m)" "list_at i (node_list m) = Some (k, w)" "map_of (nodes m) k = Some w"
      by (rule key_map_Some [OF assms Some])
    from this list_erase_nodes [OF assms this(1)] show ?thesis
      using Some by (simp add: lm_extract_def nodes_def)
  qed
  then show "lm_wf (fst (lm_extract m k))" "nodes (fst (lm_extract m k)) = AList.delete k (nodes m)"
    "snd (lm_extract m k) = map_option (Pair k) (map_of (nodes m) k)" by auto
qed

interpretation lm: assoc_store lm_wf nodes lm_get lm_insert_or_assign "\<lambda>m k. fst (lm_extract m k)"
  by unfold_locales (simp_all add: nodes_distinct lm_get_nodes lm_insert_or_assign_nodes lm_extract_nodes)

lemma lm_contains_nodes: "lm_wf m \<Longrightarrow> lm_contains m k \<longleftrightarrow> map_of (nodes m) k \<noteq> None"
  by (simp add: lm_contains_def lm_find_def lm_end_def key_map_iff [symmetric] split: option.split)

lemma lm_find_None: "lm_wf m \<Longrightarrow> lm_find m k = None \<longleftrightarrow> map_of (nodes m) k = None"
  by (simp add: lm_find_def lm_end_def key_map_iff [symmetric] split: option.split)

lemma lm_find_Some:
  assumes "lm_wf m" "lm_find m k = Some i"
  obtains v where "(i, k, v) \<in> set (node_list m)" "lm_deref m i = Some (k, v)" "map_of (nodes m) k = Some v"
proof -
  have "key_map m k = Some i" using assms(2) by (simp add: lm_find_def lm_end_def split: option.splits)
  then show thesis
    using that by (auto simp: lm_deref_def intro: key_map_Some [OF assms(1)])
qed

lemma lm_erase_nodes:
  assumes "lm_wf m" "(i, k, w) \<in> set (node_list m)"
  shows "lm_wf (fst (lm_erase m i))" "nodes (fst (lm_erase m i)) = AList.delete k (nodes m)"
    "node_list (fst (lm_erase m i)) = list_erase i (node_list m)"
proof -
  have "list_at i (node_list m) = Some (k, w)" using assms by (simp add: list_at_def lm_wf_def)
  then show "lm_wf (fst (lm_erase m i))" "nodes (fst (lm_erase m i)) = AList.delete k (nodes m)"
    "node_list (fst (lm_erase m i)) = list_erase i (node_list m)"
    using list_erase_nodes [OF assms] by (simp_all add: lm_erase_def nodes_def)
qed

lemma node_unique: "lm_wf m \<Longrightarrow> (i, k, w) \<in> set (node_list m) \<Longrightarrow> n \<in> set (node_list m) \<Longrightarrow> fst n = i \<Longrightarrow> n = (i, k, w)"
  using eq_key_imp_eq_value [of "node_list m" i "(k, w)" "snd n"] by (cases n) (simp add: lm_wf_def)

lemma list_splice_front:
  assumes "lm_wf m" "(i, k, w) \<in> set (node_list m)"
  shows "list_splice (lm_begin m) i (node_list m) = (i, k, w) # list_erase i (node_list m)"
proof -
  have a: "list_at i (node_list m) = Some (k, w)" using assms by (simp add: list_at_def lm_wf_def)
  obtain n l where l: "node_list m = n # l" using assms(2) by (cases "node_list m") auto
  have d: "distinct (map fst (n # l))" using assms(1) l by (simp add: lm_wf_def)
  show ?thesis
  proof (cases "fst n = i")
    case True
    moreover have "n = (i, k, w)" using True l by (intro node_unique [OF assms]) simp_all
    moreover have "list_erase i l = l" using d True by (auto simp: list_erase_def filter_id_conv image_iff)
    ultimately show ?thesis by (simp add: list_splice_def lm_begin_def l list_erase_def)
  next
    case False
    then show ?thesis using a by (simp add: list_splice_def lm_begin_def l list_erase_def)
  qed
qed

lemma lm_splice_nodes:
  assumes "lm_wf m" "(i, k, w) \<in> set (node_list m)"
  shows "lm_wf (lm_splice m (lm_begin m) i)" "nodes (lm_splice m (lm_begin m) i) = (k, w) # AList.delete k (nodes m)"
    "lm_begin (lm_splice m (lm_begin m) i) = Some i" "(i, k, w) \<in> set (node_list (lm_splice m (lm_begin m) i))"
proof -
  let ?l = "(i, k, w) # list_erase i (node_list m)"
  have s: "set ?l = set (node_list m)"
    using assms by (auto simp: list_erase_def lm_wf_def dest: eq_key_imp_eq_value)
  have "k \<notin> (fst \<circ> snd) ` set (list_erase i (node_list m))"
    using list_erase_nodes(1) [OF assms] by (metis delete_notin_dom dom_map_of_conv_image_fst image_comp image_set set_map) 
  then have "distinct (map (fst \<circ> snd) ?l)" "distinct (map fst ?l)"
    using assms(1) by (auto simp: lm_wf_def list_erase_def distinct_map_filter)
  then show "lm_wf (lm_splice m (lm_begin m) i)"
    using assms(1) s unfolding lm_splice_def list_splice_front [OF assms] by (simp add: lm_wf_def)
  show "nodes (lm_splice m (lm_begin m) i) = (k, w) # AList.delete k (nodes m)"
    "lm_begin (lm_splice m (lm_begin m) i) = Some i" "(i, k, w) \<in> set (node_list (lm_splice m (lm_begin m) i))"
    using list_erase_nodes(1) [OF assms] unfolding lm_splice_def list_splice_front [OF assms]
    by (simp_all add: nodes_def lm_begin_def)
qed

lemma rebuild_keys_other: "k \<notin> (fst \<circ> snd) ` set l \<Longrightarrow> rebuild_keys l km k = km k"
  by (induction l km rule: rebuild_keys.induct) auto

lemma rebuild_keys_Some:
  assumes "distinct (map (fst \<circ> snd) l)" "\<And>k. k \<in> (fst \<circ> snd) ` set l \<Longrightarrow> km k = None" "(i, k, v) \<in> set l"
  shows "rebuild_keys l km k = Some i"
  using assms
proof (induction l km rule: rebuild_keys.induct)
  case (2 j c w ns km)
  show ?case
  proof (cases "(i, k, v) = (j, c, w)")
    case True
    moreover have "km c = None" using 2(3) by simp
    ultimately show ?thesis using 2(2) by (simp add: rebuild_keys_other)
  next
    case False
    then have "(i, k, v) \<in> set ns" using 2(4) by auto
    moreover have "k \<in> (fst \<circ> snd) ` set ns \<Longrightarrow> (if km c = None then km(c \<mapsto> j) else km) k = None" for k
      using 2(2,3) by auto
    ultimately show ?thesis using 2(1) 2(2) by (simp add: o_def)
  qed
qed simp

lemma lm_copy_same: "lm_wf m \<Longrightarrow> lm_copy m = m"
proof -
  assume m: "lm_wf m"
  have "rebuild_keys (node_list m) Map.empty k = key_map m k" for k
  proof (cases "key_map m k")
    case None
    then have "k \<notin> (fst \<circ> snd) ` set (node_list m)" using m by (force simp: lm_wf_def)
    then show ?thesis using None by (simp add: rebuild_keys_other)
  next
    case (Some i)
    then obtain v where "(i, k, v) \<in> set (node_list m)" using m by (auto simp: lm_wf_def)
    then have "rebuild_keys (node_list m) Map.empty k = Some i"
      using m by (intro rebuild_keys_Some) (simp_all add: lm_wf_def)
    then show ?thesis using Some by simp
  qed
  then have "rebuild_keys (node_list m) Map.empty = key_map m" by (rule ext)
  then show ?thesis by (simp add: lm_copy_def)
qed

section \<open>The cache\<close>

definition lru_wf :: "('k, 'v) LruCache \<Rightarrow> bool" where
  "lru_wf c \<longleftrightarrow> lru_capacity c \<noteq> 0 \<and> lm_wf (list_map c) \<and> lm_size (list_map c) \<le> lru_capacity c"

abbreviation lru_nodes :: "('k, 'v) LruCache \<Rightarrow> ('k \<times> 'v) list" where
  "lru_nodes c \<equiv> nodes (list_map c)"

text \<open>The specification: a list of at most \<open>n\<close> entries, warmest first.\<close>

definition warm :: "'k \<Rightarrow> ('k \<times> 'v) list \<Rightarrow> ('k \<times> 'v) list" where
  "warm k xs = (case map_of xs k of None \<Rightarrow> xs | Some v \<Rightarrow> (k, v) # AList.delete k xs)"

definition cache_put :: "nat \<Rightarrow> 'k \<Rightarrow> 'v \<Rightarrow> ('k \<times> 'v) list \<Rightarrow> ('k \<times> 'v) list" where
  "cache_put n k v xs = (k, v) # take (n - 1) (AList.delete k xs)"

lemma length_delete:
  assumes "distinct (map fst xs)" "map_of xs k = Some v"
  shows "Suc (length (AList.delete k xs)) = length xs"
  using assms by (induction xs) auto

lemma length_delete_le: "length (AList.delete k xs) \<le> length xs"
  by (induction xs) auto

lemma delete_last: "xs \<noteq> [] \<Longrightarrow> distinct (map fst xs) \<Longrightarrow> AList.delete (fst (last xs)) xs = butlast xs"
  by (induction xs) auto

lemma lru_find_nodes:
  assumes "lru_wf c" "lru_find c k = (c', it)"
  shows "lru_wf c'" "lru_nodes c' = warm k (lru_nodes c)" "lru_capacity c' = lru_capacity c" "lm_find (list_map c') k = it"
    "it = None \<longleftrightarrow> map_of (lru_nodes c) k = None" "it \<noteq> None \<Longrightarrow> lm_begin (list_map c') = it"
proof -
  have m: "lm_wf (list_map c)" using assms(1) by (simp add: lru_wf_def)
  have "lru_wf c' \<and> lru_nodes c' = warm k (lru_nodes c) \<and> lru_capacity c' = lru_capacity c \<and> lm_find (list_map c') k = it \<and>
    (it = None \<longleftrightarrow> map_of (lru_nodes c) k = None) \<and> (it \<noteq> None \<longrightarrow> lm_begin (list_map c') = it)"
  proof (cases "lm_find (list_map c) k")
    case None
    then have "map_of (lru_nodes c) k = None" by (rule lm_find_None [OF m, THEN iffD1])
    moreover have "c' = c" "it = None" using assms(2) None by (simp_all add: lru_find_def lm_end_def)
    ultimately show ?thesis using assms(1) None by (simp add: warm_def)
  next
    case (Some i)
    then obtain v where v: "(i, k, v) \<in> set (node_list (list_map c))" "map_of (lru_nodes c) k = Some v"
      by (rule lm_find_Some [OF m])
    note s = lm_splice_nodes [OF m v(1)]
    have "lm_size (lm_splice (list_map c) (lm_begin (list_map c)) i) = lm_size (list_map c)"
      using length_delete [OF nodes_distinct [OF m] v(2)] by (simp add: lm_size_nodes s)
    moreover have "lm_find (lm_splice (list_map c) (lm_begin (list_map c)) i) k = Some i"
      using Some by (simp add: lm_find_def lm_splice_def)
    moreover have "c' = c\<lparr>list_map := lm_splice (list_map c) (lm_begin (list_map c)) i\<rparr>" "it = Some i"
      using assms(2) Some by (simp_all add: lru_find_def)
    ultimately show ?thesis
      using assms(1) s v(2) by (simp add: lru_wf_def warm_def)
  qed
  then show "lru_wf c'" "lru_nodes c' = warm k (lru_nodes c)" "lru_capacity c' = lru_capacity c" "lm_find (list_map c') k = it"
    "it = None \<longleftrightarrow> map_of (lru_nodes c) k = None" "it \<noteq> None \<Longrightarrow> lm_begin (list_map c') = it" by auto
qed

lemma lru_evict_nodes:
  assumes "lru_wf c"
  shows "lru_wf (fst (lru_evict c))" "lru_capacity (fst (lru_evict c)) = lru_capacity c"
    "lru_nodes (fst (lru_evict c)) = take (lru_capacity c - 1) (lru_nodes c)"
    "snd (lru_evict c) = (if length (lru_nodes c) = lru_capacity c then Some (last (lru_nodes c)) else None)"
proof -
  let ?xs = "lru_nodes c"
  have m: "lm_wf (list_map c)" and c: "lru_capacity c \<noteq> 0" "length ?xs \<le> lru_capacity c"
    using assms by (simp_all add: lru_wf_def lm_size_nodes)
  have "lru_wf (fst (lru_evict c)) \<and> lru_capacity (fst (lru_evict c)) = lru_capacity c \<and>
    lru_nodes (fst (lru_evict c)) = take (lru_capacity c - 1) ?xs \<and>
    snd (lru_evict c) = (if length ?xs = lru_capacity c then Some (last ?xs) else None)"
  proof (cases "length ?xs = lru_capacity c")
    case True
    then have ne: "?xs \<noteq> []" using c by auto
    then have k: "fst (snd (last (node_list (list_map c)))) = fst (last ?xs)" by (simp add: nodes_def last_map)
    have "last ?xs \<in> set ?xs" using ne by simp
    then have "map_of ?xs (fst (last ?xs)) = Some (snd (last ?xs))" using nodes_distinct [OF m] by simp
    then show ?thesis
      using True c ne lm_extract_nodes [OF m, of "fst (last ?xs)"] delete_last [OF ne nodes_distinct [OF m]]
      by (auto simp: lru_evict_def k lm_size_nodes lru_wf_def butlast_conv_take split: prod.split)
  next
    case False
    then show ?thesis using assms c by (simp add: lru_evict_def lm_size_nodes)
  qed
  then show "lru_wf (fst (lru_evict c))" "lru_capacity (fst (lru_evict c)) = lru_capacity c"
    "lru_nodes (fst (lru_evict c)) = take (lru_capacity c - 1) (lru_nodes c)"
    "snd (lru_evict c) = (if length (lru_nodes c) = lru_capacity c then Some (last (lru_nodes c)) else None)" by auto
qed

lemma lru_contains_eq: "lru_contains c k = (fst (lru_find c k), snd (lru_find c k) \<noteq> None)"
  by (simp add: lru_contains_def lm_end_def split_beta)

lemma lru_emplace_nodes:
  assumes "lru_wf c" "map_of (lru_nodes c) k = None" "lru_evict c = (c1, ev)"
    and "m' = (list_map c1)\<lparr>node_list := list_emplace (lm_begin (list_map c1)) (new_node (list_map c1), k, v) (node_list (list_map c1)),
           key_map := (key_map (list_map c1))(k \<mapsto> new_node (list_map c1))\<rparr>"
  shows "lru_wf (c1\<lparr>list_map := m'\<rparr>)" "nodes m' = cache_put (lru_capacity c) k v (lru_nodes c)"
    "lm_find m' k = Some (new_node (list_map c1))"
proof -
  note e = lru_evict_nodes [OF assms(1), unfolded assms(3) fst_conv snd_conv]
  have c: "lru_capacity c \<noteq> 0" "lm_wf (list_map c1)" using assms(1) e(1) by (simp_all add: lru_wf_def)
  have "map_of (take n (lru_nodes c)) k = None" for n
    using assms(2) by (auto simp: map_of_eq_None_iff dest: in_set_takeD)
  then have n: "map_of (lru_nodes c1) k = None" by (simp add: e(3))
  note p = lm_emplace_nodes [OF c(2) n assms(4)]
  have "AList.delete k (lru_nodes c) = lru_nodes c" using assms(2) by (simp add: map_of_eq_None_iff)
  then show nm: "nodes m' = cache_put (lru_capacity c) k v (lru_nodes c)" by (simp add: p e(3) cache_put_def)
  show "lru_wf (c1\<lparr>list_map := m'\<rparr>)"
    using c(1) p(1) by (simp add: lru_wf_def e(2) lm_size_nodes nm cache_put_def)
  show "lm_find m' k = Some (new_node (list_map c1))" by (simp add: assms(4) lm_find_def)
qed

lemma lru_insert_or_assign_nodes:
  assumes "lru_wf c"
  shows "lru_wf (fst (lru_insert_or_assign c k v))"
    "lru_nodes (fst (lru_insert_or_assign c k v)) = cache_put (lru_capacity c) k v (lru_nodes c)"
    "lru_capacity (fst (lru_insert_or_assign c k v)) = lru_capacity c"
proof -
  obtain c0 it where f: "lru_find c k = (c0, it)" by (cases "lru_find c k")
  note n = lru_find_nodes [OF assms f]
  have "lru_wf (fst (lru_insert_or_assign c k v)) \<and>
    lru_nodes (fst (lru_insert_or_assign c k v)) = cache_put (lru_capacity c) k v (lru_nodes c) \<and>
    lru_capacity (fst (lru_insert_or_assign c k v)) = lru_capacity c"
  proof (cases it)
    case None
    then have k: "map_of (lru_nodes c) k = None" using n(5) by simp
    then have c0: "c0 = c" using f None by (simp add: lru_find_def split: option.splits)
    obtain c1 ev where e: "lru_evict c = (c1, ev)" by (cases "lru_evict c")
    note ev = lru_evict_nodes [OF assms, unfolded e fst_conv snd_conv]
    have "map_of (lru_nodes c1) k = None"
      using k by (auto simp: ev(3) map_of_eq_None_iff dest: in_set_takeD)
    then have "key_map (list_map c1) k = None" using ev(1) by (simp add: lru_wf_def key_map_iff)
    then show ?thesis
      using lru_emplace_nodes [OF assms k e refl, of v] None e c0 ev(2)
      by (simp add: lru_insert_or_assign_def lru_contains_eq f lm_insert_or_assign_at_def Let_def)
  next
    case (Some i)
    have m0: "lm_wf (list_map c0)" using n(1) by (simp add: lru_wf_def)
    obtain w where w: "(i, k, w) \<in> set (node_list (list_map c0))" "map_of (lru_nodes c0) k = Some w"
      using n(4) Some by (auto intro: lm_find_Some [OF m0])
    obtain v0 where v0: "map_of (lru_nodes c) k = Some v0" using n(5) Some by auto
    then have u: "AList.update k v (lru_nodes c0) = (k, v) # AList.delete k (lru_nodes c)"
      by (simp add: n(2) warm_def)
    have "lm_wf (list_map c)" "length (lru_nodes c) \<le> lru_capacity c" using assms by (simp_all add: lru_wf_def lm_size_nodes)
    then have l: "length (AList.delete k (lru_nodes c)) \<le> lru_capacity c - 1"
      using length_delete [OF nodes_distinct v0] by simp
    show ?thesis
      using lm_assign_nodes [OF m0 w(1), of v] n(3,6) Some u l assms
      by (auto simp: lru_insert_or_assign_def lru_contains_eq f cache_put_def lru_wf_def lm_size_nodes)
  qed
  then show "lru_wf (fst (lru_insert_or_assign c k v))"
    "lru_nodes (fst (lru_insert_or_assign c k v)) = cache_put (lru_capacity c) k v (lru_nodes c)"
    "lru_capacity (fst (lru_insert_or_assign c k v)) = lru_capacity c" by auto
qed

lemma lru_try_emplace_nodes:
  assumes "lru_wf c" "map_of (lru_nodes c) k = None" "lru_try_emplace c k v = (c', it, b, ev)"
  shows "lru_wf c'" "lru_nodes c' = cache_put (lru_capacity c) k v (lru_nodes c)" "lru_capacity c' = lru_capacity c"
    "lm_find (list_map c') k = it" "it \<noteq> None" "b"
proof -
  obtain c0 i0 where f: "lru_find c k = (c0, i0)" by (cases "lru_find c k")
  have i0: "i0 = None" using lru_find_nodes(5) [OF assms(1) f] assms(2) by simp
  then have c0: "c0 = c" using f by (simp add: lru_find_def split: option.splits)
  obtain c1 e1 where e: "lru_evict c = (c1, e1)" by (cases "lru_evict c")
  note ev = lru_evict_nodes [OF assms(1), unfolded e fst_conv snd_conv]
  have "map_of (lru_nodes c1) k = None"
    using assms(2) by (auto simp: ev(3) map_of_eq_None_iff dest: in_set_takeD)
  then have km: "key_map (list_map c1) k = None" using ev(1) by (simp add: lru_wf_def key_map_iff)
  have "c' = c1\<lparr>list_map := (list_map c1)\<lparr>node_list := list_emplace (lm_begin (list_map c1)) (new_node (list_map c1), k, v)
      (node_list (list_map c1)), key_map := (key_map (list_map c1))(k \<mapsto> new_node (list_map c1))\<rparr>\<rparr>"
    "it = Some (new_node (list_map c1))" "b"
    using assms(3) km by (auto simp: lru_try_emplace_def lru_contains_eq f i0 c0 e lm_try_emplace_def Let_def)
  then show "lru_wf c'" "lru_nodes c' = cache_put (lru_capacity c) k v (lru_nodes c)" "lru_capacity c' = lru_capacity c"
    "lm_find (list_map c') k = it" "it \<noteq> None" "b"
    using lru_emplace_nodes [OF assms(1,2) e refl, of v] ev(2) by simp_all
qed

lemma lru_extract_nodes:
  assumes "lru_wf c"
  shows "lru_wf (fst (lru_extract c k))" "lru_nodes (fst (lru_extract c k)) = AList.delete k (lru_nodes c)"
    "snd (lru_extract c k) = map_option (Pair k) (map_of (lru_nodes c) k)" "lru_capacity (fst (lru_extract c k)) = lru_capacity c"
proof -
  have m: "lm_wf (list_map c)" "length (lru_nodes c) \<le> lru_capacity c" "lru_capacity c \<noteq> 0"
    using assms by (simp_all add: lru_wf_def lm_size_nodes)
  then show "lru_wf (fst (lru_extract c k))" "lru_nodes (fst (lru_extract c k)) = AList.delete k (lru_nodes c)"
    "snd (lru_extract c k) = map_option (Pair k) (map_of (lru_nodes c) k)" "lru_capacity (fst (lru_extract c k)) = lru_capacity c"
    using lm_extract_nodes [OF m(1), of k] length_delete_le [of k "lru_nodes c"]
    by (simp_all add: lru_extract_def split_beta lru_wf_def lm_size_nodes)
qed

end
