(* ===== verification/Config_Cache_Store.thy ===== *)
theory Config_Cache_Store imports Config_Cache List_Map_Spec begin

text \<open>
  The refinement of \<open>ConfigCache\<close> to three association lists of sections, the abstract store: what every
  operation that changes the cache does to them, the moves between the persistent and the temporary
  devices and the evictions included.
\<close>

section \<open>Association lists\<close>

lemma update_head: "AList.update k v ((k, w) # xs) = (k, v) # xs"
  by simp

lemma update_snoc: "map_of xs k = None \<Longrightarrow> AList.update k v (xs @ [(k, w)]) = AList.update k v xs"
  by (induction xs) auto

lemma set_update_distinct:
  "distinct (map fst xs) \<Longrightarrow> set (AList.update k v xs) = insert (k, v) {x \<in> set xs. fst x \<noteq> k}"
  by (induction xs) (auto simp: image_iff)

lemma set_delete: "set (AList.delete k xs) = {x \<in> set xs. fst x \<noteq> k}"
  by (auto simp: AList.delete_eq)

lemma set_cache_put: "set (cache_put n k v xs) \<subseteq> insert (k, v) {x \<in> set xs. fst x \<noteq> k}"
  by (auto simp: cache_put_def set_delete dest: in_set_takeD)

lemma set_warm: "distinct (map fst xs) \<Longrightarrow> set (warm k xs) = set xs"
  by (auto simp: warm_def set_delete dest: eq_key_imp_eq_value split: option.split)

lemma map_of_warm: "map_of (warm k xs) = map_of xs"
  by (rule ext) (auto simp: warm_def delete_conv' split: option.split)

lemma update_ne [simp]: "AList.update k v xs \<noteq> []"
  by (cases xs) auto

section \<open>Sections\<close>

lemma section_at_find:
  assumes "lm_wf m" "lm_find m k = Some i"
  shows "map_of (nodes m) k = Some (section_at m i)"
  using lm_find_Some [OF assms] by (metis option.simps(5) prod.simps(2) section_at_def)

lemma property_at_find:
  "lm_wf m \<Longrightarrow> property_at m (lm_find m k) p = Option.bind (map_of (nodes m) k) (\<lambda>s. lm_get s p)"
  by (cases "lm_find m k") (simp_all add: property_at_def section_at_find lm_find_None [THEN iffD1])

lemma modify_at_nodes:
  assumes "lm_wf m" "lm_find m k = Some i" "map_of (nodes m) k = Some s"
  shows "lm_wf (modify_at m (Some i) f)" "nodes (modify_at m (Some i) f) = AList.update k (f s) (nodes m)"
proof -
  obtain w where w: "(i, k, w) \<in> set (node_list m)" by (rule lm_find_Some [OF assms(1,2)])
  have "section_at m i = s" using section_at_find [OF assms(1,2)] assms(3) by simp
  then show "lm_wf (modify_at m (Some i) f)" "nodes (modify_at m (Some i) f) = AList.update k (f s) (nodes m)"
    using lm_assign_nodes [OF assms(1) w] by (simp_all add: modify_at_def)
qed

abbreviation old :: "section_map option \<Rightarrow> section_map" where
  "old so \<equiv> (case so of Some s \<Rightarrow> s | None \<Rightarrow> lm_empty)"

definition put_property :: "section_map option \<Rightarrow> string \<Rightarrow> string \<Rightarrow> section_map" where
  "put_property so p v = lm_insert_or_assign (old so) p v"

lemma emplace_modify_nodes:
  assumes "lm_wf m" "map_of (nodes m) k = None" "lm_try_emplace_back m k e = (m1, it, b)"
  shows "lm_wf (modify_at m1 it f)" "nodes (modify_at m1 it f) = AList.update k (f e) (nodes m)"
    "it \<noteq> None"
proof -
  note t = lm_try_emplace_back_nodes [OF assms]
  have k: "map_of (nodes m1) k = Some e" using assms(2) by (simp add: t(2) map_add_Some_iff)
  then obtain i where i: "it = Some i" using lm_find_None [OF t(1), of k] t(3) by (cases it) auto
  show "lm_wf (modify_at m1 it f)" "nodes (modify_at m1 it f) = AList.update k (f e) (nodes m)" "it \<noteq> None"
    using modify_at_nodes [OF t(1) t(3)[unfolded i] k, of f] i update_snoc [OF assms(2)] by (simp_all add: t(2))
qed

text \<open>An information section gets the property; the section is appended when it is new.\<close>

lemma set_information_nodes:
  assumes "lm_wf (information_sections c)"
  shows "\<exists>m. set_information_property c s p v = PersistentConfigChangedCallback (c\<lparr>information_sections := m\<rparr>) \<and> lm_wf m \<and>
    nodes m = AList.update s (put_property (map_of (nodes (information_sections c)) s) p v) (nodes (information_sections c))"
proof (cases "lm_find (information_sections c) s")
  case None
  then have n: "map_of (nodes (information_sections c)) s = None" using assms lm_find_None by metis
  obtain m1 it b where t: "lm_try_emplace_back (information_sections c) s lm_empty = (m1, it, b)"
    by (cases "lm_try_emplace_back (information_sections c) s lm_empty")
  show ?thesis
    using emplace_modify_nodes(1,2) [OF assms n t, of "\<lambda>x. lm_insert_or_assign x p v"] None n t
    by (auto simp: set_information_property_def put_property_def)
next
  case (Some i)
  then have n: "map_of (nodes (information_sections c)) s = Some (section_at (information_sections c) i)"
    by (rule section_at_find [OF assms])
  then show ?thesis
    using modify_at_nodes [OF assms Some n, of "\<lambda>x. lm_insert_or_assign x p v"] Some
    by (auto simp: set_information_property_def put_property_def)
qed

text \<open>A device that is or becomes persistent: the section comes from the persistent devices, or from
  the temporary ones, or is new.\<close>

lemma make_persistent_some:
  assumes "lm_wf (persistent_devices c)" "lru_wf (temporary_devices c)" "make_persistent c s p = (c', it)" "it \<noteq> None"
  shows "\<exists>m lru so. c' = c\<lparr>persistent_devices := m, temporary_devices := lru\<rparr> \<and> lru_wf lru \<and>
    lru_capacity lru = lru_capacity (temporary_devices c) \<and>
    so = (if map_of (nodes (persistent_devices c)) s = None then map_of (lru_nodes (temporary_devices c)) s
          else map_of (nodes (persistent_devices c)) s) \<and>
    lru_nodes lru = (if map_of (nodes (persistent_devices c)) s = None then AList.delete s (lru_nodes (temporary_devices c))
          else lru_nodes (temporary_devices c)) \<and>
    (\<forall>f. lm_wf (modify_at m it f) \<and> nodes (modify_at m it f) = AList.update s (f (old so)) (nodes (persistent_devices c))) \<and>
    (map_of (nodes (persistent_devices c)) s = None \<longrightarrow> IsPersistentProperty c p)"
proof (cases "lm_find (persistent_devices c) s")
  case None
  then have n: "map_of (nodes (persistent_devices c)) s = None" using assms(1) lm_find_None by metis
  have p: "IsPersistentProperty c p" using assms(3,4) None by (auto simp: make_persistent_def lm_end_def split: if_splits)
  obtain lru sp where x: "lru_extract (temporary_devices c) s = (lru, sp)" by (cases "lru_extract (temporary_devices c) s")
  note e = lru_extract_nodes [OF assms(2), of s, unfolded x fst_conv snd_conv]
  let ?e = "old (map_of (lru_nodes (temporary_devices c)) s)"
  have sp: "(case sp of Some (k, s) \<Rightarrow> s | None \<Rightarrow> lm_empty) = ?e" by (simp add: e(3) split: option.split)
  obtain m1 it1 b where t: "lm_try_emplace_back (persistent_devices c) s ?e = (m1, it1, b)"
    by (cases "lm_try_emplace_back (persistent_devices c) s ?e")
  have c': "c' = c\<lparr>persistent_devices := m1, temporary_devices := lru\<rparr>" "it = it1"
    using assms(3) None p t by (auto simp: make_persistent_def x sp)
  show ?thesis
    using emplace_modify_nodes [OF assms(1) n t] e n p c' by auto
next
  case (Some i)
  then have n: "map_of (nodes (persistent_devices c)) s = Some (section_at (persistent_devices c) i)"
    by (rule section_at_find [OF assms(1)])
  have c': "c' = c" "it = Some i" using assms(3) Some by (simp_all add: make_persistent_def)
  show ?thesis
    using modify_at_nodes [OF assms(1) Some n] assms(2) n c'
    by (intro exI [of _ "persistent_devices c"] exI [of _ "temporary_devices c"] exI [of _ "Some (section_at (persistent_devices c) i)"]) simp
qed

lemma make_persistent_none:
  assumes "lm_wf (persistent_devices c)" "make_persistent c s p = (c', it)"
  shows "it = None \<Longrightarrow> c' = c \<and> map_of (nodes (persistent_devices c)) s = None"
  using assms lm_find_None [OF assms(1), of s]
  by (auto simp: make_persistent_def lm_end_def lm_try_emplace_back_def lm_try_emplace_def Let_def lm_find_def
      split: option.splits if_splits prod.splits)

text \<open>A temporary device goes to the front of its cache.\<close>

lemma set_temporary_nodes:
  assumes "lru_wf (temporary_devices c)"
  shows "\<exists>lru. set_temporary_property c s p v = c\<lparr>temporary_devices := lru\<rparr> \<and> lru_wf lru \<and>
    lru_capacity lru = lru_capacity (temporary_devices c) \<and>
    lru_nodes lru = cache_put (lru_capacity (temporary_devices c)) s
      (put_property (map_of (lru_nodes (temporary_devices c)) s) p v) (lru_nodes (temporary_devices c))"
proof -
  let ?t = "temporary_devices c"
  obtain t1 it where f: "lru_find ?t s = (t1, it)" by (cases "lru_find ?t s")
  note n = lru_find_nodes [OF assms f]
  have w1: "lm_wf (list_map t1)" using n(1) by (simp add: lru_wf_def)
  show ?thesis
  proof (cases it)
    case None
    then have k: "map_of (lru_nodes ?t) s = None" and t1: "t1 = ?t"
      using n(5) f by (auto simp: lru_find_def split: option.splits)
    obtain t2 it2 b ev where e: "lru_try_emplace ?t s lm_empty = (t2, it2, b, ev)" by (cases "lru_try_emplace ?t s lm_empty")
    note m = lru_try_emplace_nodes [OF assms k e]
    have w2: "lm_wf (list_map t2)" using m(1) by (simp add: lru_wf_def)
    obtain i where i: "it2 = Some i" using m(5) by auto
    have s2: "map_of (lru_nodes t2) s = Some lm_empty" by (simp add: m(2) cache_put_def)
    note u = modify_at_nodes [OF w2 m(4)[unfolded i] s2, of "\<lambda>x. lm_insert_or_assign x p v"]
    have "length (lru_nodes t2) \<le> lru_capacity t2" "lru_capacity t2 \<noteq> 0" using m(1) by (simp_all add: lru_wf_def lm_size_nodes)
    then show ?thesis
      using u m(2,3) k t1 None e i
      by (intro exI [of _ "t2\<lparr>list_map := modify_at (list_map t2) (Some i) (\<lambda>x. lm_insert_or_assign x p v)\<rparr>"])
        (simp add: set_temporary_property_def find_temporary_def f lru_wf_def lm_size_nodes cache_put_def put_property_def)
  next
    case (Some i)
    then obtain x where x: "map_of (lru_nodes ?t) s = Some x" using n(5) by auto
    have s1: "map_of (lru_nodes t1) s = Some x" by (simp add: n(2) map_of_warm x)
    note u = modify_at_nodes [OF w1 n(4)[unfolded Some] s1, of "\<lambda>x. lm_insert_or_assign x p v"]
    have w: "lm_wf (list_map ?t)" "length (lru_nodes ?t) \<le> lru_capacity ?t" using assms by (simp_all add: lru_wf_def lm_size_nodes)
    have l: "Suc (length (AList.delete s (lru_nodes ?t))) \<le> lru_capacity ?t"
      using length_delete [OF nodes_distinct [OF w(1)] x] w(2) by simp
    have "lru_capacity t1 \<noteq> 0" using n(1) by (simp add: lru_wf_def)
    then show ?thesis
      using u n(2,3) x Some l
      by (intro exI [of _ "t1\<lparr>list_map := modify_at (list_map t1) (Some i) (\<lambda>x. lm_insert_or_assign x p v)\<rparr>"])
        (simp add: set_temporary_property_def find_temporary_def f lru_wf_def lm_size_nodes cache_put_def put_property_def warm_def)
  qed
qed

section \<open>The abstract store\<close>

text \<open>The store as three association lists of sections: information, persistent, temporary.\<close>

type_synonym sections = "(string \<times> section_map) list"
type_synonym store = "sections \<times> sections \<times> sections"

definition store_of :: "config_cache \<Rightarrow> store" where
  "store_of c = (nodes (information_sections c), nodes (persistent_devices c), lru_nodes (temporary_devices c))"

definition maps_wf :: "config_cache \<Rightarrow> bool" where
  "maps_wf c \<longleftrightarrow> lm_wf (information_sections c) \<and> lm_wf (persistent_devices c) \<and> lru_wf (temporary_devices c)"

definition set_store :: "nat \<Rightarrow> string set \<Rightarrow> string \<Rightarrow> string \<Rightarrow> string \<Rightarrow> string \<Rightarrow> store \<Rightarrow> store" where
  "set_store n names s p v ve = (\<lambda>(I, P, T).
     if \<not> IsDeviceSection s then (AList.update s (put_property (map_of I s) p v) I, P, T)
     else if map_of P s \<noteq> None then (I, AList.update s (put_property (map_of P s) p ve) P, T)
     else if p \<in> names then (I, AList.update s (put_property (map_of T s) p ve) P, AList.delete s T)
     else (I, P, cache_put n s (put_property (map_of T s) p v) T))"

lemma callback_fields [simp]:
  "information_sections (PersistentConfigChangedCallback c) = information_sections c"
  "persistent_devices (PersistentConfigChangedCallback c) = persistent_devices c"
  "temporary_devices (PersistentConfigChangedCallback c) = temporary_devices c"
  "persistent_property_names (PersistentConfigChangedCallback c) = persistent_property_names c"
  by (simp_all add: PersistentConfigChangedCallback_def)

lemma callback_store [simp]: "store_of (PersistentConfigChangedCallback c) = store_of c"
  "maps_wf (PersistentConfigChangedCallback c) = maps_wf c"
  by (simp_all add: store_of_def maps_wf_def)

abbreviation same_config :: "config_cache \<Rightarrow> config_cache \<Rightarrow> bool" where
  "same_config c c' \<equiv> maps_wf c' \<and> persistent_property_names c' = persistent_property_names c \<and>
     lru_capacity (temporary_devices c') = lru_capacity (temporary_devices c)"

lemma SetProperty_store:
  assumes "maps_wf c" "SetProperty env c s0 p0 v0 = Some (env', c')"
    and "s = TrimAfterNewLine s0" "p = TrimAfterNewLine p0" "v = TrimAfterNewLine v0"
  shows "same_config c c' \<and> s \<noteq> [] \<and> p \<noteq> [] \<and>
    store_of c' = set_store (lru_capacity (temporary_devices c)) (persistent_property_names c) s p v (snd (encrypt_value env s p v)) (store_of c) \<and>
    env' = (if IsDeviceSection s \<and> (map_of (nodes (persistent_devices c)) s \<noteq> None \<or> IsPersistentProperty c p)
            then fst (encrypt_value env s p v) else env)"
proof -
  have w: "lm_wf (information_sections c)" "lm_wf (persistent_devices c)" "lru_wf (temporary_devices c)"
    using assms(1) by (simp_all add: maps_wf_def)
  have ne: "s \<noteq> []" "p \<noteq> []" using assms(2-) by (auto simp: SetProperty_def Let_def split: if_splits)
  show ?thesis
  proof (cases "IsDeviceSection s")
    case False
    then have "c' = set_information_property c s p v" "env' = env"
      using assms(2-) ne by (auto simp: SetProperty_def Let_def)
    then show ?thesis
      using set_information_nodes [OF w(1), of s p v] w False ne by (auto simp: maps_wf_def store_of_def set_store_def)
  next
    case True
    obtain c1 it where m: "make_persistent c s p = (c1, it)" by (cases "make_persistent c s p")
    show ?thesis
    proof (cases "it = None")
      case None: True
      note n = make_persistent_none [OF w(2) m None]
      then have np: "\<not> IsPersistentProperty c p"
        using m None lm_find_None [OF w(2), of s] by (auto simp: make_persistent_def lm_end_def lm_try_emplace_back_def lm_try_emplace_def Let_def lm_find_def
            split: option.splits if_splits prod.splits)
      have "c' = set_temporary_property c s p v" "env' = env"
        using assms(2-) ne True m None n by (auto simp: SetProperty_def Let_def lm_end_def)
      then show ?thesis
        using set_temporary_nodes [OF w(3), of s p v] w True ne n np
        by (auto simp: store_of_def maps_wf_def set_store_def IsPersistentProperty_def)
    next
      case False
      have "c' = PersistentConfigChangedCallback (c1\<lparr>persistent_devices :=
          modify_at (persistent_devices c1) it (\<lambda>x. lm_insert_or_assign x p (snd (encrypt_value env s p v)))\<rparr>)"
        "env' = fst (encrypt_value env s p v)"
        using assms(2-) ne True m False by (auto simp: SetProperty_def Let_def lm_end_def split_beta)
      then show ?thesis
        using make_persistent_some [OF w(2,3) m False] w True ne
        by (auto simp: store_of_def maps_wf_def set_store_def IsPersistentProperty_def put_property_def)
    qed
  qed
qed

definition remove_section_store :: "string \<Rightarrow> store \<Rightarrow> store \<times> bool" where
  "remove_section_store s = (\<lambda>(I, P, T).
     if map_of I s \<noteq> None then ((AList.delete s I, P, T), True)
     else if map_of P s \<noteq> None then ((I, AList.delete s P, T), True)
     else ((I, P, AList.delete s T), map_of T s \<noteq> None))"

lemma RemoveSection_store:
  assumes "maps_wf c" "RemoveSection c s = (c', b)"
  shows "same_config c c' \<and> (store_of c', b) = remove_section_store s (store_of c)"
proof -
  have w: "lm_wf (information_sections c)" "lm_wf (persistent_devices c)" "lru_wf (temporary_devices c)"
    using assms(1) by (simp_all add: maps_wf_def)
  obtain i ri where i: "lm_extract (information_sections c) s = (i, ri)" by (cases "lm_extract (information_sections c) s")
  obtain p rp where p: "lm_extract (persistent_devices c) s = (p, rp)" by (cases "lm_extract (persistent_devices c) s")
  obtain t rt where t: "lru_extract (temporary_devices c) s = (t, rt)" by (cases "lru_extract (temporary_devices c) s")
  note e = lm_extract_nodes [OF w(1), of s, unfolded i fst_conv snd_conv]
    lm_extract_nodes [OF w(2), of s, unfolded p fst_conv snd_conv] lru_extract_nodes [OF w(3), of s, unfolded t fst_conv snd_conv]
  have d: "map_of xs s = None \<Longrightarrow> AList.delete s xs = xs" for xs :: sections by (simp add: map_of_eq_None_iff)
  show ?thesis
  proof (cases ri)
    case None
    then have I: "map_of (nodes (information_sections c)) s = None" using e(3) by simp
    show ?thesis
    proof (cases rp)
      case rp: None
      then have "map_of (nodes (persistent_devices c)) s = None" using e(6) by simp
      moreover have "c' = c\<lparr>information_sections := i, persistent_devices := p, temporary_devices := t\<rparr>" "b = (rt \<noteq> None)"
        using assms(2) None rp by (simp_all add: RemoveSection_def i p t)
      ultimately show ?thesis using e I d by (simp add: remove_section_store_def store_of_def maps_wf_def)
    next
      case (Some x)
      then have "map_of (nodes (persistent_devices c)) s \<noteq> None" using e(6) by auto
      moreover have "c' = PersistentConfigChangedCallback (c\<lparr>information_sections := i, persistent_devices := p\<rparr>)" "b"
        using assms(2) None Some by (auto simp: RemoveSection_def i p)
      ultimately show ?thesis using e I d w by (simp add: remove_section_store_def store_of_def maps_wf_def)
    qed
  next
    case (Some x)
    then have "map_of (nodes (information_sections c)) s \<noteq> None" using e(3) by auto
    moreover have "c' = PersistentConfigChangedCallback (c\<lparr>information_sections := i\<rparr>)" "b"
      using assms(2) Some by (auto simp: RemoveSection_def i)
    ultimately show ?thesis using e w by (simp add: remove_section_store_def store_of_def maps_wf_def)
  qed
qed

abbreviation del_property :: "section_map \<Rightarrow> string \<Rightarrow> section_map" where
  "del_property s p \<equiv> fst (lm_extract s p)"

definition remove_property_store :: "nat \<Rightarrow> string set \<Rightarrow> string \<Rightarrow> string \<Rightarrow> store \<Rightarrow> store \<times> bool" where
  "remove_property_store n names s p = (\<lambda>(I, P, T).
     case map_of I s of
       Some x \<Rightarrow>
         ((if nodes (del_property x p) = [] then AList.delete s I else AList.update s (del_property x p) I, P, T),
          lm_get x p \<noteq> None)
     | None \<Rightarrow>
         (case map_of P s of
            Some x \<Rightarrow>
              (if nodes (del_property x p) = [] then (I, AList.delete s P, T)
               else if lm_get x p \<noteq> None \<and> p \<in> names then (I, AList.delete s P, cache_put n s (del_property x p) T)
               else (I, AList.update s (del_property x p) P, T),
               lm_get x p \<noteq> None)
          | None \<Rightarrow>
              (case map_of T s of
                 Some x \<Rightarrow>
                   ((I, P, if nodes (del_property x p) = [] then AList.delete s T
                           else AList.update s (del_property x p) (warm s T)),
                    lm_get x p \<noteq> None)
               | None \<Rightarrow> ((I, P, T), False))))"

lemma delete_update_same: "AList.delete k (AList.update k v xs) = AList.delete k xs"
  by (induction xs) auto

lemma delete_warm: "AList.delete k (warm k xs) = AList.delete k xs"
  by (simp add: warm_def delete_idem split: option.split)

lemma lm_size_0: "lm_size m = 0 \<longleftrightarrow> nodes m = []"
  by (simp add: lm_size_nodes)

lemma extract_at_nodes:
  assumes "lm_wf m" "lm_find m k = Some i" "map_of (nodes m) k = Some s" "lm_wf s" "extract_at m i p = (m', vo, e)"
  shows "lm_wf m'" "nodes m' = AList.update k (del_property s p) (nodes m)" "vo \<noteq> None \<longleftrightarrow> lm_get s p \<noteq> None"
    "e \<longleftrightarrow> nodes (del_property s p) = []" "lm_find m' k = Some i"
    "lm_wf (fst (lm_erase m' i))" "nodes (fst (lm_erase m' i)) = AList.delete k (nodes m)"
proof -
  have s: "section_at m i = s" using section_at_find [OF assms(1,2)] assms(3) by simp
  have m': "m' = lm_assign m i (del_property s p)" "vo = snd (lm_extract s p)" "e = (lm_size (del_property s p) = 0)"
    using assms(5) by (auto simp: extract_at_def s split_beta)
  obtain w where w: "(i, k, w) \<in> set (node_list m)" by (rule lm_find_Some [OF assms(1,2)])
  note a = lm_assign_nodes [OF assms(1) w, of "del_property s p", folded m'(1)]
  show "lm_wf m'" "nodes m' = AList.update k (del_property s p) (nodes m)" "e \<longleftrightarrow> nodes (del_property s p) = []"
    using a m'(3) by (simp_all add: lm_size_0)
  show "vo \<noteq> None \<longleftrightarrow> lm_get s p \<noteq> None" using lm_extract_nodes(3) [OF assms(4)] by (simp add: m'(2) lm_get_nodes assms(4))
  show f: "lm_find m' k = Some i" using assms(2) by (simp add: m'(1) lm_find_def lm_assign_def)
  obtain w' where "(i, k, w') \<in> set (node_list m')" by (rule lm_find_Some [OF a(1) f])
  from lm_erase_nodes [OF a(1) this]
  show "lm_wf (fst (lm_erase m' i))" "nodes (fst (lm_erase m' i)) = AList.delete k (nodes m)"
    by (simp_all add: a(2) delete_update_same)
qed

abbreviation sections_wf :: "sections \<Rightarrow> bool" where
  "sections_wf xs \<equiv> \<forall>s \<in> snd ` set xs. lm_wf s"

lemma sections_wf_map_of: "sections_wf xs \<Longrightarrow> map_of xs k = Some s \<Longrightarrow> lm_wf s"
  by (force dest: map_of_SomeD)

lemma remove_information_store:
  assumes "maps_wf c" "sections_wf (nodes (information_sections c))" "lm_find (information_sections c) s = Some i"
    and "remove_information_property c i p = (c', b)"
  shows "same_config c c' \<and> (store_of c', b) = remove_property_store n names s p (store_of c)"
proof -
  let ?m = "information_sections c"
  have w: "lm_wf ?m" using assms(1) by (simp add: maps_wf_def)
  obtain x where x: "map_of (nodes ?m) s = Some x" using section_at_find [OF w assms(3)] by blast
  obtain m' vo e where v: "extract_at ?m i p = (m', vo, e)" by (cases "extract_at ?m i p")
  note a = extract_at_nodes [OF w assms(3) x sections_wf_map_of [OF assms(2) x] v]
  let ?m' = "if e then fst (lm_erase m' i) else m'"
  have "store_of c' = store_of (c\<lparr>information_sections := ?m'\<rparr>)" "same_config (c\<lparr>information_sections := ?m'\<rparr>) c' = same_config c (c\<lparr>information_sections := ?m'\<rparr>)"
    "b = (vo \<noteq> None)"
    using assms(4) v by (auto simp: remove_information_property_def Let_def split: if_splits)
  then show ?thesis
    using a assms(1) x by (auto simp: remove_property_store_def store_of_def maps_wf_def)
qed

lemma remove_temporary_store:
  assumes "maps_wf c" "sections_wf (lru_nodes (temporary_devices c))"
    and "map_of (nodes (information_sections c)) s = None" "map_of (nodes (persistent_devices c)) s = None"
    and "remove_temporary_property c s p = (c', b)"
  shows "same_config c c' \<and> (store_of c', b) = remove_property_store n names s p (store_of c)"
proof -
  let ?t = "temporary_devices c"
  have w: "lru_wf ?t" using assms(1) by (simp add: maps_wf_def)
  obtain t1 it where f: "lru_find ?t s = (t1, it)" by (cases "lru_find ?t s")
  note n = lru_find_nodes [OF w f]
  have w1: "lm_wf (list_map t1)" using n(1) by (simp add: lru_wf_def)
  show ?thesis
  proof (cases it)
    case None
    then have "map_of (lru_nodes ?t) s = None" "t1 = ?t" using n(5) f by (auto simp: lru_find_def split: option.splits)
    then show ?thesis
      using assms None by (simp add: remove_temporary_property_def find_temporary_def f remove_property_store_def store_of_def maps_wf_def)
  next
    case (Some i)
    then obtain x where x: "map_of (lru_nodes ?t) s = Some x" using n(5) by auto
    have x1: "map_of (lru_nodes t1) s = Some x" by (simp add: n(2) map_of_warm x)
    obtain m' vo e where v: "extract_at (list_map t1) i p = (m', vo, e)" by (cases "extract_at (list_map t1) i p")
    note a = extract_at_nodes [OF w1 n(4)[unfolded Some] x1 sections_wf_map_of [OF assms(2) x] v]
    let ?m' = "if e then fst (lm_erase m' i) else m'"
    have "c' = c\<lparr>temporary_devices := t1\<lparr>list_map := ?m'\<rparr>\<rparr>" "b = (vo \<noteq> None)"
      using assms(5) Some v
      by (auto simp: remove_temporary_property_def find_temporary_def f lru_erase_def split_beta Let_def)
    moreover have nd: "nodes ?m' = (if nodes (del_property x p) = [] then AList.delete s (lru_nodes ?t)
        else AList.update s (del_property x p) (warm s (lru_nodes ?t)))"
      using a by (simp add: n(2) delete_warm)
    moreover have "length (nodes ?m') \<le> length (lru_nodes ?t)"
    proof -
      have "length (AList.delete s (lru_nodes ?t)) \<le> length (lru_nodes ?t)" by (rule length_delete_le)
      moreover have "length (warm s (lru_nodes ?t)) = length (lru_nodes ?t)"
        using length_delete [OF nodes_distinct x] w x by (simp add: warm_def lru_wf_def)
      moreover have "length (AList.update s (del_property x p) (warm s (lru_nodes ?t))) = length (warm s (lru_nodes ?t))"
        by (simp add: warm_def x)
      ultimately show ?thesis by (simp add: nd)
    qed
    ultimately show ?thesis
      using a assms(1,3,4) x n(1,3) w
      by (auto simp: remove_property_store_def store_of_def maps_wf_def lru_wf_def lm_size_nodes)
  qed
qed

lemma remove_persistent_store:
  assumes "maps_wf c" "sections_wf (nodes (persistent_devices c))" "lm_find (persistent_devices c) s = Some i"
    and "map_of (nodes (information_sections c)) s = None"
    and "remove_persistent_property env c i s p = (env', c', b)"
    and "n = lru_capacity (temporary_devices c)" "names = persistent_property_names c"
  shows "same_config c c' \<and> (store_of c', b) = remove_property_store n names s p (store_of c)"
proof -
  let ?m = "persistent_devices c"
  have w: "lm_wf ?m" "lru_wf (temporary_devices c)" using assms(1) by (simp_all add: maps_wf_def)
  obtain x where x: "map_of (nodes ?m) s = Some x" using section_at_find [OF w(1) assms(3)] by blast
  obtain m' vo e where v: "extract_at ?m i p = (m', vo, e)" by (cases "extract_at ?m i p")
  note a = extract_at_nodes [OF w(1) assms(3) x sections_wf_map_of [OF assms(2) x] v]
  have mx: "map_of (nodes m') s = Some (del_property x p)" by (simp add: a(2) update_conv')
  obtain m2 sp where m2: "lm_extract m' s = (m2, sp)" by (cases "lm_extract m' s")
  note b2 = lm_extract_nodes [OF a(1), of s, unfolded m2 fst_conv snd_conv]
  note ins = lru_insert_or_assign_nodes [OF w(2), of s "del_property x p"]
  let ?c1 = "if e then c\<lparr>persistent_devices := fst (lm_erase m' i)\<rparr>
     else if vo \<noteq> None \<and> IsPersistentProperty c p
     then c\<lparr>persistent_devices := m2, temporary_devices := fst (lru_insert_or_assign (temporary_devices c) s (del_property x p))\<rparr>
     else c\<lparr>persistent_devices := m'\<rparr>"
  have sp: "sp = Some (s, del_property x p)" by (simp add: b2(3) mx)
  have c1: "c' = (if vo \<noteq> None then PersistentConfigChangedCallback ?c1 else ?c1)" "b = (vo \<noteq> None)"
    using assms(5) v m2 sp by (auto simp: remove_persistent_property_def Let_def split: if_splits)
  have "maps_wf ?c1 \<and> persistent_property_names ?c1 = persistent_property_names c \<and>
      lru_capacity (temporary_devices ?c1) = lru_capacity (temporary_devices c)"
    using a b2 ins assms(1) by (simp add: maps_wf_def)
  moreover have "(store_of ?c1, b) = remove_property_store n names s p (store_of c)"
    using a b2 ins assms(4,6,7) x c1(2)
    by (auto simp: remove_property_store_def store_of_def IsPersistentProperty_def delete_update_same)
  ultimately show ?thesis by (simp add: c1(1))
qed

lemma RemoveProperty_store:
  assumes "maps_wf c" "sections_wf (nodes (information_sections c))" "sections_wf (nodes (persistent_devices c))"
    "sections_wf (lru_nodes (temporary_devices c))" "RemoveProperty env c s p = (env', c', b)"
  shows "same_config c c' \<and> (store_of c', b) =
    remove_property_store (lru_capacity (temporary_devices c)) (persistent_property_names c) s p (store_of c)"
proof -
  have w: "lm_wf (information_sections c)" "lm_wf (persistent_devices c)" using assms(1) by (simp_all add: maps_wf_def)
  show ?thesis
  proof (cases "lm_find (information_sections c) s")
    case None
    note I = lm_find_None [OF w(1), THEN iffD1, OF None]
    show ?thesis
    proof (cases "lm_find (persistent_devices c) s")
      case p: None
      have "remove_temporary_property c s p = (c', b)" using assms(5) None p by (simp add: RemoveProperty_def)
      then show ?thesis
        by (rule remove_temporary_store [OF assms(1,4) I lm_find_None [OF w(2), THEN iffD1, OF p]])
    next
      case (Some i)
      have "remove_persistent_property env c i s p = (env', c', b)" using assms(5) None Some by (simp add: RemoveProperty_def)
      then show ?thesis by (rule remove_persistent_store [OF assms(1,3) Some I _ refl refl])
    qed
  next
    case (Some i)
    have "remove_information_property c i p = (c', b)" using assms(5) Some by (simp add: RemoveProperty_def)
    then show ?thesis by (rule remove_information_store [OF assms(1,2) Some])
  qed
qed

section \<open>Loops over sections\<close>

lemma erase_loop:
  assumes "lm_wf m" "set l \<subseteq> set (node_list m)" "distinct (map fst l)"
    and "foldl (\<lambda>(m, n) (i, k, s). if lm_contains s p then (fst (lm_erase m i), n + 1) else (m, n)) (m, n) l = (m', n')"
  shows "lm_wf m' \<and> node_list m' = filter (\<lambda>x. \<not> (x \<in> set l \<and> lm_contains (snd (snd x)) p)) (node_list m) \<and>
    n' = n + length (filter (\<lambda>x. lm_contains (snd (snd x)) p) l)"
  using assms
proof (induction l arbitrary: m n)
  case (Cons x l)
  obtain i k s where x: "x = (i, k, s)" by (cases x)
  have xm: "(i, k, s) \<in> set (node_list m)" using Cons.prems(2) x by simp
  show ?case
  proof (cases "lm_contains s p")
    case True
    note e = lm_erase_nodes [OF Cons.prems(1) xm]
    have ni: "fst y \<noteq> i" if "y \<in> set l" for y using that Cons.prems(3) x by (auto simp: image_iff)
    have "set l \<subseteq> set (node_list (fst (lm_erase m i)))"
      using Cons.prems(2) ni by (auto simp: e(3) list_erase_def)
    moreover have "foldl (\<lambda>(m, n) (i, k, s). if lm_contains s p then (fst (lm_erase m i), n + 1) else (m, n)) (fst (lm_erase m i), n + 1) l = (m', n')"
      using Cons.prems(4) x True by simp
    ultimately have "lm_wf m' \<and> node_list m' = filter (\<lambda>x. \<not> (x \<in> set l \<and> lm_contains (snd (snd x)) p)) (node_list (fst (lm_erase m i))) \<and>
      n' = n + 1 + length (filter (\<lambda>x. lm_contains (snd (snd x)) p) l)"
      using Cons.IH [of "fst (lm_erase m i)" "n + 1"] e(1) Cons.prems(3) by simp
    moreover have "(fst y \<noteq> i \<and> \<not> (y \<in> set l \<and> lm_contains (snd (snd y)) p)) =
        (\<not> (y \<in> set (x # l) \<and> lm_contains (snd (snd y)) p))" if "y \<in> set (node_list m)" for y
    proof (cases "fst y = i")
      case t: True
      then have "y = x" using node_unique [OF Cons.prems(1) xm that] x by simp
      then show ?thesis using t True x by simp
    qed (use x in auto)
    then have "filter (\<lambda>x. \<not> (x \<in> set l \<and> lm_contains (snd (snd x)) p)) (list_erase i (node_list m)) =
      filter (\<lambda>y. \<not> (y \<in> set (x # l) \<and> lm_contains (snd (snd y)) p)) (node_list m)"
      unfolding list_erase_def filter_filter by (intro filter_cong refl)
    ultimately show ?thesis using True x by (simp add: e(3))
  next
    case False
    then have "lm_wf m' \<and> node_list m' = filter (\<lambda>x. \<not> (x \<in> set l \<and> lm_contains (snd (snd x)) p)) (node_list m) \<and>
      n' = n + length (filter (\<lambda>x. lm_contains (snd (snd x)) p) l)"
      using Cons.IH [of m n] Cons.prems x by simp
    moreover have "filter (\<lambda>x. \<not> (x \<in> set l \<and> lm_contains (snd (snd x)) p)) (node_list m) =
      filter (\<lambda>y. \<not> (y \<in> set (x # l) \<and> lm_contains (snd (snd y)) p)) (node_list m)"
      using False x by (intro filter_cong) auto
    ultimately show ?thesis using False x by simp
  qed
qed simp

lemma erase_sections_nodes:
  assumes "lm_wf m" "sections_wf (nodes m)" "erase_sections m p = (m', n)"
  shows "lm_wf m'" "nodes m' = filter (\<lambda>(k, s). lm_get s p = None) (nodes m)"
    "0 < n \<longleftrightarrow> (\<exists>(k, s) \<in> set (nodes m). lm_get s p \<noteq> None)"
proof -
  have g: "lm_contains (snd (snd x)) p \<longleftrightarrow> lm_get (snd (snd x)) p \<noteq> None" if "x \<in> set (node_list m)" for x
    using that assms(2) by (simp add: nodes_def lm_contains_nodes lm_get_nodes)
  have d: "distinct (map fst (node_list m))" using assms(1) by (simp add: lm_wf_def)
  note e = erase_loop [OF assms(1) subset_refl d, of p 0, OF assms(3) [unfolded erase_sections_def]]
  then show "lm_wf m'" by blast
  have "node_list m' = filter (\<lambda>x. lm_get (snd (snd x)) p = None) (node_list m)"
    using e g by (auto intro!: filter_cong)
  then show "nodes m' = filter (\<lambda>(k, s). lm_get s p = None) (nodes m)"
    by (simp add: nodes_def filter_map o_def split_beta)
  have "n = length (filter (\<lambda>x. lm_contains (snd (snd x)) p) (node_list m))" using e by simp
  also have "filter (\<lambda>x. lm_contains (snd (snd x)) p) (node_list m) = filter (\<lambda>x. lm_get (snd (snd x)) p \<noteq> None) (node_list m)"
    using g by (intro filter_cong) auto
  finally show "0 < n \<longleftrightarrow> (\<exists>(k, s) \<in> set (nodes m). lm_get s p \<noteq> None)"
    by (auto simp: nodes_def filter_empty_conv split_beta)
qed

lemma RemoveSectionWithProperty_store:
  assumes "maps_wf c" "sections_wf (nodes (information_sections c))" "sections_wf (nodes (persistent_devices c))"
    "sections_wf (lru_nodes (temporary_devices c))"
  shows "same_config c (RemoveSectionWithProperty c p)"
    and "store_of (RemoveSectionWithProperty c p) =
      map_prod (filter (\<lambda>(k, s). lm_get s p = None)) (map_prod (filter (\<lambda>(k, s). lm_get s p = None)) (filter (\<lambda>(k, s). lm_get s p = None))) (store_of c)"
proof -
  have w: "lm_wf (information_sections c)" "lm_wf (persistent_devices c)" "lm_wf (list_map (temporary_devices c))"
    using assms(1) by (simp_all add: maps_wf_def lru_wf_def)
  obtain i n1 where i: "erase_sections (information_sections c) p = (i, n1)" by (cases "erase_sections (information_sections c) p")
  obtain q n2 where q: "erase_sections (persistent_devices c) p = (q, n2)" by (cases "erase_sections (persistent_devices c) p")
  obtain t n3 where t: "erase_sections (list_map (temporary_devices c)) p = (t, n3)" by (cases "erase_sections (list_map (temporary_devices c)) p")
  note e = erase_sections_nodes(1,2) [OF w(1) assms(2) i] erase_sections_nodes(1,2) [OF w(2) assms(3) q]
    erase_sections_nodes(1,2) [OF w(3) assms(4) t]
  have "length (nodes t) \<le> lru_capacity (temporary_devices c)"
    unfolding e using assms(1) by (intro order_trans [OF length_filter_le]) (simp add: maps_wf_def lru_wf_def lm_size_nodes)
  then show "same_config c (RemoveSectionWithProperty c p)"
    using assms(1) e by (auto simp: RemoveSectionWithProperty_def i q t maps_wf_def lru_wf_def lm_size_nodes Let_def)
  show "store_of (RemoveSectionWithProperty c p) =
      map_prod (filter (\<lambda>(k, s). lm_get s p = None)) (map_prod (filter (\<lambda>(k, s). lm_get s p = None)) (filter (\<lambda>(k, s). lm_get s p = None))) (store_of c)"
    using e by (simp add: RemoveSectionWithProperty_def i q t store_of_def Let_def)
qed

lemma Clear_store:
  assumes "maps_wf c"
  shows "same_config c (Clear c)" "store_of (Clear c) = ([], [], [])"
  using assms
  by (auto simp: Clear_def Let_def maps_wf_def store_of_def lm_size_nodes lru_size_def lru_clear_def lru_wf_def)

section \<open>Device types\<close>

definition fix_section :: "string \<Rightarrow> section_map \<Rightarrow> section_map" where
  "fix_section k s = fst (FixDeviceTypeInconsistencyInSection k s)"

lemma device_type_get:
  assumes "lm_wf s" "lm_find s q = Some i"
  shows "lm_wf (lm_assign s i v)" "nodes (lm_assign s i v) = AList.update q v (nodes s)"
proof -
  obtain w where "(i, q, w) \<in> set (node_list s)" by (rule lm_find_Some [OF assms])
  then show "lm_wf (lm_assign s i v)" "nodes (lm_assign s i v) = AList.update q v (nodes s)"
    by (rule lm_assign_nodes [OF assms(1)])+
qed

lemma fix_section_nodes:
  assumes "lm_wf s"
  shows "lm_wf (fix_section k s)"
    and "nodes (fix_section k s) =
      (if IsValidAddress k \<and> map_of (nodes s) ''DevType'' \<noteq> Some (device_type_string DUAL)
       then AList.update ''DevType'' (device_type_string (infer_device_type s)) (nodes s) else nodes s)"
    and "snd (FixDeviceTypeInconsistencyInSection k s) \<longleftrightarrow> nodes (fix_section k s) \<noteq> nodes s"
proof -
  let ?d = "''DevType''" and ?v = "device_type_string (infer_device_type s)"
  have u: "map_of xs ?d = Some ?v \<Longrightarrow> AList.update ?d ?v xs = xs" for xs
    by (induction xs) auto
  have n: "AList.update ?d ?v (nodes s) \<noteq> nodes s" if "map_of (nodes s) ?d \<noteq> Some ?v"
    using that update_conv' [of ?d ?v "nodes s"] by (metis fun_upd_same)
  note i = lm_insert_or_assign_nodes [OF assms, of ?d ?v] and g = lm_get_nodes [OF assms]
  have "lm_wf (fix_section k s) \<and> nodes (fix_section k s) =
      (if IsValidAddress k \<and> map_of (nodes s) ?d \<noteq> Some (device_type_string DUAL) then AList.update ?d ?v (nodes s) else nodes s) \<and>
      (snd (FixDeviceTypeInconsistencyInSection k s) \<longleftrightarrow> nodes (fix_section k s) \<noteq> nodes s)"
  proof (cases "lm_find s ?d")
    case None
    then have "map_of (nodes s) ?d = None" by (rule lm_find_None [OF assms, THEN iffD1])
    then show ?thesis
      using assms i n None by (simp add: fix_section_def FixDeviceTypeInconsistencyInSection_def g Let_def)
  next
    case (Some j)
    then show ?thesis
      using assms device_type_get [OF assms Some, of ?v] u n
      by (auto simp: fix_section_def FixDeviceTypeInconsistencyInSection_def g Let_def)
  qed
  then show "lm_wf (fix_section k s)"
    and "nodes (fix_section k s) =
      (if IsValidAddress k \<and> map_of (nodes s) ?d \<noteq> Some (device_type_string DUAL) then AList.update ?d ?v (nodes s) else nodes s)"
    and "snd (FixDeviceTypeInconsistencyInSection k s) \<longleftrightarrow> nodes (fix_section k s) \<noteq> nodes s" by auto
qed

lemma fix_sections_nodes:
  assumes "lm_wf m"
  shows "lm_wf (fst (fix_sections m))" "nodes (fst (fix_sections m)) = map (\<lambda>(k, s). (k, fix_section k s)) (nodes m)"
proof -
  let ?f = "\<lambda>(i, k, s). (i, k, fst (FixDeviceTypeInconsistencyInSection k s))"
  have f: "fst (?f x) = fst x" "fst (snd (?f x)) = fst (snd x)" for x :: "nat \<times> string \<times> section_map"
    by (auto split: prod.split)
  have fwd: "(i, k, v) \<in> set l \<Longrightarrow> (i, k, fst (FixDeviceTypeInconsistencyInSection k v)) \<in> set (map ?f l)" for i k v l by force
  have "(\<exists>v. (i, k, v) \<in> set (map ?f l)) \<longleftrightarrow> (\<exists>v. (i, k, v) \<in> set l)" for i k and l :: "(nat \<times> string \<times> section_map) list"
  proof
    show "\<exists>v. (i, k, v) \<in> set (map ?f l) \<Longrightarrow> \<exists>v. (i, k, v) \<in> set l" by auto
    show "\<exists>v. (i, k, v) \<in> set l \<Longrightarrow> \<exists>v. (i, k, v) \<in> set (map ?f l)" by (elim exE, intro exI, rule fwd)
  qed
  then show "lm_wf (fst (fix_sections m))"
    using assms by (simp add: lm_wf_def fix_sections_def o_def f del: set_map)
  show "nodes (fst (fix_sections m)) = map (\<lambda>(k, s). (k, fix_section k s)) (nodes m)"
    by (simp add: fix_sections_def nodes_def fix_section_def split_beta)
qed

end
