(* ===== verification/Config_Cache_Inv.thy ===== *)
theory Config_Cache_Inv imports Config_Cache_Store begin

text \<open>
  The invariant of the configuration store and the proof that every operation keeps it: the hash maps
  agree with their lists, a section is in at most one of the three maps, device sections are named by
  addresses and information sections are not, no section is empty, no name and no value holds a line
  break, and every persistent section holds a property that makes it persistent. The last section
  collects the operations into one relation of reachable states.
\<close>

section \<open>The invariant\<close>

abbreviation clean :: "string \<Rightarrow> bool" where
  "clean s \<equiv> CHR 0x0A \<notin> set s"

definition section_ok :: "section_map \<Rightarrow> bool" where
  "section_ok s \<longleftrightarrow> lm_wf s \<and> nodes s \<noteq> [] \<and> (\<forall>(p, v) \<in> set (nodes s). p \<noteq> [] \<and> clean p \<and> clean v)"

definition has_persistent :: "string set \<Rightarrow> section_map \<Rightarrow> bool" where
  "has_persistent names s \<longleftrightarrow> fst ` set (nodes s) \<inter> names \<noteq> {}"

definition info_ok :: "string \<times> section_map \<Rightarrow> bool" where
  "info_ok = (\<lambda>(k, s). k \<noteq> [] \<and> clean k \<and> \<not> IsDeviceSection k \<and> section_ok s)"

definition device_ok :: "string \<times> section_map \<Rightarrow> bool" where
  "device_ok = (\<lambda>(k, s). clean k \<and> IsDeviceSection k \<and> section_ok s)"

definition store_wf :: "string set \<Rightarrow> store \<Rightarrow> bool" where
  "store_wf names = (\<lambda>(I, P, T). (\<forall>x \<in> set I. info_ok x) \<and> (\<forall>x \<in> set P. device_ok x \<and> has_persistent names (snd x)) \<and>
     (\<forall>x \<in> set T. device_ok x) \<and> fst ` set P \<inter> fst ` set T = {})"

definition config_wf :: "config_cache \<Rightarrow> bool" where
  "config_wf c \<longleftrightarrow> maps_wf c \<and> store_wf (persistent_property_names c) (store_of c)"

lemma clean_trim: "clean (TrimAfterNewLine s)"
  by (auto simp: TrimAfterNewLine_def dest: set_takeWhileD)

lemma clean_encrypt: "clean v \<Longrightarrow> clean (snd (encrypt_value env s p v))"
  by (auto simp: encrypt_value_def kEncryptedStr_def Let_def split: option.split prod.split)

lemma section_ok_put:
  assumes "\<And>x. so = Some x \<Longrightarrow> section_ok x" "p \<noteq> []" "clean p" "clean v"
  shows "section_ok (put_property so p v)" "nodes (put_property so p v) = AList.update p v (nodes (old so))"
proof -
  have w: "lm_wf (old so)" using assms(1) by (cases so) (simp_all add: section_ok_def)
  show n: "nodes (put_property so p v) = AList.update p v (nodes (old so))"
    by (simp add: put_property_def lm_insert_or_assign_nodes [OF w])
  have "\<forall>(q, u) \<in> set (nodes (old so)). q \<noteq> [] \<and> clean q \<and> clean u"
    using assms(1) by (cases so) (simp_all add: section_ok_def)
  then show "section_ok (put_property so p v)"
    using assms(2-4) w lm_insert_or_assign_nodes [OF w, of p v] set_update_distinct [OF nodes_distinct [OF w], of p v]
    by (auto simp: section_ok_def put_property_def)
qed

lemma has_persistent_put:
  assumes "\<And>x. so = Some x \<Longrightarrow> lm_wf x" "p \<in> names \<or> (\<exists>x. so = Some x \<and> has_persistent names x)"
  shows "has_persistent names (put_property so p v)"
proof -
  have w: "lm_wf (old so)" using assms(1) by (cases so) simp_all
  have "p \<in> names \<or> fst ` set (nodes (old so)) \<inter> names \<noteq> {}" using assms(2) unfolding has_persistent_def by (elim disjE exE conjE) simp_all
  then show ?thesis
    unfolding has_persistent_def put_property_def lm_insert_or_assign_nodes [OF w] dom_update by blast
qed

lemma section_ok_del:
  assumes "section_ok s" "nodes (del_property s p) \<noteq> []"
  shows "section_ok (del_property s p)"
  using assms lm_extract_nodes [of s p] by (auto simp: section_ok_def set_delete)

lemma has_persistent_del:
  assumes "section_ok s" "has_persistent names s" "\<not> (lm_get s p \<noteq> None \<and> p \<in> names)"
  shows "has_persistent names (del_property s p)"
proof -
  have w: "lm_wf s" using assms(1) by (simp add: section_ok_def)
  obtain q where q: "q \<in> fst ` set (nodes s)" "q \<in> names" using assms(2) unfolding has_persistent_def by blast
  then have "q \<noteq> p" using assms(3) by (auto simp: lm_get_nodes [OF w] map_of_eq_None_iff)
  then show ?thesis using q by (force simp: has_persistent_def lm_extract_nodes [OF w] set_delete)
qed

text \<open>Changes of one list of sections.\<close>

lemma ball_update: "distinct (map fst xs) \<Longrightarrow> \<forall>x \<in> set xs. Q x \<Longrightarrow> Q (k, v) \<Longrightarrow> \<forall>x \<in> set (AList.update k v xs). Q x"
  by (simp add: set_update_distinct)

lemma ball_delete: "\<forall>x \<in> set xs. Q x \<Longrightarrow> \<forall>x \<in> set (AList.delete k xs). Q x"
  by (simp add: set_delete)

lemma ball_cache_put: "\<forall>x \<in> set xs. Q x \<Longrightarrow> Q (k, v) \<Longrightarrow> \<forall>x \<in> set (cache_put n k v xs). Q x"
  using set_cache_put [of n k v xs] by auto

lemma keys_cache_put: "fst ` set (cache_put n k v xs) \<subseteq> insert k (fst ` set xs)"
  using set_cache_put [of n k v xs] by auto

lemma keys_update: "fst ` set (AList.update k v xs) = insert k (fst ` set xs)"
  by (simp add: dom_update)

lemma keys_delete: "fst ` set (AList.delete k xs) = fst ` set xs - {k}"
  by (auto simp: set_delete)

lemma store_wfD:
  assumes "store_wf names (I, P, T)"
  shows "map_of I s = Some x \<Longrightarrow> info_ok (s, x)" "map_of P s = Some x \<Longrightarrow> device_ok (s, x)"
    "map_of P s = Some x \<Longrightarrow> has_persistent names x" "map_of T s = Some x \<Longrightarrow> device_ok (s, x)"
proof -
  have w: "\<forall>x \<in> set I. info_ok x" "\<forall>x \<in> set P. device_ok x \<and> has_persistent names (snd x)" "\<forall>x \<in> set T. device_ok x"
    using assms by (simp_all add: store_wf_def)
  show "map_of I s = Some x \<Longrightarrow> info_ok (s, x)" by (rule bspec [OF w(1) map_of_SomeD])
  show "map_of P s = Some x \<Longrightarrow> device_ok (s, x)" "map_of P s = Some x \<Longrightarrow> has_persistent names x"
    using bspec [OF w(2) map_of_SomeD, of s x] by simp_all
  show "map_of T s = Some x \<Longrightarrow> device_ok (s, x)" by (rule bspec [OF w(3) map_of_SomeD])
qed

lemma set_store_wf:
  assumes "store_wf names (I, P, T)" "distinct (map fst I)" "distinct (map fst P)" "distinct (map fst T)"
    and "s \<noteq> []" "clean s" "p \<noteq> []" "clean p" "clean v" "clean ve"
  shows "store_wf names (set_store n names s p v ve (I, P, T))"
proof -
  have okI: "map_of I s = Some x \<Longrightarrow> section_ok x" and okP: "map_of P s = Some x \<Longrightarrow> section_ok x \<and> has_persistent names x"
    and okT: "map_of T s = Some x \<Longrightarrow> section_ok x" for x
    using store_wfD [OF assms(1), of s x] by (simp_all add: info_ok_def device_ok_def)
  show ?thesis
  proof (cases "IsDeviceSection s")
    case False
    have "info_ok (s, put_property (map_of I s) p v)"
      using section_ok_put(1) [of "map_of I s" p v, OF okI assms(7-9)] assms False by (simp add: info_ok_def)
    moreover have "\<forall>x \<in> set I. info_ok x" using assms(1) by (simp add: store_wf_def)
    ultimately have "\<forall>x \<in> set (AList.update s (put_property (map_of I s) p v) I). info_ok x"
      by (rule ball_update [OF assms(2), rotated])
    then show ?thesis using assms(1) False by (simp add: set_store_def store_wf_def)
  next
    case True
    consider (p) "map_of P s \<noteq> None" | (n) "map_of P s = None" "p \<in> names" | (t) "map_of P s = None" "p \<notin> names" by blast
    then show ?thesis
    proof cases
      case p
      have "device_ok (s, put_property (map_of P s) p ve)" "has_persistent names (put_property (map_of P s) p ve)"
        using section_ok_put(1) [of "map_of P s" p ve] has_persistent_put [of "map_of P s" p names ve] okP assms True p
        by (auto simp: device_ok_def section_ok_def)
      moreover have "s \<in> fst ` set P" using p by (auto simp: map_of_eq_None_iff)
      ultimately show ?thesis
        using assms True p by (auto simp: set_store_def store_wf_def set_update_distinct)
    next
      case n
      have "device_ok (s, put_property (map_of T s) p ve)" "has_persistent names (put_property (map_of T s) p ve)"
        using section_ok_put(1) [of "map_of T s" p ve] has_persistent_put [of "map_of T s" p names ve] okT assms True n
        by (auto simp: device_ok_def section_ok_def)
      then show ?thesis
        using assms True n by (auto simp: set_store_def store_wf_def set_update_distinct set_delete)
    next
      case t
      have "device_ok (s, put_property (map_of T s) p v)"
        using section_ok_put(1) [of "map_of T s" p v, OF okT assms(7-9)] assms True by (simp add: device_ok_def)
      moreover have "\<forall>x \<in> set T. device_ok x" using assms(1) by (simp add: store_wf_def)
      ultimately have "\<forall>x \<in> set (cache_put n s (put_property (map_of T s) p v) T). device_ok x"
        by (rule ball_cache_put [rotated])
      moreover have "s \<notin> fst ` set P" "fst ` set P \<inter> fst ` set T = {}"
        using t assms(1) by (simp_all add: map_of_eq_None_iff store_wf_def)
      then have "fst ` set P \<inter> fst ` set (cache_put n s (put_property (map_of T s) p v) T) = {}"
        using keys_cache_put [of n s "put_property (map_of T s) p v" T] by blast
      ultimately show ?thesis using assms(1) True t by (simp add: set_store_def store_wf_def)
    qed
  qed
qed

lemma remove_section_store_wf:
  assumes "store_wf names (I, P, T)"
  shows "store_wf names (fst (remove_section_store s (I, P, T)))"
  using assms by (auto simp: remove_section_store_def store_wf_def set_delete)

lemma remove_property_store_wf:
  assumes "store_wf names (I, P, T)" "distinct (map fst I)" "distinct (map fst P)" "distinct (map fst T)"
  shows "store_wf names (fst (remove_property_store n names s p (I, P, T)))"
proof -
  have okI: "map_of I s = Some x \<Longrightarrow> info_ok (s, x)" and okP: "map_of P s = Some x \<Longrightarrow> device_ok (s, x) \<and> has_persistent names x"
    and okT: "map_of T s = Some x \<Longrightarrow> device_ok (s, x)" for x
    using store_wfD [OF assms(1), of s x] by simp_all
  consider (i) x where "map_of I s = Some x" | (p) x where "map_of I s = None" "map_of P s = Some x"
    | (t) x where "map_of I s = None" "map_of P s = None" "map_of T s = Some x" | (n) "map_of I s = None" "map_of P s = None" "map_of T s = None"
    by (cases "map_of I s"; cases "map_of P s"; cases "map_of T s") auto
  then show ?thesis
  proof cases
    case i
    have "nodes (del_property x p) \<noteq> [] \<Longrightarrow> info_ok (s, del_property x p)"
      using okI [OF i] section_ok_del by (simp add: info_ok_def)
    moreover have w: "\<forall>x \<in> set I. info_ok x" using assms(1) by (simp add: store_wf_def)
    ultimately have "nodes (del_property x p) \<noteq> [] \<Longrightarrow> \<forall>y \<in> set (AList.update s (del_property x p) I). info_ok y"
      using ball_update [OF assms(2) w] by blast
    then show ?thesis
      using assms(1) i ball_delete [OF w] by (simp add: remove_property_store_def store_wf_def)
  next
    case p
    have x: "section_ok x" using okP [OF p(2)] by (simp add: device_ok_def)
    have d: "nodes (del_property x p) \<noteq> [] \<Longrightarrow> device_ok (s, del_property x p)"
      using okP [OF p(2)] section_ok_del by (simp add: device_ok_def)
    have h: "\<not> (lm_get x p \<noteq> None \<and> p \<in> names) \<Longrightarrow> has_persistent names (del_property x p)"
      using okP [OF p(2)] x by (intro has_persistent_del) auto
    have sP: "s \<in> fst ` set P" using p(2) by (force dest: map_of_SomeD)
    have w: "\<forall>x \<in> set I. info_ok x" "\<forall>x \<in> set P. device_ok x \<and> has_persistent names (snd x)" "\<forall>x \<in> set T. device_ok x"
        "fst ` set P \<inter> fst ` set T = {}" using assms(1) by (simp_all add: store_wf_def)
    have "store_wf names (I, AList.delete s P, cache_put n s y T)" if "device_ok (s, y)" for y
    proof -
      have "fst ` set (AList.delete s P) \<inter> fst ` set (cache_put n s y T) = {}"
        unfolding keys_delete using keys_cache_put [of n s y T] w(4) by blast
      then show ?thesis using w ball_delete [OF w(2)] ball_cache_put [OF w(3) that] by (simp add: store_wf_def)
    qed
    moreover have "store_wf names (I, AList.update s y P, T)" if "device_ok (s, y)" "has_persistent names y" for y
      using w that sP ball_update [OF assms(3) w(2), of s y] by (auto simp: store_wf_def keys_update)
    moreover have "store_wf names (I, AList.delete s P, T)"
      using w ball_delete [OF w(2)] by (auto simp: store_wf_def keys_delete)
    ultimately show ?thesis
      using p d h by (simp add: remove_property_store_def)
  next
    case t
    have d: "nodes (del_property x p) \<noteq> [] \<Longrightarrow> device_ok (s, del_property x p)"
      using okT [OF t(3)] section_ok_del by (simp add: device_ok_def)
    have "distinct (map fst (warm s T))" using assms(4) t(3) by (simp add: warm_def delete_keys distinct_removeAll)
    note dw = this
    have sT: "s \<in> fst ` set T" using t(3) by (force dest: map_of_SomeD)
    have T: "fst ` set P \<inter> fst ` set T = {}" "\<forall>x \<in> set (warm s T). device_ok x"
      using assms(1) set_warm [OF assms(4), of s] by (simp_all add: store_wf_def)
    have "nodes (del_property x p) \<noteq> [] \<Longrightarrow> \<forall>y \<in> set (AList.update s (del_property x p) (warm s T)). device_ok y"
      using ball_update [OF dw T(2)] d by blast
    moreover have "fst ` set (AList.update s (del_property x p) (warm s T)) = fst ` set T"
      using sT set_warm [OF assms(4), of s] by (simp add: keys_update insert_absorb)
    moreover have "fst ` set P \<inter> (fst ` set T - {s}) = {}" using T(1) by blast
    moreover have "\<forall>x \<in> set (AList.delete s T). device_ok x" using assms(1) by (intro ball_delete) (simp add: store_wf_def)
    ultimately show ?thesis
      using assms(1) t by (simp add: remove_property_store_def store_wf_def keys_delete)
  next
    case n
    then show ?thesis using assms(1) by (simp add: remove_property_store_def)
  qed
qed

lemma clean_to_string: "clean (to_string v)"
proof -
  have "digit_char d \<noteq> CHR 0x0A" if "d < 10" for d using digit_char_neq(5) [of d] that by simp
  then show ?thesis by (auto simp: to_string_def dest!: nat_to_string_digits) metis+
qed

lemma fix_section_ok:
  assumes "section_ok s"
  shows "section_ok (fix_section k s)" "has_persistent names s \<Longrightarrow> has_persistent names (fix_section k s)"
proof -
  have w: "lm_wf s" using assms by (simp add: section_ok_def)
  have "clean (device_type_string t)" for t
    using clean_to_string by (simp add: device_type_string_def)
  then have c: "\<forall>(p, v) \<in> set (AList.update ''DevType'' (device_type_string t) (nodes s)). p \<noteq> [] \<and> clean p \<and> clean v" for t
    using assms by (auto simp: section_ok_def set_update_distinct [OF nodes_distinct [OF w]])
  show "section_ok (fix_section k s)"
    using assms c fix_section_nodes(1,2) [OF w, of k] by (simp add: section_ok_def)
  have "fst ` set (nodes s) \<subseteq> fst ` set (nodes (fix_section k s))"
    unfolding fix_section_nodes(2) [OF w, of k] by (simp only: keys_update split: if_split) blast
  then show "has_persistent names s \<Longrightarrow> has_persistent names (fix_section k s)"
    unfolding has_persistent_def by blast
qed

lemma store_wf_sections: "store_wf names (I, P, T) \<Longrightarrow> sections_wf I \<and> sections_wf P \<and> sections_wf T"
  by (auto simp: store_wf_def info_ok_def device_ok_def section_ok_def)

lemma config_wfD:
  assumes "config_wf c"
  shows "maps_wf c" "store_wf (persistent_property_names c) (nodes (information_sections c), nodes (persistent_devices c), lru_nodes (temporary_devices c))"
    "distinct (map fst (nodes (information_sections c)))" "distinct (map fst (nodes (persistent_devices c)))"
    "distinct (map fst (lru_nodes (temporary_devices c)))"
    "sections_wf (nodes (information_sections c))" "sections_wf (nodes (persistent_devices c))" "sections_wf (lru_nodes (temporary_devices c))"
proof -
  show m: "maps_wf c" and s: "store_wf (persistent_property_names c) (nodes (information_sections c), nodes (persistent_devices c), lru_nodes (temporary_devices c))"
    using assms by (simp_all add: config_wf_def store_of_def)
  show "distinct (map fst (nodes (information_sections c)))" "distinct (map fst (nodes (persistent_devices c)))"
    "distinct (map fst (lru_nodes (temporary_devices c)))"
    using m by (simp_all add: maps_wf_def lru_wf_def nodes_distinct)
  show "sections_wf (nodes (information_sections c))" "sections_wf (nodes (persistent_devices c))" "sections_wf (lru_nodes (temporary_devices c))"
    using store_wf_sections [OF s] by auto
qed

section \<open>Every operation keeps the invariant\<close>

lemma new_ConfigCache_wf: "new_ConfigCache n names = Some c \<Longrightarrow> config_wf c"
  by (auto simp: new_ConfigCache_def lru_new_def config_wf_def maps_wf_def lru_wf_def store_wf_def store_of_def split: if_splits)

lemma SetProperty_wf:
  assumes "config_wf c" "SetProperty env c s p v = Some (env', c')"
  shows "config_wf c'"
proof -
  note d = config_wfD [OF assms(1)] and t = SetProperty_store [OF config_wfD(1) [OF assms(1)] assms(2) refl refl refl]
  then show ?thesis
    unfolding config_wf_def store_of_def [of c]
    using set_store_wf [OF d(2-5) _ clean_trim _ clean_trim clean_trim clean_encrypt [OF clean_trim]]
    by (simp add: config_wf_def store_of_def [of c])
qed

lemma RemoveSection_wf:
  assumes "config_wf c" "RemoveSection c s = (c', b)"
  shows "config_wf c'"
proof -
  note d = config_wfD [OF assms(1)]
  have t: "same_config c c' \<and> (store_of c', b) = remove_section_store s (store_of c)"
    by (rule RemoveSection_store [OF d(1) assms(2)])
  then have "store_of c' = fst (remove_section_store s (store_of c))" by (metis fst_conv)
  with t show ?thesis using remove_section_store_wf [OF d(2)] by (simp add: config_wf_def store_of_def [of c])
qed

lemma RemoveProperty_wf:
  assumes "config_wf c" "RemoveProperty env c s p = (env', c', b)"
  shows "config_wf c'"
proof -
  note d = config_wfD [OF assms(1)]
  have t: "same_config c c' \<and> (store_of c', b) =
      remove_property_store (lru_capacity (temporary_devices c)) (persistent_property_names c) s p (store_of c)"
    by (rule RemoveProperty_store [OF d(1,6,7,8) assms(2)])
  then have "store_of c' = fst (remove_property_store (lru_capacity (temporary_devices c)) (persistent_property_names c) s p (store_of c))"
    by (metis fst_conv)
  with t show ?thesis using remove_property_store_wf [OF d(2-5)] by (simp add: config_wf_def store_of_def [of c])
qed

lemma filter_store_wf:
  "store_wf names (I, P, T) \<Longrightarrow> store_wf names (filter Q I, filter Q P, filter Q T)"
  by (auto simp: store_wf_def)

lemma RemoveSectionWithProperty_wf:
  assumes "config_wf c"
  shows "config_wf (RemoveSectionWithProperty c p)"
proof -
  note d = config_wfD [OF assms]
  note r = RemoveSectionWithProperty_store [OF d(1,6,7,8), of p]
  then show ?thesis using filter_store_wf [OF d(2)] by (simp add: config_wf_def store_of_def [of c])
qed

lemma Clear_wf: "config_wf c \<Longrightarrow> config_wf (Clear c)"
  using Clear_store [of c] config_wfD(1) [of c] by (simp add: config_wf_def store_wf_def)

lemma fix_store_wf:
  assumes "store_wf names (I, P, T)" and "f = map (\<lambda>(k, s). (k, fix_section k s))"
  shows "store_wf names (f I, f P, f T)"
proof -
  have "info_ok (k, s) \<Longrightarrow> info_ok (k, fix_section k s)" "device_ok (k, s) \<Longrightarrow> device_ok (k, fix_section k s)" for k s
    using fix_section_ok(1) by (simp_all add: info_ok_def device_ok_def)
  moreover have "device_ok (k, s) \<Longrightarrow> has_persistent names s \<Longrightarrow> has_persistent names (fix_section k s)" for k s
    using fix_section_ok(2) by (simp add: device_ok_def)
  moreover have "fst ` set (f xs) = fst ` set xs" for xs by (force simp: assms(2))
  ultimately show ?thesis using assms(1) unfolding store_wf_def by (auto simp: assms(2))
qed

lemma FixDeviceTypeInconsistencies_wf:
  assumes "config_wf c"
  shows "config_wf (fst (FixDeviceTypeInconsistencies c))"
proof -
  note d = config_wfD [OF assms]
  have w: "lm_wf (information_sections c)" "lm_wf (persistent_devices c)" "lm_wf (list_map (temporary_devices c))"
    "lru_capacity (temporary_devices c) \<noteq> 0" "length (lru_nodes (temporary_devices c)) \<le> lru_capacity (temporary_devices c)"
    using d(1) by (simp_all add: maps_wf_def lru_wf_def lm_size_nodes)
  note f = fix_sections_nodes [OF w(1)] fix_sections_nodes [OF w(2)] fix_sections_nodes [OF w(3)]
  show ?thesis
    using w f fix_store_wf [OF d(2) refl]
    by (simp add: FixDeviceTypeInconsistencies_def split_beta Let_def config_wf_def maps_wf_def lru_wf_def lm_size_nodes store_of_def)
qed

lemma find_temporary_store:
  assumes "maps_wf c" "find_temporary c s = (c', it)"
  shows "same_config c c'" "store_of c' = (nodes (information_sections c), nodes (persistent_devices c), warm s (lru_nodes (temporary_devices c)))"
    "property_at (list_map (temporary_devices c')) it p = Option.bind (map_of (lru_nodes (temporary_devices c)) s) (\<lambda>x. lm_get x p)"
    "it = None \<longleftrightarrow> map_of (lru_nodes (temporary_devices c)) s = None"
proof -
  obtain t where f: "lru_find (temporary_devices c) s = (t, it)" and c': "c' = c\<lparr>temporary_devices := t\<rparr>"
    using assms(2) by (auto simp: find_temporary_def split: prod.splits)
  have w: "lru_wf (temporary_devices c)" using assms(1) by (simp add: maps_wf_def)
  note n = lru_find_nodes [OF w f]
  show "same_config c c'" "store_of c' = (nodes (information_sections c), nodes (persistent_devices c), warm s (lru_nodes (temporary_devices c)))"
    "it = None \<longleftrightarrow> map_of (lru_nodes (temporary_devices c)) s = None"
    using assms(1) n by (simp_all add: c' maps_wf_def store_of_def)
  have "lm_wf (list_map t)" using n(1) by (simp add: lru_wf_def)
  from property_at_find [OF this, of s p]
  show "property_at (list_map (temporary_devices c')) it p = Option.bind (map_of (lru_nodes (temporary_devices c)) s) (\<lambda>x. lm_get x p)"
    by (simp add: c' n(2,4) map_of_warm)
qed

lemma find_temporary_wf:
  assumes "config_wf c" "find_temporary c s = (c', it)"
  shows "config_wf c'"
proof -
  note d = config_wfD [OF assms(1)]
  have "store_wf (persistent_property_names c) (nodes (information_sections c), nodes (persistent_devices c), warm s (lru_nodes (temporary_devices c)))"
    using d(2) set_warm [OF d(5), of s] by (simp add: store_wf_def)
  then show ?thesis
    using find_temporary_store(1,2) [OF d(1) assms(2)] by (simp add: config_wf_def)
qed

section \<open>Reads\<close>

text \<open>The value that the maps hold for a property of a section.\<close>

definition stored :: "store \<Rightarrow> string \<Rightarrow> string \<Rightarrow> string option" where
  "stored = (\<lambda>(I, P, T) s p.
     case map_of I s of
       Some x \<Rightarrow> lm_get x p
     | None \<Rightarrow> (case map_of P s of Some x \<Rightarrow> lm_get x p | None \<Rightarrow> Option.bind (map_of T s) (\<lambda>x. lm_get x p)))"

lemma store_wf_unique:
  assumes "store_wf names (I, P, T)"
  shows "map_of I s \<noteq> None \<Longrightarrow> map_of P s = None \<and> map_of T s = None" "map_of P s \<noteq> None \<Longrightarrow> map_of T s = None"
proof -
  have "map_of P s \<noteq> None \<Longrightarrow> IsDeviceSection s" "map_of T s \<noteq> None \<Longrightarrow> IsDeviceSection s"
    "map_of I s \<noteq> None \<Longrightarrow> \<not> IsDeviceSection s"
    using store_wfD [OF assms, of s] by (auto simp: device_ok_def info_ok_def)
  then show "map_of I s \<noteq> None \<Longrightarrow> map_of P s = None \<and> map_of T s = None" by blast
  have "fst ` set P \<inter> fst ` set T = {}" using assms by (simp add: store_wf_def)
  then show "map_of P s \<noteq> None \<Longrightarrow> map_of T s = None" unfolding map_of_eq_None_iff by blast
qed

lemma GetProperty_store:
  assumes "config_wf c" "GetProperty env c s p = (env', c', r)"
  shows "config_wf c'" "same_config c c'"
    and "stored (store_of c) s p = None \<Longrightarrow> r = None \<and> env' = env"
    and "stored (store_of c) s p = Some v \<Longrightarrow>
      (case bt_keystore_interface env of
         Some ks \<Rightarrow>
           if map_of (nodes (persistent_devices c)) s \<noteq> None \<and> v = kEncryptedStr
           then r = Some (fst (get_key ks (s @ ''-'' @ p))) else r = Some v
       | None \<Rightarrow> r = Some v)"
    and "stored (store_of c') = stored (store_of c)"
proof -
  let ?I = "nodes (information_sections c)" and ?P = "nodes (persistent_devices c)" and ?T = "lru_nodes (temporary_devices c)"
  note d = config_wfD [OF assms(1)]
  note u = store_wf_unique [OF d(2), of s]
  have g: "property_at (information_sections c) (lm_find (information_sections c) s) p = Option.bind (map_of ?I s) (\<lambda>x. lm_get x p)"
    "property_at (persistent_devices c) (lm_find (persistent_devices c) s) p = Option.bind (map_of ?P s) (\<lambda>x. lm_get x p)"
    using d(1) by (simp_all add: maps_wf_def property_at_find)
  have st: "stored (store_of c) s p = (case map_of ?I s of Some x \<Rightarrow> lm_get x p
      | None \<Rightarrow> (case map_of ?P s of Some x \<Rightarrow> lm_get x p | None \<Rightarrow> Option.bind (map_of ?T s) (\<lambda>x. lm_get x p)))"
    by (simp add: stored_def store_of_def)
  have "config_wf c' \<and> same_config c c' \<and> (stored (store_of c) s p = None \<longrightarrow> r = None \<and> env' = env) \<and>
    (\<forall>v. stored (store_of c) s p = Some v \<longrightarrow> (case bt_keystore_interface env of
         Some ks \<Rightarrow> if map_of ?P s \<noteq> None \<and> v = kEncryptedStr then r = Some (fst (get_key ks (s @ ''-'' @ p))) else r = Some v
       | None \<Rightarrow> r = Some v)) \<and> stored (store_of c') = stored (store_of c)"
  proof (cases "Option.bind (map_of ?I s) (\<lambda>x. lm_get x p)")
    case (Some v0)
    then obtain x where x: "map_of ?I s = Some x" "lm_get x p = Some v0" by (auto simp: bind_eq_Some_conv)
    then have "map_of ?P s = None" using u(1) by simp
    moreover have "c' = c" "env' = env" "r = Some v0" using assms(2) Some by (simp_all add: GetProperty_def g)
    ultimately show ?thesis using assms(1) d(1) x by (simp add: st split: option.split)
  next
    case I: None
    show ?thesis
    proof (cases "Option.bind (map_of ?P s) (\<lambda>x. lm_get x p)")
      case (Some v0)
      then obtain x where x: "map_of ?P s = Some x" "lm_get x p = Some v0" by (auto simp: bind_eq_Some_conv)
      then have "map_of ?I s = None" using u(1) by (cases "map_of ?I s") auto
      moreover have "c' = c" "case bt_keystore_interface env of
         Some ks \<Rightarrow> if v0 = kEncryptedStr then r = Some (fst (get_key ks (s @ ''-'' @ p))) else r = Some v0 | None \<Rightarrow> r = Some v0"
        using assms(2) Some I by (auto simp: GetProperty_def g split: option.splits if_splits prod.splits)
      ultimately show ?thesis using assms(1) d(1) x by (cases "bt_keystore_interface env") (simp_all add: st)
    next
      case P: None
      obtain c1 it where f: "find_temporary c s = (c1, it)" by (cases "find_temporary c s")
      note t = find_temporary_store [OF d(1) f]
      have c': "c' = c1" "env' = env" "r = Option.bind (map_of ?T s) (\<lambda>x. lm_get x p)"
        using assms(2) I P f t(3) by (simp_all add: GetProperty_def g)
      have "stored (store_of c) s p = Option.bind (map_of ?T s) (\<lambda>x. lm_get x p)"
        using I P u by (auto simp: st bind_eq_None_conv split: option.split)
      moreover have "map_of ?P s \<noteq> None \<Longrightarrow> map_of ?T s = None" by (rule u(2))
      moreover have "stored (store_of c1) = stored (store_of c)" 
        unfolding t(2) store_of_def [of c] stored_def prod.case map_of_warm ..
      ultimately show ?thesis using find_temporary_wf [OF assms(1) f] t(1) c'
        by (auto split: option.split)
    qed
  qed
  then show "config_wf c'" "same_config c c'" and "stored (store_of c) s p = None \<Longrightarrow> r = None \<and> env' = env"
    and "stored (store_of c) s p = Some v \<Longrightarrow> (case bt_keystore_interface env of
         Some ks \<Rightarrow> if map_of (nodes (persistent_devices c)) s \<noteq> None \<and> v = kEncryptedStr
           then r = Some (fst (get_key ks (s @ ''-'' @ p))) else r = Some v
       | None \<Rightarrow> r = Some v)"
    and "stored (store_of c') = stored (store_of c)" by blast+
qed

section \<open>Sequences of operations\<close>

lemma convert_property_wf:
  assumes "convert_property s st p = Some (env', c')" "\<And>env c. st = Some (env, c) \<Longrightarrow> config_wf c"
  shows "config_wf c'"
proof -
  obtain env c where st: "st = Some (env, c)" using assms(1) by (auto simp: convert_property_def split: option.splits)
  then have w: "config_wf c" by (rule assms(2))
  have "c' = c \<or> (\<exists>env0 v. SetProperty env0 c s p v = Some (env', c'))"
    using assms(1) st by (auto simp: convert_property_def Let_def split: option.splits if_splits prod.splits)
  then show ?thesis using w SetProperty_wf by blast
qed

lemma convert_properties_wf:
  assumes "foldl (convert_property s) st ps = Some (env', c')" "\<And>env c. st = Some (env, c) \<Longrightarrow> config_wf c"
  shows "config_wf c'"
  using assms
proof (induction ps arbitrary: st)
  case (Cons p ps)
  show ?case
  proof (rule Cons.IH)
    show "foldl (convert_property s) (convert_property s st p) ps = Some (env', c')" using Cons.prems(1) by simp
    show "config_wf c" if "convert_property s st p = Some (env, c)" for env c
      by (rule convert_property_wf [OF that Cons.prems(2)])
  qed
qed simp

lemma ConvertEncryptOrDecryptKeyIfNeeded_wf:
  assumes "config_wf c" "ConvertEncryptOrDecryptKeyIfNeeded env c = Some (env', c')"
  shows "config_wf c'"
proof -
  have "config_wf c'" if "foldl (\<lambda>st section. foldl (convert_property section) st kEncryptKeyNameList) st ss = Some (env', c')"
    "\<And>env c. st = Some (env, c) \<Longrightarrow> config_wf c" for st ss
    using that
  proof (induction ss arbitrary: st)
    case (Cons s ss)
    show ?case
    proof (rule Cons.IH)
      show "foldl (\<lambda>st section. foldl (convert_property section) st kEncryptKeyNameList)
          (foldl (convert_property s) st kEncryptKeyNameList) ss = Some (env', c')" using Cons.prems(1) by simp
      show "config_wf c" if "foldl (convert_property s) st kEncryptKeyNameList = Some (env, c)" for env c
        by (rule convert_properties_wf [OF that Cons.prems(2)])
    qed
  qed simp
  from this [OF assms(2) [unfolded ConvertEncryptOrDecryptKeyIfNeeded_def]] show ?thesis using assms(1) by simp
qed

lemma commit_entry_wf:
  assumes "config_wf c" "commit_entry (env, c) e = Some (env', c')"
  shows "config_wf c'"
proof (cases "entry_type e")
  case SET
  then show ?thesis using assms SetProperty_wf [OF assms(1)] by (simp add: commit_entry_def)
next
  case REMOVE_PROPERTY
  then show ?thesis using assms RemoveProperty_wf [OF assms(1)] by (auto simp: commit_entry_def split: prod.splits)
next
  case REMOVE_SECTION
  then have "RemoveSection c (entry_section e) = (c', snd (RemoveSection c (entry_section e)))"
    using assms(2) by (auto simp: commit_entry_def)
  then show ?thesis by (rule RemoveSection_wf [OF assms(1)])
qed

lemma Commit_wf: "config_wf (snd st) \<Longrightarrow> Commit st es = Some st' \<Longrightarrow> config_wf (snd st')"
proof (induction st es rule: Commit.induct)
  case (2 st e es)
  obtain env c where st: "st = (env, c)" by (cases st)
  obtain env1 c1 where c1: "commit_entry st e = Some (env1, c1)" "Commit (env1, c1) es = Some st'"
    using 2(3) by (auto split: option.splits)
  then show ?case using 2(1) [OF c1(1)] commit_entry_wf [of c env e env1 c1] 2(2) st by simp
qed simp

text \<open>The states a cache can reach: construction, then any sequence of calls. The mode and the key
  store may change between two calls.\<close>

inductive reachable :: "parameter_provider \<Rightarrow> config_cache \<Rightarrow> bool" where
  construct: "new_ConfigCache n names = Some c \<Longrightarrow> reachable env c"
| environment: "reachable env c \<Longrightarrow> reachable env' c"
| callback: "reachable env c \<Longrightarrow> reachable env (SetPersistentConfigChangedCallback c b)"
| set_property: "reachable env c \<Longrightarrow> SetProperty env c s p v = Some (env', c') \<Longrightarrow> reachable env' c'"
| remove_property: "reachable env c \<Longrightarrow> RemoveProperty env c s p = (env', c', b) \<Longrightarrow> reachable env' c'"
| remove_section: "reachable env c \<Longrightarrow> RemoveSection c s = (c', b) \<Longrightarrow> reachable env c'"
| remove_with: "reachable env c \<Longrightarrow> reachable env (RemoveSectionWithProperty c p)"
| clear: "reachable env c \<Longrightarrow> reachable env (Clear c)"
| fix_types: "reachable env c \<Longrightarrow> reachable env (fst (FixDeviceTypeInconsistencies c))"
| convert: "reachable env c \<Longrightarrow> ConvertEncryptOrDecryptKeyIfNeeded env c = Some (env', c') \<Longrightarrow> reachable env' c'"
| commit: "reachable env c \<Longrightarrow> Commit (env, c) es = Some (env', c') \<Longrightarrow> reachable env' c'"
| get_property: "reachable env c \<Longrightarrow> GetProperty env c s p = (env', c', r) \<Longrightarrow> reachable env' c'"
| has_section: "reachable env c \<Longrightarrow> HasSection c s = (c', b) \<Longrightarrow> reachable env c'"
| has_property: "reachable env c \<Longrightarrow> HasProperty c s p = (c', b) \<Longrightarrow> reachable env c'"
| property_names: "reachable env c \<Longrightarrow> GetPropertyNames c s = (c', ns) \<Longrightarrow> reachable env c'"
| matching: "reachable env c \<Longrightarrow> HasAtLeastOneMatchingPropertiesInSection c s qs = (c', b) \<Longrightarrow> reachable env c'"

lemma lookups_find:
  "HasSection c s = (c', b) \<Longrightarrow> c' = c \<or> (\<exists>it. find_temporary c s = (c', it))"
  "HasProperty c s p = (c', b) \<Longrightarrow> c' = c \<or> (\<exists>it. find_temporary c s = (c', it))"
  "GetPropertyNames c s = (c', ns) \<Longrightarrow> c' = c \<or> (\<exists>it. find_temporary c s = (c', it))"
  "HasAtLeastOneMatchingPropertiesInSection c s qs = (c', b) \<Longrightarrow> c' = c \<or> (\<exists>it. find_temporary c s = (c', it))"
  by (auto simp: HasSection_def HasProperty_def GetPropertyNames_def HasAtLeastOneMatchingPropertiesInSection_def Let_def
      split: option.splits if_splits prod.splits)

lemma reachable_wf: "reachable env c \<Longrightarrow> config_wf c"
proof (induction rule: reachable.induct)
  case (callback env c b)
  then show ?case by (simp add: config_wf_def SetPersistentConfigChangedCallback_def maps_wf_def store_of_def)
next
  case (commit env c es env' c')
  then show ?case using Commit_wf [of "(env, c)" es "(env', c')"] by simp
next
  case (has_section env c s c' b)
  then show ?case using lookups_find(1) find_temporary_wf by blast
next
  case (has_property env c s p c' b)
  then show ?case using lookups_find(2) find_temporary_wf by blast
next
  case (property_names env c s c' ns)
  then show ?case using lookups_find(3) find_temporary_wf by blast
next
  case (matching env c s qs c' b)
  then show ?case using lookups_find(4) find_temporary_wf by blast
qed (blast intro: new_ConfigCache_wf SetProperty_wf RemoveProperty_wf RemoveSection_wf RemoveSectionWithProperty_wf Clear_wf
    FixDeviceTypeInconsistencies_wf ConvertEncryptOrDecryptKeyIfNeeded_wf GetProperty_store(1))+

end
