(* ===== verification/Config_Cache_Access.thy ===== *)
theory Config_Cache_Access
  imports Config_Cache_Inv
begin

text \<open>
  What a property reads back after a \<open>SetProperty\<close>: the value that was set, and for every other property the
  value it had, except for the temporary device the cache evicts to stay within its capacity.
\<close>

section \<open>Set and get\<close>

lemma lm_get_put:
  assumes "\<And>x. so = Some x \<Longrightarrow> lm_wf x"
  shows "lm_get (put_property so p v) q = (if q = p then Some v else Option.bind so (\<lambda>x. lm_get x q))"
proof -
  have w: "lm_wf (old so)" using assms by (cases so) simp_all
  have "lm_get (old so) q = Option.bind so (\<lambda>x. lm_get x q)" by (cases so) (simp_all add: lm_get_nodes)
  then show ?thesis using lm.get_put [OF w, of p v q] by (simp add: put_property_def)
qed

lemma map_of_cache_put:
  assumes "distinct (map fst T)" "length T \<le> n" "0 < n"
  shows "map_of (cache_put n s x T) s = Some x"
    and "s' \<noteq> s \<Longrightarrow> map_of T s = None \<Longrightarrow> length T = n \<Longrightarrow> s' = fst (last T) \<Longrightarrow> map_of (cache_put n s x T) s' = None"
    and "s' \<noteq> s \<Longrightarrow> \<not> (map_of T s = None \<and> length T = n \<and> s' = fst (last T)) \<Longrightarrow>
      map_of (cache_put n s x T) s' = map_of T s'"
proof -
  show "map_of (cache_put n s x T) s = Some x" by (simp add: cache_put_def)
  have full: "cache_put n s x T = (s, x) # butlast T" if "map_of T s = None" "length T = n"
    using that by (simp add: cache_put_def map_of_eq_None_iff butlast_conv_take)
  have bl: "map_of (butlast T) k = (if k = fst (last T) then None else map_of T k)" if "T \<noteq> []" for k
  proof -
    have "map_of T = map_of (butlast T @ [last T])" using that by simp
    moreover have "distinct (map fst (butlast T @ [last T]))" using assms(1) that by simp
    ultimately show ?thesis by (auto simp: map_add_def map_of_eq_None_iff split: option.split)
  qed
  show "map_of (cache_put n s x T) s' = None" if "s' \<noteq> s" "map_of T s = None" "length T = n" "s' = fst (last T)"
    using full [OF that(2,3)] bl assms(3) that by fastforce
  show "map_of (cache_put n s x T) s' = map_of T s'" if ne: "s' \<noteq> s" and c: "\<not> (map_of T s = None \<and> length T = n \<and> s' = fst (last T))"
  proof (cases "map_of T s = None \<and> length T = n")
    case True
    then have "T \<noteq> []" using assms(3) by auto
    then show ?thesis using full True bl [of s'] c ne by simp
  next
    case False
    have "length (AList.delete s T) \<le> n - 1"
    proof (cases "map_of T s")
      case None
      then show ?thesis using False assms(2) by (simp add: map_of_eq_None_iff)
    next
      case (Some y)
      then show ?thesis using length_delete [OF assms(1) Some] assms(2) by simp
    qed
    then show ?thesis using ne by (simp add: cache_put_def delete_conv')
  qed
qed

definition evicted :: "nat \<Rightarrow> string set \<Rightarrow> string \<Rightarrow> string \<Rightarrow> store \<Rightarrow> string \<Rightarrow> bool" where
  "evicted n names s p = (\<lambda>(I, P, T) s'. IsDeviceSection s \<and> p \<notin> names \<and> map_of P s = None \<and> map_of T s = None \<and>
     length T = n \<and> s' = fst (last T))"

lemma stored_set_store:
  assumes "store_wf names (I, P, T)" "distinct (map fst I)" "distinct (map fst P)" "distinct (map fst T)" "length T \<le> n" "0 < n"
  shows "stored (set_store n names s p v ve (I, P, T)) s p =
      Some (if IsDeviceSection s \<and> (map_of P s \<noteq> None \<or> p \<in> names) then ve else v)"
    and "(s', p') \<noteq> (s, p) \<Longrightarrow> \<not> evicted n names s p (I, P, T) s' \<Longrightarrow>
      stored (set_store n names s p v ve (I, P, T)) s' p' = stored (I, P, T) s' p'"
proof -
  have wf: "map_of I s = Some x \<Longrightarrow> lm_wf x" "map_of P s = Some x \<Longrightarrow> lm_wf x" "map_of T s = Some x \<Longrightarrow> lm_wf x" for x
    using store_wfD [OF assms(1), of s x] by (simp_all add: info_ok_def device_ok_def section_ok_def)
  have dev: "IsDeviceSection s \<Longrightarrow> map_of I s = None" "\<not> IsDeviceSection s \<Longrightarrow> map_of P s = None \<and> map_of T s = None"
    using store_wfD [OF assms(1), of s] by (auto simp: info_ok_def device_ok_def) fastforce+
  note put = lm_get_put [of "map_of I s" p, OF wf(1)] lm_get_put [of "map_of P s" p, OF wf(2)] lm_get_put [of "map_of T s" p, OF wf(3)]
  note u = store_wf_unique [OF assms(1), of s] and c = map_of_cache_put(1) [OF assms(4-6), of s]
  show "stored (set_store n names s p v ve (I, P, T)) s p =
      Some (if IsDeviceSection s \<and> (map_of P s \<noteq> None \<or> p \<in> names) then ve else v)"
    using dev c by (auto simp: stored_def set_store_def update_conv' put split: option.split)
  show "stored (set_store n names s p v ve (I, P, T)) s' p' = stored (I, P, T) s' p'"
    if "(s', p') \<noteq> (s, p)" "\<not> evicted n names s p (I, P, T) s'"
  proof (cases "s' = s")
    case True
    then have "p' \<noteq> p" using that(1) by simp
    then show ?thesis
      using True dev u c by (auto simp: stored_def set_store_def update_conv' put split: option.split)
  next
    case False
    then show ?thesis
      using that(2) map_of_cache_put(3) [OF assms(4-6) False]
      by (auto simp: stored_def set_store_def update_conv' delete_conv' evicted_def split: option.split)
  qed
qed

section \<open>SetProperty followed by GetProperty\<close>

lemma encrypted_key:
  assumes "encrypt_value env s p v = (env', ve)"
  shows "ve = v \<or> ve = kEncryptedStr \<and> (case bt_keystore_interface env' of Some ks \<Rightarrow> fst (get_key ks (s @ ''-'' @ p)) = v | None \<Rightarrow> False)"
  using assms by (auto simp: encrypt_value_def set_encrypt_key_or_remove_key_def get_key_def split: option.splits if_splits)

lemma stored_set:
  assumes "config_wf c"
  shows "stored (set_store (lru_capacity (temporary_devices c)) (persistent_property_names c) s p v ve (store_of c)) s p =
      Some (if IsDeviceSection s \<and> (map_of (nodes (persistent_devices c)) s \<noteq> None \<or> p \<in> persistent_property_names c) then ve else v)"
  and "(s', p') \<noteq> (s, p) \<Longrightarrow> \<not> evicted (lru_capacity (temporary_devices c)) (persistent_property_names c) s p (store_of c) s' \<Longrightarrow>
      stored (set_store (lru_capacity (temporary_devices c)) (persistent_property_names c) s p v ve (store_of c)) s' p' = stored (store_of c) s' p'"
proof -
  note d = config_wfD [OF assms]
  have "length (lru_nodes (temporary_devices c)) \<le> lru_capacity (temporary_devices c)" "0 < lru_capacity (temporary_devices c)"
    using d(1) by (auto simp: maps_wf_def lru_wf_def lm_size_nodes)
  note t = stored_set_store [OF d(2-5) this]
  show "stored (set_store (lru_capacity (temporary_devices c)) (persistent_property_names c) s p v ve (store_of c)) s p =
      Some (if IsDeviceSection s \<and> (map_of (nodes (persistent_devices c)) s \<noteq> None \<or> p \<in> persistent_property_names c) then ve else v)"
    unfolding store_of_def by (rule t(1))
  show "(s', p') \<noteq> (s, p) \<Longrightarrow> \<not> evicted (lru_capacity (temporary_devices c)) (persistent_property_names c) s p (store_of c) s' \<Longrightarrow>
      stored (set_store (lru_capacity (temporary_devices c)) (persistent_property_names c) s p v ve (store_of c)) s' p' = stored (store_of c) s' p'"
    unfolding store_of_def by (rule t(2))
qed

lemma GetProperty_SetProperty:
  assumes "config_wf c" "SetProperty env c s0 p0 v0 = Some (env', c')"
    and "s = TrimAfterNewLine s0" "p = TrimAfterNewLine p0" "v = TrimAfterNewLine v0" "v \<noteq> kEncryptedStr"
  shows "\<exists>env'' c''. GetProperty env' c' s p = (env'', c'', Some v)"
proof -
  let ?h = "IsDeviceSection s \<and> (map_of (nodes (persistent_devices c)) s \<noteq> None \<or> p \<in> persistent_property_names c)"
  obtain env2 ve where e: "encrypt_value env s p v = (env2, ve)" by fastforce
  note t = SetProperty_store [OF config_wfD(1) [OF assms(1)] assms(2-5), unfolded e]
  obtain env'' c'' r where g: "GetProperty env' c' s p = (env'', c'', r)" by (metis prod_cases3)
  have st: "stored (store_of c') s p = Some (if ?h then ve else v)" using t stored_set(1) [OF assms(1)] by simp
  have env': "?h \<Longrightarrow> env' = env2" using t by (simp add: IsPersistentProperty_def)
  have P: "map_of (nodes (persistent_devices c')) s \<noteq> None" if ?h
    using t that by (auto simp: store_of_def set_store_def update_conv' split: if_splits)
  note w = GetProperty_store(4) [OF SetProperty_wf [OF assms(1,2)] g st]
  have "r = Some v"
  proof (cases ?h)
    case True
    then show ?thesis using w encrypted_key [OF e] P env' assms(6) by (auto split: option.splits if_splits)
  next
    case False
    then show ?thesis using w assms(6) by (auto split: option.splits if_splits)
  qed
  then show ?thesis using g by simp
qed

lemma GetProperty_again:
  assumes "config_wf c" "GetProperty env c s p = (env', c', r)"
  shows "\<exists>c''. GetProperty env' c' s p = (env', c'', r)"
proof (cases "property_at (information_sections c) (lm_find (information_sections c) s) p")
  case (Some v)
  then have "env' = env" "c' = c" "r = Some v" using assms(2) by (simp_all add: GetProperty_def)
  then show ?thesis using Some by (simp add: GetProperty_def)
next
  case I: None
  show ?thesis
  proof (cases "property_at (persistent_devices c) (lm_find (persistent_devices c) s) p")
    case (Some v)
    then show ?thesis
      using I assms(2) by (auto simp: GetProperty_def get_key_def split: option.splits if_splits)
  next
    case P: None
    obtain c1 it where f: "find_temporary c s = (c1, it)" by (cases "find_temporary c s")
    have e: "c' = c1" "env' = env" using assms(2) I P f by (simp_all add: GetProperty_def)
    have c1: "information_sections c1 = information_sections c" "persistent_devices c1 = persistent_devices c"
      using f by (auto simp: find_temporary_def split: prod.splits)
    obtain c2 r2 where g: "GetProperty env' c' s p = (env', c2, r2)"
      using I P e c1 by (cases "find_temporary c1 s") (simp add: GetProperty_def)
    note a = GetProperty_store [OF assms] and b = GetProperty_store [OF GetProperty_store(1) [OF assms] g]
    have "r2 = r"
    proof (cases "stored (store_of c) s p")
      case None
      then show ?thesis using a(3,5) b(3) by simp
    next
      case (Some v)
      then show ?thesis using a(4) [OF Some] b(4) [of v] a(5) e c1 by (simp split: option.splits if_splits)
    qed
    then show ?thesis using g by simp
  qed
qed

section \<open>Device types, and the removal of a key\<close>

lemma infer_nodes: "infer_device_type s =
    (let is_le = list_ex (\<lambda>(k, v). k \<in> set kLePropertyNames) (nodes s);
         is_classic = list_ex (\<lambda>(k, v). k \<in> set kClassicPropertyNames) (nodes s)
     in if is_classic \<and> is_le then DUAL else if is_classic then BR_EDR else if is_le then LE else BR_EDR)"
  by (simp add: infer_device_type_def nodes_def list_ex_iff case_prod_unfold)

lemma update_ex: "\<not> f k \<Longrightarrow> list_ex (\<lambda>(k, v). f k) (AList.update k v xs) \<longleftrightarrow> list_ex (\<lambda>(k, v). f k) xs"
  by (induction xs) auto

lemma fix_section_infer:
  assumes "lm_wf s"
  shows "infer_device_type (fix_section k s) = infer_device_type s"
proof -
  have "''DevType'' \<notin> set kLePropertyNames" "''DevType'' \<notin> set kClassicPropertyNames"
    by (simp_all add: kLePropertyNames_def kClassicPropertyNames_def)
  then show ?thesis
    using fix_section_nodes(2) [OF assms, of k] by (auto simp: infer_nodes update_ex)
qed

lemma fix_section_fixed:
  assumes "lm_wf s"
  shows "\<not> snd (FixDeviceTypeInconsistencyInSection k (fix_section k s))"
proof -
  note f = fix_section_nodes [OF assms, of k] and g = fix_section_nodes [OF fix_section_nodes(1) [OF assms, of k], of k]
  have u: "AList.update q v (AList.update q v xs) = AList.update q v xs" for q v and xs :: "(string \<times> string) list"
    by (induction xs) auto
  show ?thesis unfolding g(3) unfolding g(2) fix_section_infer [OF assms] unfolding f(2) by (auto simp: u)
qed

lemma fix_sections_fixed:
  assumes "lm_wf m" "sections_wf (nodes m)"
  shows "\<not> snd (fix_sections (fst (fix_sections m)))"
proof -
  have "lm_wf s" if "(i, k, s) \<in> set (node_list m)" for i k s
    using assms(2) that by (force simp: nodes_def)
  then show ?thesis
    using fix_section_fixed by (fastforce simp: fix_sections_def list_ex_iff fix_section_def)
qed

lemma FixDeviceTypeInconsistencies_fixed:
  assumes "config_wf c"
  shows "\<not> snd (FixDeviceTypeInconsistencies (fst (FixDeviceTypeInconsistencies c)))"
proof -
  note d = config_wfD [OF assms]
  have "\<not> snd (fix_sections (fst (fix_sections (information_sections c))))"
      "\<not> snd (fix_sections (fst (fix_sections (persistent_devices c))))"
      "\<not> snd (fix_sections (fst (fix_sections (list_map (temporary_devices c)))))"
    using d(1,6-8) fix_sections_fixed by (simp_all add: maps_wf_def lru_wf_def)
  then show ?thesis by (simp add: FixDeviceTypeInconsistencies_def Let_def case_prod_unfold)
qed

lemma RemoveProperty_demotes:
  assumes "config_wf c" "map_of (nodes (persistent_devices c)) s = Some x" "lm_get x p \<noteq> None" "p \<in> persistent_property_names c"
    and "RemoveProperty env c s p = (env', c', b)"
  shows "\<not> IsPersistentSection c' s" "q \<noteq> p \<Longrightarrow> stored (store_of c') s q = lm_get x q"
proof -
  let ?I = "nodes (information_sections c)" and ?P = "nodes (persistent_devices c)" and ?T = "lru_nodes (temporary_devices c)"
  note d = config_wfD [OF assms(1)]
  have r: "same_config c c'" "(store_of c', b) = remove_property_store (lru_capacity (temporary_devices c)) (persistent_property_names c) s p (?I, ?P, ?T)"
    using RemoveProperty_store [OF d(1,6,7,8) assms(5)] by (simp_all add: store_of_def [of c])
  note u = store_wf_unique [OF d(2), of s]
  have I: "map_of ?I s = None" using u(1) assms(2) by (cases "map_of ?I s") auto
  have x: "lm_wf x" using sections_wf_map_of [OF d(7) assms(2)] .
  have P': "map_of (nodes (persistent_devices c')) s = None" "map_of (nodes (information_sections c')) s = None"
    using r(2) I assms(2-4) by (auto simp: remove_property_store_def store_of_def delete_conv' split: if_splits)
  then show "\<not> IsPersistentSection c' s" using r(1) by (simp add: IsPersistentSection_def lm_contains_nodes maps_wf_def)
  assume q: "q \<noteq> p"
  have T: "map_of ?T s = None" using u(2) assms(2) by simp
  have n: "length ?T \<le> lru_capacity (temporary_devices c)" "0 < lru_capacity (temporary_devices c)"
    using d(1) by (auto simp: maps_wf_def lru_wf_def lm_size_nodes)
  have get: "lm_get (del_property x p) q = lm_get x q" using lm_extract_nodes [OF x, of p] q by (simp add: lm_get_nodes x delete_conv')
  have c: "map_of (lru_nodes (temporary_devices c')) s = (if nodes (del_property x p) = [] then None else Some (del_property x p))"
    using r(2) I assms(2-4) T by (auto simp: remove_property_store_def store_of_def cache_put_def split: if_splits)
  show "stored (store_of c') s q = lm_get x q"
  proof (cases "nodes (del_property x p) = []")
    case True
    then have "lm_get x q = None" using get lm_extract_nodes(1) [OF x, of p] by (simp add: lm_get_nodes)
    then show ?thesis using P' c True by (simp add: stored_def store_of_def)
  next
    case False
    then show ?thesis using P' c get by (simp add: stored_def store_of_def)
  qed
qed

end
