(* ===== verification/Config_File.thy ===== *)
theory Config_File
  imports Config_Cache_Access
begin

text \<open>
  The legacy configuration file. \<open>SerializeToLegacyFormat\<close> writes the sections as lines, \<open>Read\<close> parses the
  lines back into a cache through \<open>SetProperty\<close>. The lemmas follow the file line by line: a section header, a
  property, a blank line; then a section, then the list of sections; and end with the round trip.
\<close>

section \<open>Lines of the file\<close>

definition prop_line :: "string \<times> string \<Rightarrow> string" where
  "prop_line = (\<lambda>(p, v). p @ '' = '' @ v)"

definition section_lines :: "string \<times> (string \<times> string) list \<Rightarrow> string list" where
  "section_lines = (\<lambda>(k, ps). (''['' @ k @ '']'') # map prop_line ps @ [[]])"

definition flat :: "sections \<Rightarrow> (string \<times> (string \<times> string) list) list" where
  "flat xs = map (\<lambda>(k, s). (k, nodes s)) xs"

lemma getline_lines:
  assumes "\<forall>l \<in> set ls. clean l"
  shows "getline_tokens CHR 0x0A (concat (map (\<lambda>l. l @ newline) ls)) = ls"
  using assms by (induction ls) (simp_all add: newline_def getline_tokens_sep)

lemma serialize_lines:
  "SerializeToLegacyFormat c = concat (map (\<lambda>l. l @ newline)
     (concat (map section_lines (flat (nodes (information_sections c)) @ flat (nodes (persistent_devices c))))))"
proof -
  have s: "serialize_section k s = concat (map (\<lambda>l. l @ newline) (section_lines (k, nodes s)))" for k s
    by (simp add: serialize_section_def section_lines_def prop_line_def nodes_def comp_def case_prod_unfold)
  have "serialize_sections m = concat (map (\<lambda>l. l @ newline) (concat (map section_lines (flat (nodes m)))))" for m
  proof -
    have "concat (map (\<lambda>(i, k, s). serialize_section k s) l) =
        concat (map (\<lambda>l. l @ newline) (concat (map section_lines (flat (map snd l)))))" for l
      by (induction l) (auto simp: flat_def s)
    then show ?thesis by (simp add: serialize_sections_def nodes_def [of m])
  qed
  then show ?thesis by (simp add: SerializeToLegacyFormat_def)
qed

text \<open>What the format can hold: names that survive trimming, do not contain the separator and do not
  start like a comment or a section, and values that survive trimming.\<close>

definition writable :: "string \<times> string \<Rightarrow> bool" where
  "writable = (\<lambda>(p, v). p \<noteq> [] \<and> trimmed p \<and> CHR ''='' \<notin> set p \<and> hd p \<notin> {CHR 0x00, CHR ''#'', CHR ''[''} \<and> trimmed v)"

lemma read_blank: "read_line s st [] = Some (Some s, st)"
  by (simp add: read_line_def StringTrim_def)

lemma space_chars: "is_space CHR '' ''" "\<not> is_space CHR ''[''" "\<not> is_space CHR '']''" "\<not> is_space CHR ''=''"
  by (simp_all add: is_space_def)

lemma read_section: "read_line s st (''['' @ k @ '']'') = Some (Some k, st)"
proof -
  have "StringTrim (''['' @ k @ '']'') = ''['' @ k @ '']''" by (rule StringTrim_id) (simp add: space_chars)
  then show ?thesis by (simp add: read_line_def)
qed

lemma read_property:
  assumes "writable (p, v)"
  shows "read_line s st (prop_line (p, v)) = map_option (Pair (Some s)) (SetProperty (fst st) (snd st) s p v)"
proof -
  have w: "p \<noteq> []" "trimmed p" "CHR ''='' \<notin> set p" "hd p \<notin> {CHR 0x00, CHR ''#'', CHR ''[''}" "trimmed v"
    using assms by (auto simp: writable_def)
  let ?v = "if v = [] then [] else '' '' @ v"
  have "StringTrim (p @ '' = '' @ v) = (p @ '' '') @ CHR ''='' # ?v"
  proof (cases "v = []")
    case True
    have "p @ '' = '' = (p @ '' ='') @ [CHR '' '']" by simp
    then have "StringTrim (p @ '' = '') = StringTrim (p @ '' ='')" by (simp only: StringTrim_pad(2) [OF space_chars(1)])
    also have "\<dots> = p @ '' =''" using w by (intro StringTrim_id) (simp add: space_chars)
    finally show ?thesis using True by simp
  next
    case False
    have "StringTrim (p @ '' = '' @ v) = p @ '' = '' @ v" using w False by (intro StringTrim_id) simp
    then show ?thesis using False by simp
  qed
  moreover have "CHR ''='' \<notin> set (p @ '' '')" using w(3) by simp
  moreover have "StringTrim (p @ '' '') = p" using w by (simp add: StringTrim_pad(2) [OF space_chars(1)] StringTrim_id)
  moreover have "StringTrim ?v = v" using StringTrim_id [OF w(5)] by (auto simp: StringTrim_pad(1) [OF space_chars(1)])
  ultimately show ?thesis
    using w(1,4) split_two [of "CHR ''=''" "p @ '' ''" ?v]
    by (simp add: read_line_def prop_line_def)
qed

section \<open>Reading back a section\<close>

abbreviation plain :: "parameter_provider \<Rightarrow> bool" where
  "plain env \<equiv> bt_keystore_interface env = None \<or> \<not> common_criteria_mode env"

lemma encrypt_plain: "plain env \<Longrightarrow> encrypt_value env s p v = (env, v)"
  by (auto simp: encrypt_value_def split: option.split)

lemma trim_clean: "clean s \<Longrightarrow> TrimAfterNewLine s = s"
  by (auto simp: TrimAfterNewLine_def takeWhile_eq_all_conv)

lemma SetProperty_plain:
  assumes "config_wf c" "plain env" "s \<noteq> []" "p \<noteq> []" "clean s" "clean p" "clean v"
  shows "\<exists>c'. SetProperty env c s p v = Some (env, c') \<and> config_wf c' \<and>
    persistent_property_names c' = persistent_property_names c \<and>
    lru_capacity (temporary_devices c') = lru_capacity (temporary_devices c) \<and>
    store_of c' = set_store (lru_capacity (temporary_devices c)) (persistent_property_names c) s p v v (store_of c)"
proof -
  have "SetProperty env c s p v \<noteq> None"
    using assms(3-7) by (simp add: SetProperty_def trim_clean Let_def split: prod.split)
  then obtain st where st: "SetProperty env c s p v = Some st" by blast
  obtain env' c' where e: "SetProperty env c s p v = Some (env', c')" using st by (cases st) simp
  note t = SetProperty_store [OF config_wfD(1) [OF assms(1)] e refl refl refl, unfolded trim_clean [OF assms(5)] trim_clean [OF assms(6)] trim_clean [OF assms(7)]
      encrypt_plain [OF assms(2)]]
  then show ?thesis using e SetProperty_wf [OF assms(1) e] by simp
qed

lemma map_of_flat: "map_of (flat xs) k = map_option nodes (map_of xs k)"
  by (induction xs) (auto simp: flat_def)

lemma flat_update:
  "flat (AList.update k s xs) = AList.update k (nodes s) (flat xs)"
  by (induction xs) (auto simp: flat_def)

lemma flat_delete: "flat (AList.delete k xs) = AList.delete k (flat xs)"
  by (induction xs) (auto simp: flat_def)

lemma flat_cache_put: "flat (cache_put n k s xs) = cache_put n k (nodes s) (flat xs)"
  by (simp add: cache_put_def flat_delete [symmetric]) (simp add: flat_def take_map)

lemma update_last: "k \<notin> fst ` set xs \<Longrightarrow> AList.update k v (xs @ [(k, w)]) = xs @ [(k, v)]"
  by (induction xs) auto

lemma nodes_put_new:
  assumes "\<And>x. so = Some x \<Longrightarrow> lm_wf x" "map_option nodes so = (if ds = [] then None else Some ds)" "p \<notin> fst ` set ds"
  shows "nodes (put_property so p v) = ds @ [(p, v)]"
proof -
  have "lm_wf (old so)" "nodes (old so) = ds" using assms(1,2) by (cases so; auto split: if_splits)+
  then show ?thesis using assms(3) by (simp add: put_property_def lm_insert_or_assign_nodes update_new)
qed

lemma info_step:
  assumes "config_wf c" "plain env" "k \<noteq> []" "clean k" "\<not> IsDeviceSection k" "p \<noteq> []" "clean p" "clean v"
    and "store_of c = (I, P, T)" "flat I = X @ (if ds = [] then [] else [(k, ds)])" "k \<notin> fst ` set X" "p \<notin> fst ` set ds"
  shows "\<exists>c' I'. SetProperty env c k p v = Some (env, c') \<and> config_wf c' \<and> persistent_property_names c' = persistent_property_names c \<and>
    lru_capacity (temporary_devices c') = lru_capacity (temporary_devices c) \<and>
    store_of c' = (I', P, T) \<and> flat I' = X @ [(k, ds @ [(p, v)])]"
proof -
  obtain c' where c': "SetProperty env c k p v = Some (env, c')" "config_wf c'" "persistent_property_names c' = persistent_property_names c"
      "lru_capacity (temporary_devices c') = lru_capacity (temporary_devices c)"
      "store_of c' = set_store (lru_capacity (temporary_devices c)) (persistent_property_names c) k p v v (store_of c)"
    using SetProperty_plain [OF assms(1-3,6,4,7,8)] by blast
  have I: "I = nodes (information_sections c)" using assms(9) by (simp add: store_of_def)
  have "map_of X k = None" using assms(11) by (simp add: map_of_eq_None_iff)
  then have m: "map_option nodes (map_of I k) = (if ds = [] then None else Some ds)"
    unfolding map_of_flat [symmetric] assms(10) by (simp add: map_add_def split: option.split)
  have "nodes (put_property (map_of I k) p v) = ds @ [(p, v)]"
    using sections_wf_map_of config_wfD(6) [OF assms(1)] m assms(12) unfolding I by (intro nodes_put_new) blast+
  then have "flat (AList.update k (put_property (map_of I k) p v) I) = X @ [(k, ds @ [(p, v)])]"
    using assms(10,11) by (simp add: flat_update update_new update_last)
  then show ?thesis using c' assms(5,9) by (simp add: set_store_def)
qed

lemma device_step:
  assumes "config_wf c" "plain env" "k \<noteq> []" "clean k" "IsDeviceSection k" "p \<noteq> []" "clean p" "clean v"
    and "store_of c = (I, P, T)" "names = persistent_property_names c"
    and "h = (fst ` set ds \<inter> names \<noteq> {})"
    and "flat P = X @ (if h then [(k, ds)] else [])" "flat T = (if \<not> h \<and> ds \<noteq> [] then [(k, ds)] else [])"
    and "k \<notin> fst ` set X" "p \<notin> fst ` set ds"
  shows "\<exists>c' P' T'. SetProperty env c k p v = Some (env, c') \<and> config_wf c' \<and> persistent_property_names c' = names \<and>
    lru_capacity (temporary_devices c') = lru_capacity (temporary_devices c) \<and>
    store_of c' = (I, P', T') \<and> flat P' = X @ (if h \<or> p \<in> names then [(k, ds @ [(p, v)])] else []) \<and>
    flat T' = (if \<not> (h \<or> p \<in> names) then [(k, ds @ [(p, v)])] else [])"
proof -
  let ?n = "lru_capacity (temporary_devices c)"
  obtain c' where c': "SetProperty env c k p v = Some (env, c')" "config_wf c'" "persistent_property_names c' = persistent_property_names c"
      "lru_capacity (temporary_devices c') = ?n" "store_of c' = set_store ?n (persistent_property_names c) k p v v (store_of c)"
    using SetProperty_plain [OF assms(1-3,6,4,7,8)] by blast
  have PT: "P = nodes (persistent_devices c)" "T = lru_nodes (temporary_devices c)" using assms(9) by (simp_all add: store_of_def)
  have n: "?n \<noteq> 0" using config_wfD(1) [OF assms(1)] by (simp add: maps_wf_def lru_wf_def)
  have X: "map_of X k = None" using assms(14) by (simp add: map_of_eq_None_iff)
  have hd: "h \<Longrightarrow> ds \<noteq> []" using assms(11) by auto
  have mP: "map_option nodes (map_of P k) = (if h then Some ds else None)"
    unfolding map_of_flat [symmetric] assms(12) using X by (simp add: map_add_def split: option.split)
  have mT: "map_option nodes (map_of T k) = (if \<not> h \<and> ds \<noteq> [] then Some ds else None)"
    unfolding map_of_flat [symmetric] assms(13) by simp
  have wf: "map_of P k = Some x \<Longrightarrow> lm_wf x" "map_of T k = Some x \<Longrightarrow> lm_wf x" for x
    using sections_wf_map_of [OF config_wfD(7) [OF assms(1)], of k x] sections_wf_map_of [OF config_wfD(8) [OF assms(1)], of k x]
    by (simp_all add: PT)
  have put: "nodes (put_property (map_of P k) p v) = ds @ [(p, v)]" if h
    by (rule nodes_put_new [OF wf(1) _ assms(15)]) (use mP hd that in simp_all)
  have putT: "nodes (put_property (map_of T k) p v) = ds @ [(p, v)]" if "\<not> h"
    by (rule nodes_put_new [OF wf(2) _ assms(15)]) (use mT that in simp_all)
  have "flat (AList.update k (put_property (map_of P k) p v) P) = X @ [(k, ds @ [(p, v)])]" if h
    using assms(12,14) that put by (simp add: flat_update update_last)
  moreover have "flat (AList.update k (put_property (map_of T k) p v) P) = X @ [(k, ds @ [(p, v)])]" "flat (AList.delete k T) = []" if "\<not> h"
    using assms(12-14) that putT by (simp_all add: flat_update update_new flat_delete)
  moreover have "flat (cache_put ?n k (put_property (map_of T k) p v) T) = [(k, ds @ [(p, v)])]" if "\<not> h"
    unfolding flat_cache_put putT [OF that] assms(13) using that by (simp add: cache_put_def)
  moreover have "map_of P k = None \<longleftrightarrow> \<not> h" using mP by (cases "map_of P k") (auto split: if_splits)
  ultimately show ?thesis
    using c' assms(5,9,10,12,13) by (cases h) (simp_all add: set_store_def)
qed

text \<open>Sequences of lines, for any relation \<open>R\<close> between what was read and the cache.\<close>

abbreviation good_prop :: "string \<times> string \<Rightarrow> bool" where
  "good_prop pv \<equiv> writable pv \<and> fst pv \<noteq> [] \<and> clean (fst pv) \<and> clean (snd pv)"

lemma read_properties:
  assumes "\<And>ds c p v. R ds c \<Longrightarrow> good_prop (p, v) \<Longrightarrow> p \<notin> fst ` set ds \<Longrightarrow>
      \<exists>c'. SetProperty env c k p v = Some (env, c') \<and> R (ds @ [(p, v)]) c'"
    and "R ds c" "\<forall>x \<in> set ps. good_prop x" "distinct (map fst (ds @ ps))"
  shows "\<exists>c'. read_lines k (env, c) (map prop_line ps @ rest) = read_lines k (env, c') rest \<and> R (ds @ ps) c'"
  using assms(2-4)
proof (induction ps arbitrary: ds c)
  case (Cons x ps)
  obtain p v where x: "x = (p, v)" by (cases x)
  obtain c1 where c1: "SetProperty env c k p v = Some (env, c1)" "R (ds @ [(p, v)]) c1"
    using assms(1) [OF Cons.prems(1), of p v] Cons.prems(2,3) x by auto
  have "read_lines k (env, c) (map prop_line (x # ps) @ rest) = read_lines k (env, c1) (map prop_line ps @ rest)"
    using read_property [of p v k "(env, c)"] Cons.prems(2) c1(1) by (simp add: x)
  then show ?case using Cons.IH [OF c1(2)] Cons.prems by (simp add: x)
qed auto

lemma read_sections:
  assumes "\<And>ys k ps c rest. Q ys c \<Longrightarrow> good (k, ps) \<Longrightarrow> k \<notin> fst ` set ys \<Longrightarrow>
      \<exists>c'. read_lines k (env, c) (map prop_line ps @ rest) = read_lines k (env, c') rest \<and> Q (ys @ [(k, ps)]) c'"
    and "Q ys c" "\<forall>x \<in> set zs. good x" "distinct (map fst (ys @ zs))"
  shows "\<exists>c' s'. read_lines s (env, c) (concat (map section_lines zs) @ rest) = read_lines s' (env, c') rest \<and> Q (ys @ zs) c'"
  using assms(2-4)
proof (induction zs arbitrary: ys c s)
  case (Cons x zs)
  obtain k ps where x: "x = (k, ps)" by (cases x)
  let ?rest = "[] # concat (map section_lines zs) @ rest"
  obtain c1 where c1: "read_lines k (env, c) (map prop_line ps @ ?rest) = read_lines k (env, c1) ?rest" "Q (ys @ [(k, ps)]) c1"
    using assms(1) [OF Cons.prems(1), of k ps ?rest] Cons.prems(2,3) x by auto
  have "read_lines s (env, c) (concat (map section_lines (x # zs)) @ rest) = read_lines k (env, c1) (concat (map section_lines zs) @ rest)"
    using c1(1) read_section [of s "(env, c)" k] by (simp add: x section_lines_def read_blank)
  then show ?case using Cons.IH [OF c1(2), of k] Cons.prems by (simp add: x)
qed auto

text \<open>The two kinds of sections.\<close>

abbreviation keeps :: "config_cache \<Rightarrow> nat \<Rightarrow> string set \<Rightarrow> bool" where
  "keeps c n names \<equiv> config_wf c \<and> persistent_property_names c = names \<and> lru_capacity (temporary_devices c) = n"

definition read_state :: "nat \<Rightarrow> string set \<Rightarrow> (string \<times> (string \<times> string) list) list \<Rightarrow>
    (string \<times> (string \<times> string) list) list \<Rightarrow> (string \<times> (string \<times> string) list) list \<Rightarrow> config_cache \<Rightarrow> bool" where
  "read_state n names X Y Z c \<longleftrightarrow> keeps c n names \<and>
     (case store_of c of (I, P, T) \<Rightarrow> flat I = X \<and> flat P = Y \<and> flat T = Z)"

definition good_info :: "string \<times> (string \<times> string) list \<Rightarrow> bool" where
  "good_info = (\<lambda>(k, ps). k \<noteq> [] \<and> clean k \<and> \<not> IsDeviceSection k \<and> ps \<noteq> [] \<and> distinct (map fst ps) \<and> (\<forall>x \<in> set ps. good_prop x))"

definition good_device :: "string set \<Rightarrow> string \<times> (string \<times> string) list \<Rightarrow> bool" where
  "good_device names = (\<lambda>(k, ps). k \<noteq> [] \<and> clean k \<and> IsDeviceSection k \<and> fst ` set ps \<inter> names \<noteq> {} \<and>
     distinct (map fst ps) \<and> (\<forall>x \<in> set ps. good_prop x))"

lemma read_info_section:
  assumes "plain env" "read_state n names X Y Z c" "good_info (k, ps)" "k \<notin> fst ` set X"
  shows "\<exists>c'. read_lines k (env, c) (map prop_line ps @ rest) = read_lines k (env, c') rest \<and> read_state n names (X @ [(k, ps)]) Y Z c'"
proof -
  let ?R = "\<lambda>ds c. read_state n names (X @ (if ds = [] then [] else [(k, ds)])) Y Z c"
  have g: "k \<noteq> []" "clean k" "\<not> IsDeviceSection k" "ps \<noteq> []" "distinct (map fst ps)" "\<forall>x \<in> set ps. good_prop x"
    using assms(3) by (auto simp: good_info_def)
  have "\<exists>c'. SetProperty env c k p v = Some (env, c') \<and> ?R (ds @ [(p, v)]) c'"
    if r: "?R ds c" and pv: "good_prop (p, v)" "p \<notin> fst ` set ds" for ds c p v
  proof -
    obtain I P T where s: "store_of c = (I, P, T)" by (cases "store_of c")
    have "config_wf c" "flat I = X @ (if ds = [] then [] else [(k, ds)])" using r s by (simp_all add: read_state_def)
    from info_step [OF this(1) assms(1) g(1-3) _ _ _ s this(2) assms(4) pv(2), of v] pv(1) r s
    show ?thesis by (auto simp: read_state_def)
  qed
  from read_properties [where R = ?R, OF this, of "[]" c ps rest] show ?thesis
    using assms(2) g by simp
qed

lemma read_device_section:
  assumes "plain env" "read_state n names X Y [] c" "good_device names (k, ps)" "k \<notin> fst ` set Y"
  shows "\<exists>c'. read_lines k (env, c) (map prop_line ps @ rest) = read_lines k (env, c') rest \<and> read_state n names X (Y @ [(k, ps)]) [] c'"
proof -
  let ?h = "\<lambda>ds. fst ` set ds \<inter> names \<noteq> {}"
  let ?R = "\<lambda>ds c. read_state n names X (Y @ (if ?h ds then [(k, ds)] else [])) (if \<not> ?h ds \<and> ds \<noteq> [] then [(k, ds)] else []) c"
  have g: "k \<noteq> []" "clean k" "IsDeviceSection k" "?h ps" "distinct (map fst ps)" "\<forall>x \<in> set ps. good_prop x"
    using assms(3) by (auto simp: good_device_def)
  have "\<exists>c'. SetProperty env c k p v = Some (env, c') \<and> ?R (ds @ [(p, v)]) c'"
    if r: "?R ds c" and pv: "good_prop (p, v)" "p \<notin> fst ` set ds" for ds c p v
  proof -
    obtain I P T where s: "store_of c = (I, P, T)" by (cases "store_of c")
    have r': "config_wf c" "persistent_property_names c = names" "lru_capacity (temporary_devices c) = n" "flat I = X"
        "flat P = Y @ (if ?h ds then [(k, ds)] else [])" "flat T = (if \<not> ?h ds \<and> ds \<noteq> [] then [(k, ds)] else [])"
      using r s by (simp_all add: read_state_def)
    have pv': "p \<noteq> []" "clean p" "clean v" using pv(1) by simp_all
    have h: "?h (ds @ [(p, v)]) \<longleftrightarrow> ?h ds \<or> p \<in> names" by auto
    obtain c' P' T' where c': "SetProperty env c k p v = Some (env, c')" "config_wf c'" "persistent_property_names c' = names"
        "lru_capacity (temporary_devices c') = lru_capacity (temporary_devices c)" "store_of c' = (I, P', T')"
        "flat P' = Y @ (if ?h ds \<or> p \<in> names then [(k, ds @ [(p, v)])] else [])"
        "flat T' = (if \<not> (?h ds \<or> p \<in> names) then [(k, ds @ [(p, v)])] else [])"
      using device_step [OF r'(1) assms(1) g(1-3) pv' s r'(2) [symmetric] refl r'(5,6) assms(4) pv(2)] by blast
    have "?R (ds @ [(p, v)]) c'" unfolding read_state_def h using c' r'(3,4) by simp
    then show ?thesis using c'(1) by blast
  qed
  from read_properties [where R = ?R, OF this, of "[]" c ps rest] show ?thesis
    using assms(2) g by simp
qed

lemma flat_eq_nested:
  assumes "flat (nodes m) = flat (nodes m')"
  shows "lm_eq_nested m m'"
proof -
  have "list_all2 (\<lambda>(i, k, s) (j, k', s'). k = k' \<and> lm_eq s s') l l'" if "flat (map snd l) = flat (map snd l')" for l l'
    using that by (induction l arbitrary: l') (auto simp: flat_def lm_eq_def nodes_def Cons_eq_map_conv list_all2_Cons1)
  then show ?thesis using assms by (simp add: lm_eq_nested_def nodes_def)
qed

definition all_writable :: "config_cache \<Rightarrow> bool" where
  "all_writable c \<longleftrightarrow> list_all (\<lambda>(k, s). list_all writable (nodes s)) (nodes (information_sections c) @ nodes (persistent_devices c))"

lemma serialized_sections_good:
  assumes "config_wf c" "all_writable c"
  shows "\<forall>x \<in> set (flat (nodes (information_sections c))). good_info x"
    "\<forall>x \<in> set (flat (nodes (persistent_devices c))). good_device (persistent_property_names c) x"
proof -
  note d = config_wfD [OF assms(1)]
  have good: "distinct (map fst (nodes s)) \<and> nodes s \<noteq> [] \<and> (\<forall>x \<in> set (nodes s). good_prop x)"
    if "section_ok s" "list_all writable (nodes s)" for s
    using that nodes_distinct [of s] by (simp add: section_ok_def list_all_iff) fastforce
  have w: "list_all writable (nodes s)"
    if "(k, s) \<in> set (nodes (information_sections c) @ nodes (persistent_devices c))" for k s
    using bspec [OF assms(2) [unfolded all_writable_def list_all_iff] that] by (simp add: list_all_iff)
  have "good_info (k, nodes s)" if ks: "(k, s) \<in> set (nodes (information_sections c))" for k s
  proof -
    have "info_ok (k, s)" using d(2) ks unfolding store_wf_def by blast
    then show ?thesis using good [of s] w [of k s] ks by (simp add: info_ok_def good_info_def)
  qed
  then show "\<forall>x \<in> set (flat (nodes (information_sections c))). good_info x" by (auto simp: flat_def)
  have "good_device (persistent_property_names c) (k, nodes s)" if ks: "(k, s) \<in> set (nodes (persistent_devices c))" for k s
  proof -
    have "device_ok (k, s) \<and> has_persistent (persistent_property_names c) s" using d(2) ks unfolding store_wf_def by fastforce
    moreover have "IsDeviceSection k \<Longrightarrow> k \<noteq> []" using IsValidAddress_length [of k] by (auto simp: IsDeviceSection_def)
    ultimately show ?thesis using good [of s] w [of k s] ks by (simp add: device_ok_def good_device_def has_persistent_def)
  qed
  then show "\<forall>x \<in> set (flat (nodes (persistent_devices c))). good_device (persistent_property_names c) x" by (auto simp: flat_def)
qed

lemma section_lines_clean: "good_info x \<or> good_device names x \<Longrightarrow> \<forall>l \<in> set (section_lines x). clean l"
  by (cases x) (auto simp: good_info_def good_device_def section_lines_def prop_line_def)

lemma Read_Serialize:
  assumes "config_wf c" "all_writable c" "persistent_property_names c = kLinkKeyProperties" "plain env" "n \<noteq> 0"
  shows "\<exists>c2. Read env (Some (SerializeToLegacyFormat c)) n = Some (env, Some c2) \<and> config_wf c2 \<and>
    config_cache_eq c2 (c\<lparr>temporary_devices := \<lparr>lru_capacity = n, list_map = lm_empty\<rparr>\<rparr>)"
proof -
  let ?I = "flat (nodes (information_sections c))" and ?P = "flat (nodes (persistent_devices c))"
  note g = serialized_sections_good [OF assms(1,2), unfolded assms(3)] and d = config_wfD [OF assms(1)]
  obtain c0 where c0: "new_ConfigCache n kLinkKeyProperties = Some c0"
    using assms(5) by (simp add: new_ConfigCache_def lru_new_def)
  have "read_state n kLinkKeyProperties [] [] [] c0"
    using new_ConfigCache_wf [OF c0] c0
    by (auto simp: read_state_def new_ConfigCache_def lru_new_def store_of_def flat_def nodes_def lm_empty_def split: if_splits)
  then obtain c1 s1 where c1: "read_state n kLinkKeyProperties ?I [] [] c1"
      "read_lines kDefaultSectionName (env, c0) (concat (map section_lines ?I) @ concat (map section_lines ?P) @ []) =
       read_lines s1 (env, c1) (concat (map section_lines ?P) @ [])"
    using read_sections [where Q = "\<lambda>ys. read_state n kLinkKeyProperties ys [] []" and good = good_info and ys = "[]" and c = c0 and zs = ?I
        and s = kDefaultSectionName and rest = "concat (map section_lines ?P) @ []", OF read_info_section [OF assms(4)]] g(1) d(3) by (auto simp: flat_def comp_def case_prod_unfold)
  obtain c2 s2 where c2: "read_state n kLinkKeyProperties ?I ?P [] c2"
      "read_lines s1 (env, c1) (concat (map section_lines ?P) @ []) = read_lines s2 (env, c2) []"
    using read_sections [where Q = "\<lambda>ys. read_state n kLinkKeyProperties ?I ys []" and good = "good_device kLinkKeyProperties" and ys = "[]" and c = c1
        and zs = ?P and s = s1 and rest = "[]", OF read_device_section [OF assms(4)]] g(2) d(4) c1(1) by (auto simp: flat_def comp_def case_prod_unfold)
  have "getline_tokens CHR 0x0A (SerializeToLegacyFormat c) = concat (map section_lines (?I @ ?P))"
    unfolding serialize_lines by (rule getline_lines) (use g section_lines_clean in fastforce)
  then have r: "Read env (Some (SerializeToLegacyFormat c)) n = Some (env, Some c2)"
    using c0 c1(2) c2(2) by (simp add: Read_def)
  have "lm_eq_nested (information_sections c2) (information_sections c)" "lm_eq_nested (persistent_devices c2) (persistent_devices c)"
    using c2(1) by (auto intro!: flat_eq_nested simp: read_state_def store_of_def)
  moreover have "nodes (list_map (temporary_devices c2)) = []"
    using c2(1) by (auto simp: read_state_def store_of_def flat_def)
  ultimately show ?thesis
    using r c2(1) assms(3) by (auto simp: config_cache_eq_def read_state_def lm_eq_nested_def lm_empty_def nodes_def)
qed

end
