(* ===== verification/Storage_Device.thy ===== *)
theory Storage_Device
  imports Config_File
begin

text \<open>
  The typed accessors of \<open>gd/storage/config_cache_helper.{h,cc}\<close> and the device views of
  \<open>gd/storage/device.{h,cc}\<close>, \<open>le_device.cc\<close> and \<open>classic_device.cc\<close>. A helper and a device hold references to the
  caches and, for a device, its section name; the caches are passed explicitly and the device is its section name.
  Getters return the environment and the cache as well, because a look-up may load a key from the key store and
  moves a temporary section to the front of the cache. Setters return \<open>None\<close> where the code aborts.
\<close>

type_synonym store_state = "parameter_provider \<times> config_cache"

section \<open>ConfigCacheHelper\<close>

definition get_typed :: "(string \<Rightarrow> 'a option) \<Rightarrow> store_state \<Rightarrow> string \<Rightarrow> string \<Rightarrow> store_state \<times> 'a option" where
  "get_typed parse st section property =
     (case GetProperty (fst st) (snd st) section property of
        (env, c, None) \<Rightarrow> ((env, c), None)
      | (env, c, Some value_str) \<Rightarrow> ((env, c), parse value_str))"

definition SetBool :: "store_state \<Rightarrow> string \<Rightarrow> string \<Rightarrow> bool \<Rightarrow> store_state option" where
  "SetBool st section property b = SetProperty (fst st) (snd st) section property (if b then ''true'' else ''false'')"

definition GetBool :: "store_state \<Rightarrow> string \<Rightarrow> string \<Rightarrow> store_state \<times> bool option" where
  "GetBool st section property =
     get_typed (\<lambda>value_str. if value_str = ''true'' then Some True else if value_str = ''false'' then Some False else None)
       st section property"

definition SetUint64 :: "store_state \<Rightarrow> string \<Rightarrow> string \<Rightarrow> u64 \<Rightarrow> store_state option" where
  "SetUint64 st section property n = SetProperty (fst st) (snd st) section property (to_string (uint n))"

definition GetUint64 :: "store_state \<Rightarrow> string \<Rightarrow> string \<Rightarrow> store_state \<times> u64 option" where
  "GetUint64 st section property = get_typed (\<lambda>value_str. map_option of_int (Uint64FromString value_str)) st section property"

definition SetUint32 :: "store_state \<Rightarrow> string \<Rightarrow> string \<Rightarrow> u32 \<Rightarrow> store_state option" where
  "SetUint32 st section property n = SetProperty (fst st) (snd st) section property (to_string (uint n))"

definition GetUint32 :: "store_state \<Rightarrow> string \<Rightarrow> string \<Rightarrow> store_state \<times> u32 option" where
  "GetUint32 st section property =
     (case GetProperty (fst st) (snd st) section property of
        (env, c, None) \<Rightarrow> ((env, c), None)
      | (env, c, Some value_str) \<Rightarrow>
          (case GetUint64 (env, c) section property of
             (st, None) \<Rightarrow> (st, None)
           | (st, Some large_value) \<Rightarrow>
               (st, if \<not> IsNumberInNumericLimits 0 (2 ^ 32 - 1) (uint large_value) then None
                    else Some (ucast large_value))))"

definition SetInt64 :: "store_state \<Rightarrow> string \<Rightarrow> string \<Rightarrow> 64 word \<Rightarrow> store_state option" where
  "SetInt64 st section property n = SetProperty (fst st) (snd st) section property (to_string (sint n))"

definition GetInt64 :: "store_state \<Rightarrow> string \<Rightarrow> string \<Rightarrow> store_state \<times> 64 word option" where
  "GetInt64 st section property = get_typed (\<lambda>value_str. map_option of_int (Int64FromString value_str)) st section property"

definition SetInt :: "store_state \<Rightarrow> string \<Rightarrow> string \<Rightarrow> 32 word \<Rightarrow> store_state option" where
  "SetInt st section property n = SetProperty (fst st) (snd st) section property (to_string (sint n))"

definition GetInt :: "store_state \<Rightarrow> string \<Rightarrow> string \<Rightarrow> store_state \<times> 32 word option" where
  "GetInt st section property =
     (case GetProperty (fst st) (snd st) section property of
        (env, c, None) \<Rightarrow> ((env, c), None)
      | (env, c, Some value_str) \<Rightarrow>
          (case GetInt64 (env, c) section property of
             (st, None) \<Rightarrow> (st, None)
           | (st, Some large_value) \<Rightarrow>
               (st, if \<not> IsNumberInNumericLimits (- (2 ^ 31)) (2 ^ 31 - 1) (sint large_value) then None
                    else Some (ucast large_value))))"

definition SetBin :: "store_state \<Rightarrow> string \<Rightarrow> string \<Rightarrow> u8 list \<Rightarrow> store_state option" where
  "SetBin st section property bs = SetProperty (fst st) (snd st) section property (ToHexString bs)"

definition GetBin :: "store_state \<Rightarrow> string \<Rightarrow> string \<Rightarrow> store_state \<times> u8 list option" where
  "GetBin st section property = get_typed FromHexString st section property"

text \<open>
  The templates \<open>Get<T>\<close>: signed and unsigned integral types with their limits, strings, enumerations (here
  \<open>DeviceType\<close>), and types that parse themselves (here \<open>Address\<close>, whose \<open>FromLegacyConfigString\<close> is \<open>FromString\<close>).
\<close>

definition Get_signed :: "int \<Rightarrow> int \<Rightarrow> store_state \<Rightarrow> string \<Rightarrow> string \<Rightarrow> store_state \<times> int option" where
  "Get_signed lowest highest st section property =
     (case GetInt64 st section property of
        (st, None) \<Rightarrow> (st, None)
      | (st, Some n) \<Rightarrow> (st, if \<not> IsNumberInNumericLimits lowest highest (sint n) then None else Some (sint n)))"

definition Get_unsigned :: "int \<Rightarrow> store_state \<Rightarrow> string \<Rightarrow> string \<Rightarrow> store_state \<times> int option" where
  "Get_unsigned highest st section property =
     (case GetUint64 st section property of
        (st, None) \<Rightarrow> (st, None)
      | (st, Some n) \<Rightarrow> (st, if \<not> IsNumberInNumericLimits 0 highest (uint n) then None else Some (uint n)))"

definition DeviceType_FromLegacyConfigString :: "string \<Rightarrow> DeviceType option" where
  "DeviceType_FromLegacyConfigString str =
     (case Int64FromString str of
        None \<Rightarrow> None
      | Some raw_value \<Rightarrow>
          if raw_value < device_type_number UNKNOWN \<or> device_type_number DUAL < raw_value then None
          else Some (if raw_value = 0 then UNKNOWN else if raw_value = 1 then BR_EDR else if raw_value = 2 then LE else DUAL))"

section \<open>Device, LeDevice and ClassicDevice\<close>

datatype ConfigKeyAddressType = LEGACY_KEY_ADDRESS | CLASSIC_ADDRESS | LE_IDENTITY_ADDRESS | LE_LEGACY_PSEUDO_ADDRESS

definition kLeIdentityAddressKey :: string where
  "kLeIdentityAddressKey = ''LeIdentityAddr''"

definition kLeLegacyPseudoAddr :: string where
  "kLeLegacyPseudoAddr = ''LeLegacyPseudoAddr''"

definition section_with_value :: "(string \<times> string) list \<Rightarrow> string \<Rightarrow> string option" where
  "section_with_value xs v = map_option fst (find (\<lambda>(section, property). property = v) xs)"

definition GetConfigSection :: "config_cache \<Rightarrow> hci_address \<Rightarrow> ConfigKeyAddressType \<Rightarrow> string option" where
  "GetConfigSection config key_address key_address_type =
     (if key_address = address_kEmpty then None
      else let key_address_string = address_ToString key_address
           in case key_address_type of
                LEGACY_KEY_ADDRESS \<Rightarrow> Some key_address_string
              | CLASSIC_ADDRESS \<Rightarrow> Some key_address_string
              | LE_IDENTITY_ADDRESS \<Rightarrow>
                  (case section_with_value (GetSectionNamesWithProperty config kLeIdentityAddressKey) key_address_string of
                     Some section \<Rightarrow> Some section
                   | None \<Rightarrow> Some key_address_string)
              | LE_LEGACY_PSEUDO_ADDRESS \<Rightarrow>
                  section_with_value (GetSectionNamesWithProperty config kLeLegacyPseudoAddr) key_address_string)"

definition Device_Exists :: "config_cache \<Rightarrow> string \<Rightarrow> config_cache \<times> bool" where
  "Device_Exists config section = HasSection config section"

definition RemoveFromConfig :: "string \<Rightarrow> MutationEntry option" where
  "RemoveFromConfig section = MutationEntry_RemoveSection NORMAL section"

definition RemoveFromTempConfig :: "string \<Rightarrow> MutationEntry option" where
  "RemoveFromTempConfig section = MutationEntry_RemoveSection MEMORY_ONLY section"

text \<open>The accessors the macros generate, here for \<open>DeviceType\<close>, whose setter keeps the bits already stored.\<close>

definition GetDeviceType :: "store_state \<Rightarrow> string \<Rightarrow> store_state \<times> DeviceType option" where
  "GetDeviceType st section = get_typed DeviceType_FromLegacyConfigString st section ''DevType''"

definition device_type_or :: "DeviceType \<Rightarrow> DeviceType \<Rightarrow> DeviceType" where
  "device_type_or t u =
     (let n = or (device_type_number t) (device_type_number u)
      in if n = 0 then UNKNOWN else if n = 1 then BR_EDR else if n = 2 then LE else DUAL)"

definition SetDeviceType :: "store_state \<Rightarrow> string \<Rightarrow> DeviceType \<Rightarrow> store_state \<times> MutationEntry option" where
  "SetDeviceType st section t =
     (case GetDeviceType st section of
        (st1, prev) \<Rightarrow>
          (st1, MutationEntry_Set NORMAL section ''DevType''
                 (device_type_string (device_type_or t (case prev of None \<Rightarrow> UNKNOWN | Some u \<Rightarrow> u)))))"

definition RemoveDeviceType :: "string \<Rightarrow> MutationEntry option" where
  "RemoveDeviceType section = MutationEntry_RemoveProperty NORMAL section ''DevType''"

definition Device_Le :: "store_state \<Rightarrow> string \<Rightarrow> (store_state \<times> string) option" where
  "Device_Le st section =
     (case GetDeviceType st section of
        (st, None) \<Rightarrow> None
      | (st, Some device_type) \<Rightarrow> if device_type = LE \<or> device_type = DUAL then Some (st, section) else None)"

definition Device_Classic :: "store_state \<Rightarrow> string \<Rightarrow> (store_state \<times> string) option" where
  "Device_Classic st section =
     (case GetDeviceType st section of
        (st, None) \<Rightarrow> None
      | (st, Some device_type) \<Rightarrow> if device_type = BR_EDR \<or> device_type = DUAL then Some (st, section) else None)"

definition Device_GetAddress :: "string \<Rightarrow> hci_address option" where
  "Device_GetAddress section = address_FromString section"

definition LeDevice_kLinkKeyProperties :: "string set" where
  "LeDevice_kLinkKeyProperties = {''LE_KEY_PENC'', ''LE_KEY_PID'', ''LE_KEY_PCSRK'', ''LE_KEY_LENC'', ''LE_KEY_LCSRK''}"

definition LeDevice_IsPaired :: "config_cache \<Rightarrow> string \<Rightarrow> config_cache \<times> bool" where
  "LeDevice_IsPaired config section =
     (if \<not> IsPersistentSection config section then (config, False)
      else HasAtLeastOneMatchingPropertiesInSection config section LeDevice_kLinkKeyProperties)"

definition ClassicDevice_kLinkKeyProperties :: "string set" where
  "ClassicDevice_kLinkKeyProperties = {''LinkKey''}"

definition ClassicDevice_IsPaired :: "config_cache \<Rightarrow> string \<Rightarrow> config_cache \<times> bool" where
  "ClassicDevice_IsPaired config section =
     (if \<not> IsPersistentSection config section then (config, False)
      else HasAtLeastOneMatchingPropertiesInSection config section ClassicDevice_kLinkKeyProperties)"

section \<open>Typed round trips\<close>

text \<open>What a typed getter returns after the setter of the same type.\<close>

lemma get_typed_set:
  assumes "config_wf c" "SetProperty env c s p v = Some st" "clean s" "clean p" "clean v" "v \<noteq> kEncryptedStr"
  shows "snd (get_typed parse st s p) = parse v"
proof -
  obtain env' c' where st: "st = (env', c')" by (cases st)
  obtain env'' c'' where g: "GetProperty env' c' s p = (env'', c'', Some v)"
    using GetProperty_SetProperty [OF assms(1) assms(2) [unfolded st] refl refl refl] assms(3-6) by (auto simp: trim_clean)
  then show ?thesis by (simp add: get_typed_def st)
qed

lemma get_twice_set:
  assumes "config_wf c" "SetProperty env c s p v = Some st" "clean s" "clean p" "clean v" "v \<noteq> kEncryptedStr"
  obtains env' c' st' where "GetProperty (fst st) (snd st) s p = (env', c', Some v)" "get_typed parse (env', c') s p = (st', parse v)"
proof -
  obtain env' c' where st: "st = (env', c')" by (cases st)
  obtain env'' c'' where g: "GetProperty env' c' s p = (env'', c'', Some v)"
    using GetProperty_SetProperty [OF assms(1) assms(2) [unfolded st] refl refl refl] assms(3-6) by (auto simp: trim_clean)
  obtain c3 where "GetProperty env'' c'' s p = (env'', c3, Some v)"
    using GetProperty_again [OF SetProperty_wf [OF assms(1) assms(2) [unfolded st]] g] by blast
  then have "get_typed parse (env'', c'') s p = ((env'', c3), parse v)" by (simp add: get_typed_def)
  then show ?thesis using that [of env'' c'' "(env'', c3)"] g by (simp add: st)
qed

lemma char_in_digits:
  assumes "c \<in> set (nat_to_string n)"
  shows "c \<noteq> CHR 0x0A \<and> c \<noteq> CHR ''n''"
proof -
  obtain d where d: "d < 10" "c = digit_char d" using nat_to_string_digits [OF assms] by blast
  then have "of_char c = 48 + d" using of_char_digit_char [of d] by simp
  then show ?thesis using d(1) by auto
qed

lemma to_string_clean: "clean (to_string i)" "to_string i \<noteq> kEncryptedStr"
proof -
  have *: "CHR 0x0A \<notin> set (to_string i)" "CHR ''n'' \<notin> set (to_string i)"
    by (auto simp: to_string_def dest: char_in_digits)
  show "clean (to_string i)" by (rule *(1))
  have "CHR ''n'' \<in> set kEncryptedStr" by (simp add: kEncryptedStr_def)
  then show "to_string i \<noteq> kEncryptedStr" using *(2) by metis
qed

lemma ToHexString_clean: "clean (ToHexString bs)" "ToHexString bs \<noteq> kEncryptedStr"
proof -
  have *: "\<forall>c \<in> set (ToHexString bs). is_xdigit c" using ToHexString_xdigits by blast
  then show "clean (ToHexString bs)" by (auto simp: is_xdigit_def is_digit_def digit_value_def)
  have "CHR ''n'' \<in> set kEncryptedStr" "\<not> is_xdigit CHR ''n''" by (simp_all add: kEncryptedStr_def is_xdigit_def is_digit_def digit_value_def)
  then show "ToHexString bs \<noteq> kEncryptedStr" using * by metis
qed

lemma bool_values: "clean (if b then ''true'' else ''false'')" "(if b then ''true'' else ''false'') \<noteq> kEncryptedStr"
  by (simp_all add: kEncryptedStr_def)

lemma Bool_round_trip:
  assumes "config_wf (snd st)" "SetBool st s p b = Some st'" "clean s" "clean p"
  shows "snd (GetBool st' s p) = Some b"
  unfolding GetBool_def get_typed_set [OF assms(1) assms(2) [unfolded SetBool_def] assms(3,4) bool_values] by simp

lemma Uint64_round_trip:
  assumes "config_wf (snd st)" "SetUint64 st s p n = Some st'" "clean s" "clean p"
  shows "snd (GetUint64 st' s p) = Some n"
  using uint_lt2p [of n]
  unfolding GetUint64_def get_typed_set [OF assms(1) assms(2) [unfolded SetUint64_def] assms(3,4) to_string_clean]
  by (simp add: Uint64FromString_to_string)

lemma Int64_round_trip:
  assumes "config_wf (snd st)" "SetInt64 st s p n = Some st'" "clean s" "clean p"
  shows "snd (GetInt64 st' s p) = Some n"
  using sint_range_size [of n]
  unfolding GetInt64_def get_typed_set [OF assms(1) assms(2) [unfolded SetInt64_def] assms(3,4) to_string_clean]
  by (simp add: Int64FromString_to_string word_size)

lemma Bin_round_trip:
  assumes "config_wf (snd st)" "SetBin st s p bs = Some st'" "clean s" "clean p"
  shows "snd (GetBin st' s p) = Some bs"
  unfolding GetBin_def get_typed_set [OF assms(1) assms(2) [unfolded SetBin_def] assms(3,4) ToHexString_clean]
  by (rule FromHexString_ToHexString)

lemma Uint32_round_trip:
  assumes "config_wf (snd st)" "SetUint32 st s p n = Some st'" "clean s" "clean p"
  shows "snd (GetUint32 st' s p) = Some n"
proof -
  define v :: u64 where "v = word_of_int (uint n)"
  have u: "uint n < 2 ^ 32" using uint_lt2p [of n] by simp
  then have w: "uint v = uint n" unfolding v_def uint_word_of_int by simp
  have "Uint64FromString (to_string (uint n)) = Some (uint n)" using u by (simp add: Uint64FromString_to_string)
  then have m: "map_option of_int (Uint64FromString (to_string (uint n))) = Some v" by (simp only: option.map v_def)
  obtain env c st2 where g: "GetProperty (fst st') (snd st') s p = (env, c, Some (to_string (uint n)))"
      "GetUint64 (env, c) s p = (st2, map_option of_int (Uint64FromString (to_string (uint n))))"
    unfolding GetUint64_def by (rule get_twice_set [where parse = "\<lambda>value_str. map_option of_int (Uint64FromString value_str)",
          OF assms(1) assms(2) [unfolded SetUint32_def] assms(3,4) to_string_clean])
  have "ucast v = n" by (simp add: ucast_eq w)
  then show ?thesis using g [unfolded m] u w by (simp add: GetUint32_def IsNumberInNumericLimits_def)
qed

lemma Int_round_trip:
  assumes "config_wf (snd st)" "SetInt st s p n = Some st'" "clean s" "clean p"
  shows "snd (GetInt st' s p) = Some n"
proof -
  define v :: "64 word" where "v = word_of_int (sint n)"
  have u: "- (2 ^ 31) \<le> sint n" "sint n < 2 ^ 31" using sint_range_size [of n] by (simp_all add: word_size)
  then have w: "sint v = sint n" unfolding v_def sint_sbintrunc' by (simp add: signed_take_bit_int_eq_self)
  have "Int64FromString (to_string (sint n)) = Some (sint n)" using u by (simp add: Int64FromString_to_string)
  then have m: "map_option of_int (Int64FromString (to_string (sint n))) = Some v" by (simp only: option.map v_def)
  obtain env c st2 where g: "GetProperty (fst st') (snd st') s p = (env, c, Some (to_string (sint n)))"
      "GetInt64 (env, c) s p = (st2, map_option of_int (Int64FromString (to_string (sint n))))"
    unfolding GetInt64_def by (rule get_twice_set [where parse = "\<lambda>value_str. map_option of_int (Int64FromString value_str)",
          OF assms(1) assms(2) [unfolded SetInt_def] assms(3,4) to_string_clean])
  have "ucast v = n" unfolding v_def by (rule bit_word_eqI) (simp add: bit_simps)
  then show ?thesis using g [unfolded m] u w by (simp add: GetInt_def IsNumberInNumericLimits_def)
qed

end
