(* ===== verification/Storage_Module.thy ===== *)
theory Storage_Module
  imports Storage_Device
begin

text \<open>
  \<open>StorageModule\<close> of \<open>gd/storage/storage_module.{h,cc}\<close> and the file operations of \<open>legacy_config_file.cc\<close>. The
  module owns the cache that is written to the configuration file and a cache that lives in memory only. A change of
  the persistent part posts \<open>SaveDelayed\<close> on the handler; \<open>SaveDelayed\<close> arms an alarm; the alarm runs
  \<open>SaveImmediately\<close>, which writes the file. The functions of \<open>os/files.h\<close>, the system property and the clock are
  parameters. An abort is the result \<open>None\<close>.
\<close>

section \<open>Files\<close>

text \<open>The functions of \<open>os/files.h\<close> that are used, and the contents an input stream delivers, over an abstract state
  of the file system.\<close>

record 'fs os_files =
  FileExists :: "'fs \<Rightarrow> string \<Rightarrow> bool"
  ReadFile :: "'fs \<Rightarrow> string \<Rightarrow> string option"
  WriteToFile :: "'fs \<Rightarrow> string \<Rightarrow> string \<Rightarrow> bool \<times> 'fs"
  RemoveFile :: "'fs \<Rightarrow> string \<Rightarrow> bool \<times> 'fs"

text \<open>What the comments in \<open>os/files.h\<close> promise of a successful write.\<close>

definition files_ok :: "'fs os_files \<Rightarrow> bool" where
  "files_ok os \<longleftrightarrow> (\<forall>fs path data fs'. WriteToFile os fs path data = (True, fs') \<longrightarrow> ReadFile os fs' path = Some data)"

definition LegacyConfigFile_Write :: "'fs os_files \<Rightarrow> 'fs \<Rightarrow> string \<Rightarrow> config_cache \<Rightarrow> bool \<times> 'fs" where
  "LegacyConfigFile_Write os fs path cache = WriteToFile os fs path (SerializeToLegacyFormat cache)"

definition LegacyConfigFile_Delete :: "'fs os_files \<Rightarrow> 'fs \<Rightarrow> string \<Rightarrow> bool \<times> 'fs" where
  "LegacyConfigFile_Delete os fs path = (if \<not> FileExists os fs path then (False, fs) else RemoveFile os fs path)"

section \<open>The module\<close>

text \<open>
  The members of \<open>StorageModule\<close> and of its \<open>impl\<close>. \<open>save_tasks\<close> counts the calls of \<open>SaveDelayed\<close> that the
  handler has run: the ones still queued are those the cache has asked for, \<open>notified\<close>, beyond that number.
  \<open>convert_posted\<close> counts the conversions the key store was asked for when the module started.
\<close>

record 'fs storage_module =
  sm_env :: parameter_provider
  sm_fs :: 'fs
  config_file_path :: string
  cache :: config_cache
  memory_only_cache :: config_cache
  has_pending_config_save :: bool
  config_save_alarm :: bool
  save_tasks :: nat
  convert_posted :: nat

definition kConfigFilePrefix :: string where
  "kConfigFilePrefix = ''bt_config-origin''"

definition kConfigFileHash :: string where
  "kConfigFileHash = ''hash''"

definition kInfoSection :: string where
  "kInfoSection = ''Info''"

definition kTimeCreatedProperty :: string where
  "kTimeCreatedProperty = ''TimeCreated''"

definition kAdapterSection :: string where
  "kAdapterSection = ''Adapter''"

definition kMinConfigSaveDelay :: nat where
  "kMinConfigSaveDelay = 20"

definition is_config_checksum_pass :: "nat \<Rightarrow> nat \<Rightarrow> bool" where
  "is_config_checksum_pass compare_result check_bit \<longleftrightarrow> and compare_result check_bit = check_bit"

definition queued_saves :: "'fs storage_module \<Rightarrow> nat" where
  "queued_saves sm = notified (cache sm) - save_tasks sm"

definition SaveDelayed :: "'fs storage_module \<Rightarrow> 'fs storage_module" where
  "SaveDelayed sm =
     (if has_pending_config_save sm then sm
      else sm\<lparr>config_save_alarm := True, has_pending_config_save := True\<rparr>)"

definition SaveImmediately :: "'fs os_files \<Rightarrow> 'fs storage_module \<Rightarrow> 'fs storage_module option" where
  "SaveImmediately os sm =
     (let sm = (if has_pending_config_save sm
                then sm\<lparr>config_save_alarm := False, has_pending_config_save := False\<rparr> else sm);
          (ok, fs) = LegacyConfigFile_Write os (sm_fs sm) (config_file_path sm) (cache sm);
          sm = sm\<lparr>sm_fs := fs\<rparr>
      in if \<not> ok then None
         else case bt_keystore_interface (sm_env sm) of
                Some ks \<Rightarrow>
                  if common_criteria_mode (sm_env sm)
                  then Some (sm\<lparr>sm_env := (sm_env sm)\<lparr>bt_keystore_interface :=
                         Some (snd (set_encrypt_key_or_remove_key ks kConfigFilePrefix kConfigFileHash))\<rparr>\<rparr>)
                  else Some sm
              | None \<Rightarrow> Some sm)"

text \<open>
  The constructor: the delay in milliseconds, the value of the factory reset property, the result of the check sum
  comparison and the formatted time come from outside. The new value of the property is returned.
\<close>

definition load_config ::
    "parameter_provider \<Rightarrow> string option \<Rightarrow> nat \<Rightarrow> string \<Rightarrow> (parameter_provider \<times> config_cache \<times> bool) option" where
  "load_config env contents capacity now =
     (let fresh = (\<lambda>env. case new_ConfigCache capacity kLinkKeyProperties of
            None \<Rightarrow> None
          | Some config \<Rightarrow>
              map_option (\<lambda>(env, config). (env, config, True)) (SetProperty env config kInfoSection kTimeCreatedProperty now))
      in case Read env contents capacity of
           None \<Rightarrow> None
         | Some (env, None) \<Rightarrow> fresh env
         | Some (env, Some config) \<Rightarrow>
             (case HasSection config kAdapterSection of
                (config, found) \<Rightarrow> if \<not> found then fresh env else Some (env, config, False)))"

definition start_module ::
    "parameter_provider \<Rightarrow> 'fs \<Rightarrow> string \<Rightarrow> config_cache \<Rightarrow> config_cache \<Rightarrow> bool \<Rightarrow> 'fs storage_module" where
  "start_module env fs path config memory_only save_needed =
     (let config = fst (FixDeviceTypeInconsistencies (SetPersistentConfigChangedCallback config True));
          sm = \<lparr>sm_env = env, sm_fs = fs, config_file_path = path, cache = config,
                memory_only_cache = memory_only, has_pending_config_save = False,
                config_save_alarm = False, save_tasks = 0,
                convert_posted = (case bt_keystore_interface env of
                   Some ks \<Rightarrow> if ks_callbacks ks = None then 0 else 1 | None \<Rightarrow> 0)\<rparr>
      in if save_needed then SaveDelayed sm else sm)"

definition new_StorageModule ::
    "'fs os_files \<Rightarrow> parameter_provider \<Rightarrow> 'fs \<Rightarrow> string \<Rightarrow> nat \<Rightarrow> nat \<Rightarrow> string \<Rightarrow> nat \<Rightarrow> string \<Rightarrow>
     ('fs storage_module \<times> string) option" where
  "new_StorageModule os env fs path config_save_delay capacity factory_reset compare_result now =
     (if \<not> kMinConfigSaveDelay < config_save_delay then None
      else
        let (fs, factory_reset) = (if factory_reset = ''true''
               then (snd (LegacyConfigFile_Delete os fs path), ''false'') else (fs, factory_reset));
            fs = (if \<not> is_config_checksum_pass compare_result 1 then snd (LegacyConfigFile_Delete os fs path) else fs)
        in case load_config env (ReadFile os fs path) capacity now of
             None \<Rightarrow> None
           | Some (env, config, save_needed) \<Rightarrow>
               (case (move_ConfigCache config, new_ConfigCache capacity {}) of
                  (Some config, Some memory_only) \<Rightarrow>
                    Some (start_module env fs path config memory_only save_needed, factory_reset)
                | _ \<Rightarrow> None))"

text \<open>The destructor: what it leaves behind is the environment and the file system.\<close>

definition delete_StorageModule :: "'fs os_files \<Rightarrow> 'fs storage_module \<Rightarrow> (parameter_provider \<times> 'fs) option" where
  "delete_StorageModule os sm =
     (case (if has_pending_config_save sm then SaveImmediately os sm else Some sm) of
        None \<Rightarrow> None
      | Some sm \<Rightarrow>
          Some ((sm_env sm)\<lparr>bt_keystore_interface := map_option clear_map (bt_keystore_interface (sm_env sm))\<rparr>, sm_fs sm))"

text \<open>The handler runs one posted \<open>SaveDelayed\<close>; the alarm goes off.\<close>

definition run_posted :: "'fs storage_module \<Rightarrow> 'fs storage_module option" where
  "run_posted sm = (if queued_saves sm = 0 then None else Some (SaveDelayed (sm\<lparr>save_tasks := save_tasks sm + 1\<rparr>)))"

definition alarm_fires :: "'fs os_files \<Rightarrow> 'fs storage_module \<Rightarrow> 'fs storage_module option" where
  "alarm_fires os sm = (if config_save_alarm sm then SaveImmediately os (sm\<lparr>config_save_alarm := False\<rparr>) else None)"

section \<open>Operations on the caches\<close>

definition with_cache :: "'fs storage_module \<Rightarrow> store_state \<Rightarrow> 'fs storage_module" where
  "with_cache sm st = sm\<lparr>sm_env := fst st, cache := snd st\<rparr>"

abbreviation state_of :: "'fs storage_module \<Rightarrow> store_state" where
  "state_of sm \<equiv> (sm_env sm, cache sm)"

definition sm_Clear :: "'fs storage_module \<Rightarrow> 'fs storage_module" where
  "sm_Clear sm = sm\<lparr>cache := Clear (cache sm)\<rparr>"

definition sm_Modify_Commit :: "'fs storage_module \<Rightarrow> Mutation \<Rightarrow> 'fs storage_module option" where
  "sm_Modify_Commit sm m =
     (case Mutation_Commit (sm_env sm) (cache sm) (memory_only_cache sm) m of
        None \<Rightarrow> None
      | Some (env, c, mem, m) \<Rightarrow> Some (sm\<lparr>sm_env := env, cache := c, memory_only_cache := mem\<rparr>))"

definition GetDeviceByLegacyKey :: "'fs storage_module \<Rightarrow> hci_address \<Rightarrow> string option" where
  "GetDeviceByLegacyKey sm a = GetConfigSection (cache sm) a LEGACY_KEY_ADDRESS"

definition GetDeviceByClassicMacAddress :: "'fs storage_module \<Rightarrow> hci_address \<Rightarrow> string option" where
  "GetDeviceByClassicMacAddress sm a = GetConfigSection (cache sm) a CLASSIC_ADDRESS"

definition GetDeviceByLeIdentityAddress :: "'fs storage_module \<Rightarrow> hci_address \<Rightarrow> string option" where
  "GetDeviceByLeIdentityAddress sm a = GetConfigSection (cache sm) a LE_IDENTITY_ADDRESS"

definition GetBondedDevices :: "'fs storage_module \<Rightarrow> string list" where
  "GetBondedDevices sm = GetPersistentSections (cache sm)"

definition sm_HasSection :: "'fs storage_module \<Rightarrow> string \<Rightarrow> 'fs storage_module \<times> bool" where
  "sm_HasSection sm section = (case HasSection (cache sm) section of (c, b) \<Rightarrow> (sm\<lparr>cache := c\<rparr>, b))"

definition sm_HasProperty :: "'fs storage_module \<Rightarrow> string \<Rightarrow> string \<Rightarrow> 'fs storage_module \<times> bool" where
  "sm_HasProperty sm section property = (case HasProperty (cache sm) section property of (c, b) \<Rightarrow> (sm\<lparr>cache := c\<rparr>, b))"

definition sm_GetProperty :: "'fs storage_module \<Rightarrow> string \<Rightarrow> string \<Rightarrow> 'fs storage_module \<times> string option" where
  "sm_GetProperty sm section property =
     (case GetProperty (sm_env sm) (cache sm) section property of (env, c, r) \<Rightarrow> (with_cache sm (env, c), r))"

definition sm_SetProperty :: "'fs storage_module \<Rightarrow> string \<Rightarrow> string \<Rightarrow> string \<Rightarrow> 'fs storage_module option" where
  "sm_SetProperty sm section property v = map_option (with_cache sm) (SetProperty (sm_env sm) (cache sm) section property v)"

definition sm_RemoveSection :: "'fs storage_module \<Rightarrow> string \<Rightarrow> 'fs storage_module" where
  "sm_RemoveSection sm section = sm\<lparr>cache := fst (RemoveSection (cache sm) section)\<rparr>"

definition sm_RemoveProperty :: "'fs storage_module \<Rightarrow> string \<Rightarrow> string \<Rightarrow> 'fs storage_module \<times> bool" where
  "sm_RemoveProperty sm section property =
     (case RemoveProperty (sm_env sm) (cache sm) section property of (env, c, b) \<Rightarrow> (with_cache sm (env, c), b))"

definition sm_ConvertEncryptOrDecryptKeyIfNeeded :: "'fs storage_module \<Rightarrow> 'fs storage_module option" where
  "sm_ConvertEncryptOrDecryptKeyIfNeeded sm =
     map_option (with_cache sm) (ConvertEncryptOrDecryptKeyIfNeeded (sm_env sm) (cache sm))"

definition sm_RemoveSectionWithProperty :: "'fs storage_module \<Rightarrow> string \<Rightarrow> 'fs storage_module" where
  "sm_RemoveSectionWithProperty sm property = sm\<lparr>cache := RemoveSectionWithProperty (cache sm) property\<rparr>"

definition sm_SetBool :: "'fs storage_module \<Rightarrow> string \<Rightarrow> string \<Rightarrow> bool \<Rightarrow> 'fs storage_module option" where
  "sm_SetBool sm s p v = map_option (with_cache sm) (SetBool (state_of sm) s p v)"

definition sm_GetBool :: "'fs storage_module \<Rightarrow> string \<Rightarrow> string \<Rightarrow> 'fs storage_module \<times> bool option" where
  "sm_GetBool sm s p = map_prod (with_cache sm) id (GetBool (state_of sm) s p)"

definition sm_SetUint64 :: "'fs storage_module \<Rightarrow> string \<Rightarrow> string \<Rightarrow> u64 \<Rightarrow> 'fs storage_module option" where
  "sm_SetUint64 sm s p v = map_option (with_cache sm) (SetUint64 (state_of sm) s p v)"

definition sm_GetUint64 :: "'fs storage_module \<Rightarrow> string \<Rightarrow> string \<Rightarrow> 'fs storage_module \<times> u64 option" where
  "sm_GetUint64 sm s p = map_prod (with_cache sm) id (GetUint64 (state_of sm) s p)"

definition sm_SetUint32 :: "'fs storage_module \<Rightarrow> string \<Rightarrow> string \<Rightarrow> u32 \<Rightarrow> 'fs storage_module option" where
  "sm_SetUint32 sm s p v = map_option (with_cache sm) (SetUint32 (state_of sm) s p v)"

definition sm_GetUint32 :: "'fs storage_module \<Rightarrow> string \<Rightarrow> string \<Rightarrow> 'fs storage_module \<times> u32 option" where
  "sm_GetUint32 sm s p = map_prod (with_cache sm) id (GetUint32 (state_of sm) s p)"

definition sm_SetInt64 :: "'fs storage_module \<Rightarrow> string \<Rightarrow> string \<Rightarrow> 64 word \<Rightarrow> 'fs storage_module option" where
  "sm_SetInt64 sm s p v = map_option (with_cache sm) (SetInt64 (state_of sm) s p v)"

definition sm_GetInt64 :: "'fs storage_module \<Rightarrow> string \<Rightarrow> string \<Rightarrow> 'fs storage_module \<times> 64 word option" where
  "sm_GetInt64 sm s p = map_prod (with_cache sm) id (GetInt64 (state_of sm) s p)"

definition sm_SetInt :: "'fs storage_module \<Rightarrow> string \<Rightarrow> string \<Rightarrow> 32 word \<Rightarrow> 'fs storage_module option" where
  "sm_SetInt sm s p v = map_option (with_cache sm) (SetInt (state_of sm) s p v)"

definition sm_GetInt :: "'fs storage_module \<Rightarrow> string \<Rightarrow> string \<Rightarrow> 'fs storage_module \<times> 32 word option" where
  "sm_GetInt sm s p = map_prod (with_cache sm) id (GetInt (state_of sm) s p)"

definition sm_SetBin :: "'fs storage_module \<Rightarrow> string \<Rightarrow> string \<Rightarrow> u8 list \<Rightarrow> 'fs storage_module option" where
  "sm_SetBin sm s p v = map_option (with_cache sm) (SetBin (state_of sm) s p v)"

definition sm_GetBin :: "'fs storage_module \<Rightarrow> string \<Rightarrow> string \<Rightarrow> 'fs storage_module \<times> u8 list option" where
  "sm_GetBin sm s p = map_prod (with_cache sm) id (GetBin (state_of sm) s p)"

end
