(* ===== verification/Storage_Saves.thy ===== *)
theory Storage_Saves
  imports Storage_Module
begin

text \<open>
  How the storage module keeps its file up to date. Every operation on the cache that changes what would be written
  announces it; so a module with nothing queued and no save pending has a file that holds the cache or is the file it
  was loaded from. Running the queue and the alarm writes the cache out, and what was written is loaded again.
\<close>

section \<open>Every change of the persistent part is announced\<close>

definition tracks :: "config_cache \<Rightarrow> config_cache \<Rightarrow> bool" where
  "tracks c c' \<longleftrightarrow> has_callback c' = has_callback c \<and> notified c \<le> notified c' \<and> (\<not> has_callback c \<longrightarrow> notified c' = notified c) \<and>
     (has_callback c \<longrightarrow> notified c' = notified c \<longrightarrow> SerializeToLegacyFormat c' = SerializeToLegacyFormat c)"

lemma tracks_refl: "tracks c c"
  by (simp add: tracks_def)

lemma tracks_trans: "tracks a b \<Longrightarrow> tracks b c \<Longrightarrow> tracks a c"
  by (auto simp: tracks_def)

lemma tracks_callback:
  "has_callback c' = has_callback c \<Longrightarrow> notified c' = notified c \<Longrightarrow> tracks c (PersistentConfigChangedCallback c')"
  by (simp add: tracks_def PersistentConfigChangedCallback_def)

abbreviation same_lines :: "config_cache \<Rightarrow> config_cache \<Rightarrow> bool" where
  "same_lines c c' \<equiv> flat (nodes (information_sections c')) = flat (nodes (information_sections c)) \<and>
     flat (nodes (persistent_devices c')) = flat (nodes (persistent_devices c))"

lemma tracks_same:
  "has_callback c' = has_callback c \<Longrightarrow> notified c' = notified c \<Longrightarrow> same_lines c c' \<Longrightarrow> tracks c c'"
  by (simp add: tracks_def serialize_lines)

lemma find_temporary_tracks: "find_temporary c s = (c', it) \<Longrightarrow> tracks c c'"
  by (auto simp: find_temporary_def tracks_def SerializeToLegacyFormat_def split: prod.splits)

lemma SetProperty_tracks:
  assumes "config_wf c" "SetProperty env c s p v = Some (env', c')"
  shows "tracks c c'"
proof -
  let ?s = "TrimAfterNewLine s" and ?p = "TrimAfterNewLine p" and ?v = "TrimAfterNewLine v"
  obtain c1 it where m: "make_persistent c ?s ?p = (c1, it)" by (cases "make_persistent c ?s ?p")
  have m1: "has_callback c1 = has_callback c" "notified c1 = notified c"
    using m by (auto simp: make_persistent_def Let_def split: option.splits if_splits prod.splits)
  have m2: "it = None \<Longrightarrow> c1 = c"
    using make_persistent_none [OF _ m] config_wfD(1) [OF assms(1)] by (simp add: maps_wf_def)
  have i: "tracks c (set_information_property c ?s ?p ?v)"
    by (simp add: set_information_property_def Let_def case_prod_unfold tracks_callback)
  have t: "tracks c (set_temporary_property c ?s ?p ?v)"
    by (auto simp: set_temporary_property_def find_temporary_def Let_def case_prod_unfold intro!: tracks_same)
  have e: "tracks c (PersistentConfigChangedCallback (c1\<lparr>persistent_devices := x\<rparr>))" for x
    using m1 by (simp add: tracks_callback)
  show ?thesis using assms(2) i t e m m2 by (auto simp: SetProperty_def Let_def lm_end_def split: if_splits prod.splits)
qed

lemma RemoveSection_tracks:
  assumes "RemoveSection c s = (c', b)" "config_wf c"
  shows "tracks c c'"
proof -
  have x: "lm_extract m s = (m', None) \<Longrightarrow> lm_wf m \<Longrightarrow> nodes m' = nodes m" for m m' :: "(string, section_map) ListMap"
    using lm_extract_nodes [of m s] by (auto simp: delete_idem map_of_eq_None_iff)
  obtain i ri where i: "lm_extract (information_sections c) s = (i, ri)" by (cases "lm_extract (information_sections c) s")
  obtain p rp where p: "lm_extract (persistent_devices c) s = (p, rp)" by (cases "lm_extract (persistent_devices c) s")
  have w: "lm_wf (information_sections c)" "lm_wf (persistent_devices c)" using config_wfD(1) [OF assms(2)] by (simp_all add: maps_wf_def)
  show ?thesis
    using assms(1) i p x [OF _ w(1), of i] x [OF _ w(2), of p]
    by (cases ri; cases rp) (auto simp: RemoveSection_def Let_def tracks_callback tracks_same split: prod.splits)
qed

lemma Clear_tracks: "tracks c (Clear c)"
  by (auto simp: Clear_def tracks_def Let_def PersistentConfigChangedCallback_def SerializeToLegacyFormat_def)

lemma del_absent:
  assumes "section_ok x" "lm_get x p = None"
  shows "nodes (del_property x p) = nodes x"
  using assms by (simp add: section_ok_def lm_extract_nodes lm_get_nodes delete_idem map_of_eq_None_iff)

lemma flat_update_same:
  assumes "map_of I s = Some x" "nodes y = nodes x" "distinct (map fst I)"
  shows "flat (AList.update s y I) = flat I"
  using assms by (induction I) (auto simp: flat_def)

lemma RemoveProperty_tracks:
  assumes "config_wf c" "RemoveProperty env c s p = (env', c', b)"
  shows "tracks c c'"
proof -
  let ?I = "nodes (information_sections c)" and ?P = "nodes (persistent_devices c)" and ?T = "lru_nodes (temporary_devices c)"
  note d = config_wfD [OF assms(1)]
  have r: "(store_of c', b) = remove_property_store (lru_capacity (temporary_devices c)) (persistent_property_names c) s p (?I, ?P, ?T)"
    using RemoveProperty_store [OF d(1,6,7,8) assms(2)] by (simp add: store_of_def [of c])
  have ok: "map_of ?I s = Some x \<Longrightarrow> section_ok x" "map_of ?P s = Some x \<Longrightarrow> section_ok x" for x
    using store_wfD [OF d(2), of s x] by (simp_all add: info_ok_def device_ok_def)
  have f: "lm_find (information_sections c) s = None \<longleftrightarrow> map_of ?I s = None" "lm_find (persistent_devices c) s = None \<longleftrightarrow> map_of ?P s = None"
    using d(1) lm_find_None [of "information_sections c" s] lm_find_None [of "persistent_devices c" s] by (simp_all add: maps_wf_def)
  have keep: "same_lines c c'" if "\<not> b \<or> (map_of ?I s = None \<and> map_of ?P s = None)"
    using that r ok del_absent flat_update_same [OF _ _ d(3)] flat_update_same [OF _ _ d(4)]
    by (auto simp: remove_property_store_def store_of_def section_ok_def split: option.splits if_splits)
  have count: "has_callback c' = has_callback c \<and> notified c' = notified c"
    if "\<not> b \<or> (map_of ?I s = None \<and> map_of ?P s = None)"
    using that assms(2) unfolding f [symmetric]
    by (auto simp: RemoveProperty_def remove_information_property_def remove_persistent_property_def remove_temporary_property_def
        find_temporary_def Let_def split: option.splits if_splits prod.splits)
  have "tracks c c'" if "b" "map_of ?I s \<noteq> None \<or> map_of ?P s \<noteq> None"
    using that assms(2) unfolding f [symmetric]
    by (auto simp: RemoveProperty_def remove_information_property_def remove_persistent_property_def
        Let_def tracks_callback split: option.splits if_splits prod.splits)
  then show ?thesis using keep count by (meson tracks_same)
qed

lemma RemoveSectionWithProperty_tracks:
  assumes "config_wf c"
  shows "tracks c (RemoveSectionWithProperty c p)"
proof -
  note d = config_wfD [OF assms]
  have w: "lm_wf (information_sections c)" "lm_wf (persistent_devices c)" using d(1) by (simp_all add: maps_wf_def)
  obtain i n where i: "erase_sections (information_sections c) p = (i, n)" by fastforce
  obtain q k where q: "erase_sections (persistent_devices c) p = (q, k)" by fastforce
  obtain t l where t: "erase_sections (list_map (temporary_devices c)) p = (t, l)" by fastforce
  have "n = 0 \<Longrightarrow> nodes i = nodes (information_sections c)"
    using erase_sections_nodes(2,3) [OF w(1) d(6) i] by (auto simp: filter_id_conv)
  moreover have "k = 0 \<Longrightarrow> nodes q = nodes (persistent_devices c)"
    using erase_sections_nodes(2,3) [OF w(2) d(7) q] by (auto simp: filter_id_conv)
  ultimately show ?thesis by (simp add: RemoveSectionWithProperty_def i q t Let_def tracks_callback tracks_same)
qed

lemma fix_sections_same:
  assumes "\<not> snd (fix_sections m)"
  shows "fst (fix_sections m) = m"
proof -
  have "fst (FixDeviceTypeInconsistencyInSection k s) = s" if "\<not> snd (FixDeviceTypeInconsistencyInSection k s)" for k s
    using that by (auto simp: FixDeviceTypeInconsistencyInSection_def Let_def split: option.splits if_splits)
  then have "map (\<lambda>(i, k, s). (i, k, fst (FixDeviceTypeInconsistencyInSection k s))) (node_list m) = node_list m"
    using assms by (intro map_idI) (force simp: fix_sections_def list_ex_iff)
  then show ?thesis by (simp add: fix_sections_def)
qed

lemma FixDeviceTypeInconsistencies_tracks: "tracks c (fst (FixDeviceTypeInconsistencies c))"
proof -
  obtain i b1 where i: "fix_sections (information_sections c) = (i, b1)" by fastforce
  obtain p b2 where p: "fix_sections (persistent_devices c) = (p, b2)" by fastforce
  have "\<not> b1 \<Longrightarrow> i = information_sections c" "\<not> b2 \<Longrightarrow> p = persistent_devices c"
    using fix_sections_same [of "information_sections c"] fix_sections_same [of "persistent_devices c"] i p by simp_all
  then show ?thesis
    by (auto simp: FixDeviceTypeInconsistencies_def i p Let_def tracks_callback tracks_same split: prod.split)
qed

lemma convert_property_tracks:
  assumes "convert_property s (Some (env, c)) p = Some (env', c')" "config_wf c"
  shows "config_wf c' \<and> tracks c c'"
  using assms(1) SetProperty_wf [OF assms(2)] SetProperty_tracks [OF assms(2)] assms(2) tracks_refl
  by (auto simp: convert_property_def Let_def split: option.splits if_splits prod.splits)

lemma convert_properties_tracks:
  assumes "foldl (convert_property s) (Some (env, c)) ps = Some (env', c')" "config_wf c"
  shows "config_wf c' \<and> tracks c c'"
  using assms
proof (induction ps arbitrary: env c)
  case (Cons p ps)
  show ?case
  proof (cases "convert_property s (Some (env, c)) p")
    case None
    have "foldl (convert_property s) None ps = None" by (induction ps) (simp_all add: convert_property_def)
    then show ?thesis using Cons.prems(1) None by simp
  next
    case (Some st)
    obtain env1 c1 where st: "st = (env1, c1)" by (cases st)
    have "config_wf c1 \<and> tracks c c1" using convert_property_tracks Some Cons.prems(2) unfolding st by blast
    moreover have "foldl (convert_property s) (Some (env1, c1)) ps = Some (env', c')" using Cons.prems(1) Some st by simp
    ultimately show ?thesis using Cons.IH tracks_trans by blast
  qed
qed (simp add: tracks_refl)

lemma ConvertEncryptOrDecryptKeyIfNeeded_tracks:
  assumes "ConvertEncryptOrDecryptKeyIfNeeded env c = Some (env', c')" "config_wf c"
  shows "tracks c c'"
proof -
  let ?step = "\<lambda>st section. foldl (convert_property section) st kEncryptKeyNameList"
  have none: "foldl (convert_property s) None ps = None" for s ps by (induction ps) (simp_all add: convert_property_def)
  have "config_wf c' \<and> tracks c c'" if "foldl ?step (Some (env, c)) ss = Some (env', c')" "config_wf c" for ss env c
    using that
  proof (induction ss arbitrary: env c)
    case (Cons s ss)
    have nones: "foldl ?step None ss = None" by (induction ss) (simp_all only: foldl.simps none)
    obtain env1 c1 where st: "foldl (convert_property s) (Some (env, c)) kEncryptKeyNameList = Some (env1, c1)"
      using Cons.prems(1) nones by (cases "foldl (convert_property s) (Some (env, c)) kEncryptKeyNameList") auto
    then have "config_wf c1 \<and> tracks c c1" using convert_properties_tracks Cons.prems(2) by blast
    moreover have "foldl ?step (Some (env1, c1)) ss = Some (env', c')" using Cons.prems(1) st by simp
    ultimately show ?case using Cons.IH tracks_trans by blast
  qed (simp add: tracks_refl)
  then show ?thesis using assms unfolding ConvertEncryptOrDecryptKeyIfNeeded_def by blast
qed

lemma Commit_tracks:
  assumes "Commit (env, c) es = Some (env', c')" "config_wf c"
  shows "tracks c c'"
  using assms
proof (induction es arbitrary: env c)
  case (Cons e es)
  obtain env1 c1 where s: "commit_entry (env, c) e = Some (env1, c1)" "Commit (env1, c1) es = Some (env', c')"
    using Cons.prems(1) by (auto split: option.splits)
  have w: "config_wf c1" using Commit_wf [of "(env, c)" "[e]" "(env1, c1)"] s(1) Cons.prems(2) by simp
  have "tracks c c1"
    using s(1) SetProperty_tracks [OF Cons.prems(2)] RemoveProperty_tracks [OF Cons.prems(2)] RemoveSection_tracks [OF _ Cons.prems(2)]
    by (auto simp: commit_entry_def split: EntryType.splits prod.splits) (metis prod.collapse)
  then show ?case using Cons.IH [OF s(2) w] tracks_trans by blast
qed (simp add: tracks_refl)

lemma lookups_track:
  "HasSection c s = (c', b) \<Longrightarrow> tracks c c'"
  "HasProperty c s p = (c', b) \<Longrightarrow> tracks c c'"
  "GetPropertyNames c s = (c', ns) \<Longrightarrow> tracks c c'"
  "HasAtLeastOneMatchingPropertiesInSection c s qs = (c', b) \<Longrightarrow> tracks c c'"
  using lookups_find find_temporary_tracks tracks_refl by metis+

lemma GetProperty_tracks: "GetProperty env c s p = (env', c', r) \<Longrightarrow> tracks c c'"
  by (auto simp: GetProperty_def tracks_refl find_temporary_tracks split: option.splits if_splits prod.splits)

section \<open>Runs of the module\<close>

inductive sm_step :: "'fs os_files \<Rightarrow> 'fs storage_module \<Rightarrow> 'fs storage_module \<Rightarrow> bool" for os where
  set_property: "sm_SetProperty sm s p v = Some sm' \<Longrightarrow> sm_step os sm sm'"
| remove_property: "sm_RemoveProperty sm s p = (sm', b) \<Longrightarrow> sm_step os sm sm'"
| remove_section: "sm_step os sm (sm_RemoveSection sm s)"
| remove_with: "sm_step os sm (sm_RemoveSectionWithProperty sm p)"
| convert: "sm_ConvertEncryptOrDecryptKeyIfNeeded sm = Some sm' \<Longrightarrow> sm_step os sm sm'"
| clear: "sm_step os sm (sm_Clear sm)"
| commit: "sm_Modify_Commit sm m = Some sm' \<Longrightarrow> sm_step os sm sm'"
| get_property: "sm_GetProperty sm s p = (sm', r) \<Longrightarrow> sm_step os sm sm'"
| has_section: "sm_HasSection sm s = (sm', b) \<Longrightarrow> sm_step os sm sm'"
| has_property: "sm_HasProperty sm s p = (sm', b) \<Longrightarrow> sm_step os sm sm'"
| environment: "sm_step os sm (sm\<lparr>sm_env := env\<rparr>)"
| posted: "run_posted sm = Some sm' \<Longrightarrow> sm_step os sm sm'"
| alarm: "alarm_fires os sm = Some sm' \<Longrightarrow> sm_step os sm sm'"
| save: "SaveImmediately os sm = Some sm' \<Longrightarrow> sm_step os sm sm'"

abbreviation file_contents :: "'fs os_files \<Rightarrow> 'fs storage_module \<Rightarrow> string option" where
  "file_contents os sm \<equiv> ReadFile os (sm_fs sm) (config_file_path sm)"

abbreviation lines_of :: "'fs storage_module \<Rightarrow> string" where
  "lines_of sm \<equiv> SerializeToLegacyFormat (cache sm)"

definition quiet :: "'fs storage_module \<Rightarrow> bool" where
  "quiet sm \<longleftrightarrow> queued_saves sm = 0 \<and> \<not> has_pending_config_save sm"

text \<open>The bookkeeping of the module, and what a quiet module guarantees of its file.\<close>

definition sm_wf :: "'fs storage_module \<Rightarrow> bool" where
  "sm_wf sm \<longleftrightarrow> config_wf (cache sm) \<and> has_callback (cache sm) \<and> save_tasks sm \<le> notified (cache sm) \<and>
     (config_save_alarm sm \<longleftrightarrow> has_pending_config_save sm)"

definition sm_saved :: "'fs os_files \<Rightarrow> 'fs storage_module \<Rightarrow> 'fs storage_module \<Rightarrow> bool" where
  "sm_saved os sm0 sm \<longleftrightarrow> (quiet sm \<longrightarrow> file_contents os sm = Some (lines_of sm) \<or>
     quiet sm0 \<and> file_contents os sm = file_contents os sm0 \<and> lines_of sm = lines_of sm0)"

lemma sm_tracks:
  assumes "sm_wf sm" "sm_saved os sm0 sm" "tracks (cache sm) c'" "config_wf c'"
    and "sm' = sm\<lparr>sm_env := env', cache := c', memory_only_cache := mem\<rparr>"
  shows "sm_wf sm' \<and> sm_saved os sm0 sm'"
proof -
  have t: "has_callback c'" "notified (cache sm) \<le> notified c'" "save_tasks sm \<le> notified (cache sm)"
    "notified c' = notified (cache sm) \<Longrightarrow> SerializeToLegacyFormat c' = lines_of sm"
    using assms(1,3) by (auto simp: sm_wf_def tracks_def)
  have "quiet sm' \<Longrightarrow> notified c' = notified (cache sm) \<and> quiet sm"
    using t(2,3) assms(5) by (auto simp: quiet_def queued_saves_def)
  then show ?thesis using assms t by (auto simp: sm_wf_def sm_saved_def)
qed

lemma SaveImmediately_saves:
  assumes "files_ok os" "SaveImmediately os sm = Some sm'"
  shows "file_contents os sm' = Some (lines_of sm')" "cache sm' = cache sm" "save_tasks sm' = save_tasks sm"
    "\<not> has_pending_config_save sm'" "config_file_path sm' = config_file_path sm" "has_pending_config_save sm \<Longrightarrow> \<not> config_save_alarm sm'"
    "\<not> has_pending_config_save sm \<Longrightarrow> config_save_alarm sm' = config_save_alarm sm"
  using assms by (auto simp: SaveImmediately_def LegacyConfigFile_Write_def files_ok_def Let_def split: if_splits option.splits prod.splits)

text \<open>The operations on the caches only replace the environment and the caches, and announce what they change.\<close>

definition cache_step :: "'fs storage_module \<Rightarrow> 'fs storage_module \<Rightarrow> bool" where
  "cache_step sm sm' \<longleftrightarrow> (\<exists>env c mem. sm' = sm\<lparr>sm_env := env, cache := c, memory_only_cache := mem\<rparr> \<and> tracks (cache sm) c \<and> config_wf c)"

lemma cache_stepI:
  assumes "tracks (cache sm) c" "config_wf c" "sm' = sm\<lparr>sm_env := env, cache := c, memory_only_cache := mem\<rparr>"
  shows "cache_step sm sm'"
  using assms by (auto simp: cache_step_def)

lemma cache_steps:
  assumes w: "config_wf (cache sm)"
  shows "sm_SetProperty sm s p v = Some sm' \<Longrightarrow> cache_step sm sm'"
    and "sm_RemoveProperty sm s p = (sm', b) \<Longrightarrow> cache_step sm sm'"
    and "cache_step sm (sm_RemoveSection sm s)"
    and "cache_step sm (sm_RemoveSectionWithProperty sm p)"
    and "sm_ConvertEncryptOrDecryptKeyIfNeeded sm = Some sm' \<Longrightarrow> cache_step sm sm'"
    and "cache_step sm (sm_Clear sm)"
    and "sm_Modify_Commit sm m = Some sm' \<Longrightarrow> cache_step sm sm'"
    and "sm_GetProperty sm s p = (sm', r) \<Longrightarrow> cache_step sm sm'"
    and "sm_HasSection sm s = (sm', b) \<Longrightarrow> cache_step sm sm'"
    and "sm_HasProperty sm s p = (sm', b) \<Longrightarrow> cache_step sm sm'"
    and "cache_step sm (sm\<lparr>sm_env := env\<rparr>)"
proof -
  let ?mem = "memory_only_cache sm"
  show "cache_step sm sm'" if "sm_SetProperty sm s p v = Some sm'"
    using that SetProperty_tracks [OF w] SetProperty_wf [OF w]
    by (auto simp: sm_SetProperty_def with_cache_def intro!: cache_stepI [where mem = ?mem])
  show "cache_step sm sm'" if "sm_RemoveProperty sm s p = (sm', b)"
    using that RemoveProperty_tracks [OF w] RemoveProperty_wf [OF w]
    by (auto simp: sm_RemoveProperty_def with_cache_def split: prod.splits intro!: cache_stepI [where mem = ?mem])
  obtain c1 b1 where r: "RemoveSection (cache sm) s = (c1, b1)" by fastforce
  show "cache_step sm (sm_RemoveSection sm s)"
    by (rule cache_stepI [where env = "sm_env sm" and mem = ?mem, OF RemoveSection_tracks [OF r w] RemoveSection_wf [OF w r]]) (simp add: sm_RemoveSection_def r)
  show "cache_step sm (sm_RemoveSectionWithProperty sm p)"
    by (rule cache_stepI [where env = "sm_env sm" and mem = ?mem, OF RemoveSectionWithProperty_tracks [OF w] RemoveSectionWithProperty_wf [OF w]])
      (simp add: sm_RemoveSectionWithProperty_def)
  show "cache_step sm sm'" if "sm_ConvertEncryptOrDecryptKeyIfNeeded sm = Some sm'"
    using that ConvertEncryptOrDecryptKeyIfNeeded_tracks [OF _ w] ConvertEncryptOrDecryptKeyIfNeeded_wf [OF w]
    by (auto simp: sm_ConvertEncryptOrDecryptKeyIfNeeded_def with_cache_def intro!: cache_stepI [where mem = ?mem])
  show "cache_step sm (sm_Clear sm)"
    by (rule cache_stepI [where env = "sm_env sm" and mem = ?mem, OF Clear_tracks Clear_wf [OF w]]) (simp add: sm_Clear_def)
  show "cache_step sm sm'" if mc: "sm_Modify_Commit sm m = Some sm'"
  proof -
    obtain env1 c1 mem env2 where c: "Commit (sm_env sm, cache sm) (normal_config_entries m) = Some (env1, c1)"
        "sm' = sm\<lparr>sm_env := env2, cache := c1, memory_only_cache := mem\<rparr>"
      using mc unfolding sm_Modify_Commit_def Mutation_Commit_def by (auto split: option.splits)
    show ?thesis using cache_stepI [OF Commit_tracks [OF c(1) w] _ c(2)] Commit_wf [OF _ c(1)] w by simp
  qed
  show "cache_step sm sm'" if "sm_GetProperty sm s p = (sm', r)"
    using that GetProperty_tracks GetProperty_store(1) [OF w]
    by (auto simp: sm_GetProperty_def with_cache_def split: prod.splits intro!: cache_stepI [where mem = ?mem])
  have find: "config_wf c'" if "c' = cache sm \<or> (\<exists>it. find_temporary (cache sm) s = (c', it))" for c'
    using that w find_temporary_wf by blast
  show "cache_step sm sm'" if "sm_HasSection sm s = (sm', b)"
    using that lookups_track(1) find lookups_find(1)
    by (auto simp: sm_HasSection_def split: prod.splits intro!: cache_stepI [where mem = ?mem and env = "sm_env sm"])
  show "cache_step sm sm'" if "sm_HasProperty sm s p = (sm', b)"
    using that lookups_track(2) find lookups_find(2)
    by (auto simp: sm_HasProperty_def split: prod.splits intro!: cache_stepI [where mem = ?mem and env = "sm_env sm"])
  show "cache_step sm (sm\<lparr>sm_env := env\<rparr>)"
    by (rule cache_stepI [where env = env and mem = ?mem, OF tracks_refl w]) simp
qed

lemma sm_step_inv:
  assumes "sm_step os sm sm'" "files_ok os" "sm_wf sm" "sm_saved os sm0 sm"
  shows "sm_wf sm' \<and> sm_saved os sm0 sm'"
proof -
  have c: "cache_step sm sm' \<Longrightarrow> ?thesis"
    using sm_tracks [OF assms(3,4)] by (auto simp: cache_step_def)
  have w: "config_wf (cache sm)" using assms(3) by (simp add: sm_wf_def)
  have saved: "SaveImmediately os sm1 = Some sm' \<Longrightarrow> cache sm1 = cache sm \<Longrightarrow> save_tasks sm1 = save_tasks sm \<Longrightarrow>
      (config_save_alarm sm1 \<longrightarrow> has_pending_config_save sm1) \<Longrightarrow> ?thesis" for sm1
    using SaveImmediately_saves [OF assms(2), of sm1 sm'] assms(3)
    by (cases "has_pending_config_save sm1") (auto simp: sm_wf_def sm_saved_def)
  from assms(1) show ?thesis
  proof cases
    case posted
    then show ?thesis using assms(3)
      by (auto simp: run_posted_def SaveDelayed_def sm_wf_def sm_saved_def quiet_def queued_saves_def split: if_splits)
  next
    case alarm
    then show ?thesis using saved [of "sm\<lparr>config_save_alarm := False\<rparr>"] by (auto simp: alarm_fires_def split: if_splits)
  next
    case save
    then show ?thesis using saved [of sm] assms(3) by (auto simp: sm_wf_def)
  qed (rule c, metis cache_steps [OF w])+
qed

lemma sm_runs_inv:
  assumes "(sm_step os)\<^sup>*\<^sup>* sm0 sm" "files_ok os" "sm_wf sm0"
  shows "sm_wf sm \<and> sm_saved os sm0 sm"
  using assms(1)
proof (induction rule: rtranclp_induct)
  case base
  then show ?case using assms(3) by (simp add: sm_saved_def)
next
  case (step sm1 sm2)
  then show ?case using sm_step_inv assms(2) by blast
qed

section \<open>Construction, saving and destruction\<close>

lemma Read_wf:
  assumes "Read env f n = Some (env', Some c)"
  shows "config_wf c \<and> \<not> has_callback c \<and> notified c = 0"
proof -
  have "config_wf c' \<and> tracks (snd st) c'" if "read_lines sec st ls = Some (e', Some c')" "config_wf (snd st)" for sec st e' c' ls
    using that
  proof (induction ls arbitrary: sec st)
    case (Cons l ls)
    obtain sec1 st1 where s: "read_line sec st l = Some (Some sec1, st1)" "read_lines sec1 st1 ls = Some (e', Some c')"
      using Cons.prems(1) by (auto split: option.splits)
    have "config_wf (snd st1) \<and> tracks (snd st) (snd st1)"
      using s(1) SetProperty_wf [OF Cons.prems(2)] SetProperty_tracks [OF Cons.prems(2)] Cons.prems(2) tracks_refl
      by (cases st1) (auto simp: read_line_def Let_def split: if_splits option.splits list.splits)
    then show ?case using Cons.IH [OF s(2)] tracks_trans by blast
  qed (simp add: tracks_refl)
  note lines = this
  obtain c0 where c0: "new_ConfigCache n kLinkKeyProperties = Some c0" "\<exists>s ls. read_lines s (env, c0) ls = Some (env', Some c)"
    using assms by (auto simp: Read_def split: option.splits)
  have "\<not> has_callback c0 \<and> notified c0 = 0" using c0(1) by (auto simp: new_ConfigCache_def)
  then show ?thesis using c0(2) lines [of _ "(env, c0)"] new_ConfigCache_wf [OF c0(1)] by (auto simp: tracks_def)
qed

lemma load_config_wf:
  assumes "load_config env contents n now = Some (env', c, save_needed)"
  shows "config_wf c \<and> \<not> has_callback c \<and> notified c = 0"
proof -
  have fresh: "config_wf c \<and> \<not> has_callback c \<and> notified c = 0"
    if "new_ConfigCache n kLinkKeyProperties = Some c0" "SetProperty e c0 s p v = Some (e', c)" for c0 e e' s p v
    using that(1) new_ConfigCache_wf [OF that(1)] SetProperty_wf [OF _ that(2)] SetProperty_tracks [OF _ that(2)]
    by (auto simp: new_ConfigCache_def tracks_def)
  have old: "config_wf c \<and> \<not> has_callback c \<and> notified c = 0" if "Read env contents n = Some (e, Some c0)" "HasSection c0 s = (c, b)" for e c0 s b
    using Read_wf [OF that(1)] lookups_track(1) [OF that(2)] lookups_find(1) [OF that(2)] find_temporary_wf
    by (auto simp: tracks_def)
  have "(\<exists>c0 e e' s p v. new_ConfigCache n kLinkKeyProperties = Some c0 \<and> SetProperty e c0 s p v = Some (e', c)) \<or>
      (\<exists>e c0 s b. Read env contents n = Some (e, Some c0) \<and> HasSection c0 s = (c, b))"
    using assms by (auto simp: load_config_def Let_def split: option.splits prod.splits if_splits) blast+
  then show ?thesis using fresh old by blast
qed

lemma start_module_wf:
  assumes "config_wf c" "notified c = 0"
  shows "sm_wf (start_module env fs path c mem save_needed)"
proof -
  let ?c = "SetPersistentConfigChangedCallback c True"
  have "config_wf ?c" using assms(1) by (simp add: config_wf_def SetPersistentConfigChangedCallback_def maps_wf_def store_of_def)
  moreover have "has_callback ?c" by (simp add: SetPersistentConfigChangedCallback_def)
  ultimately show ?thesis
    using FixDeviceTypeInconsistencies_tracks [of ?c] FixDeviceTypeInconsistencies_wf [of ?c]
    by (auto simp: start_module_def sm_wf_def Let_def SaveDelayed_def tracks_def)
qed

lemma new_StorageModule_wf:
  assumes "new_StorageModule os env fs path delay n fr cmp now = Some (sm, fr')"
  shows "sm_wf sm"
proof -
  obtain fs' env' c save_needed c1 mem where l: "load_config env (ReadFile os fs' path) n now = Some (env', c, save_needed)"
      "move_ConfigCache c = Some c1" "sm = start_module env' fs' path c1 mem save_needed"
    using assms unfolding new_StorageModule_def Let_def by (auto split: if_splits option.splits prod.splits)
  have "c1 = c" using l(2) load_config_wf [OF l(1)] by (auto simp: move_ConfigCache_def)
  then show ?thesis using load_config_wf [OF l(1)] by (simp add: l(3) start_module_wf)
qed

text \<open>The handler runs the posted calls, then the alarm goes off.\<close>

fun run_queue :: "nat \<Rightarrow> 'fs storage_module \<Rightarrow> 'fs storage_module option" where
  "run_queue 0 sm = Some sm"
| "run_queue (Suc n) sm = Option.bind (run_posted sm) (run_queue n)"

definition flush :: "'fs os_files \<Rightarrow> 'fs storage_module \<Rightarrow> 'fs storage_module option" where
  "flush os sm = Option.bind (run_queue (queued_saves sm) sm) (alarm_fires os)"

lemma run_queue_result:
  assumes "sm_wf sm"
  shows "run_queue (queued_saves sm) sm = Some (if queued_saves sm = 0 then sm
     else sm\<lparr>config_save_alarm := True, has_pending_config_save := True, save_tasks := notified (cache sm)\<rparr>)"
proof -
  have "run_queue n sm = Some (if n = 0 then sm
     else sm\<lparr>config_save_alarm := True, has_pending_config_save := True, save_tasks := notified (cache sm)\<rparr>)"
    if "n = queued_saves sm" "sm_wf sm" for n and sm :: "'a storage_module"
    using that
  proof (induction n arbitrary: sm)
    case (Suc n)
    define sm1 where "sm1 = SaveDelayed (sm\<lparr>save_tasks := save_tasks sm + 1\<rparr>)"
    have r: "run_posted sm = Some sm1" using Suc.prems(1) by (simp add: run_posted_def sm1_def)
    have s: "sm1 = sm\<lparr>config_save_alarm := True, has_pending_config_save := True, save_tasks := save_tasks sm + 1\<rparr>"
      using Suc.prems(2) by (cases sm) (auto simp: sm1_def SaveDelayed_def sm_wf_def)
    have n: "Suc n = notified (cache sm) - save_tasks sm" using Suc.prems(1) by (simp add: queued_saves_def)
    then have "n = queued_saves sm1" "sm_wf sm1" using Suc.prems(2) by (auto simp: s queued_saves_def sm_wf_def)
    note run = Suc.IH [OF this]
    show ?case
    proof (cases "n = 0")
      case True
      then have "notified (cache sm) = save_tasks sm + 1" using n by linarith
      then show ?thesis using True run r by (simp add: s)
    next
      case False
      then show ?thesis using run r by (simp add: s)
    qed
  qed simp
  then show ?thesis using assms by blast
qed

lemma SaveImmediately_ok:
  assumes "fst (WriteToFile os (sm_fs sm) (config_file_path sm) (lines_of sm))"
  shows "SaveImmediately os sm \<noteq> None"
  using assms by (auto simp: SaveImmediately_def LegacyConfigFile_Write_def Let_def split: prod.split option.split)

lemma flush_saves:
  assumes "files_ok os" "sm_wf sm" "\<not> quiet sm" "fst (WriteToFile os (sm_fs sm) (config_file_path sm) (lines_of sm))"
  shows "\<exists>sm'. flush os sm = Some sm' \<and> quiet sm' \<and> cache sm' = cache sm \<and> file_contents os sm' = Some (lines_of sm)"
proof -
  define sm1 where "sm1 = (if queued_saves sm = 0 then sm
     else sm\<lparr>config_save_alarm := True, has_pending_config_save := True, save_tasks := notified (cache sm)\<rparr>)"
  have r: "run_queue (queued_saves sm) sm = Some sm1" unfolding sm1_def by (rule run_queue_result [OF assms(2)])
  have s: "config_save_alarm sm1" "has_pending_config_save sm1" "cache sm1 = cache sm" "sm_fs sm1 = sm_fs sm"
      "config_file_path sm1 = config_file_path sm" "notified (cache sm) = save_tasks sm1"
    using assms(2,3) by (auto simp: sm1_def quiet_def sm_wf_def queued_saves_def)
  let ?sm = "sm1\<lparr>config_save_alarm := False\<rparr>"
  have "SaveImmediately os ?sm \<noteq> None" by (rule SaveImmediately_ok) (use assms(4) s in simp)
  then obtain sm2 where sm2: "SaveImmediately os ?sm = Some sm2" by blast
  note i = SaveImmediately_saves [OF assms(1) sm2]
  have "flush os sm = Some sm2" using r s(1) sm2 by (simp add: flush_def alarm_fires_def)
  moreover have "quiet sm2" using i s by (simp add: quiet_def queued_saves_def)
  ultimately show ?thesis using i s by simp
qed

text \<open>After a shutdown with nothing queued the file holds the configuration, and the next start loads it.\<close>

lemma shutdown_saves:
  assumes "files_ok os" "sm_wf sm" "delete_StorageModule os sm = Some (env', fs')"
    and "has_pending_config_save sm \<or> file_contents os sm = Some (lines_of sm)"
  shows "ReadFile os fs' (config_file_path sm) = Some (lines_of sm)"
proof (cases "has_pending_config_save sm")
  case True
  then obtain sm' where s: "SaveImmediately os sm = Some sm'" "fs' = sm_fs sm'"
    using assms(3) by (auto simp: delete_StorageModule_def split: option.splits)
  show ?thesis using SaveImmediately_saves [OF assms(1) s(1)] s(2) by simp
next
  case False
  then show ?thesis using assms(3,4) by (auto simp: delete_StorageModule_def)
qed

lemma HasSection_info:
  assumes "lm_wf (information_sections c)"
  shows "map_of (nodes (information_sections c)) s \<noteq> None \<Longrightarrow> HasSection c s = (c, True)"
  using assms by (auto simp: HasSection_def lm_contains_nodes)

lemma load_saved:
  assumes "config_wf c" "all_writable c" "persistent_property_names c = kLinkKeyProperties" "plain env" "n \<noteq> 0"
    and "kAdapterSection \<in> fst ` set (nodes (information_sections c))"
  shows "\<exists>c2. load_config env (Some (SerializeToLegacyFormat c)) n now = Some (env, c2, False) \<and>
    config_cache_eq c2 (c\<lparr>temporary_devices := \<lparr>lru_capacity = n, list_map = lm_empty\<rparr>\<rparr>)"
proof -
  obtain c2 where c2: "Read env (Some (SerializeToLegacyFormat c)) n = Some (env, Some c2)" "config_wf c2"
      "config_cache_eq c2 (c\<lparr>temporary_devices := \<lparr>lru_capacity = n, list_map = lm_empty\<rparr>\<rparr>)"
    using Read_Serialize [OF assms(1-5)] by blast
  have "map fst (nodes (information_sections c2)) = map fst (nodes (information_sections c))"
    using c2(3) by (auto simp: config_cache_eq_def lm_eq_nested_def nodes_def list_all2_conv_all_nth case_prod_unfold intro!: nth_equalityI)
  then have "map_of (nodes (information_sections c2)) kAdapterSection \<noteq> None"
    using assms(6) by (metis list.set_map map_of_eq_None_iff)
  then have "HasSection c2 kAdapterSection = (c2, True)"
    using HasSection_info config_wfD(1) [OF c2(2)] by (simp add: maps_wf_def)
  then show ?thesis using c2(1,3) by (simp add: load_config_def)
qed

end
