(* ===== verification/Storage_Properties.thy ===== *)
theory Storage_Properties
  imports Storage_Saves
begin

text \<open>
  The properties of the storage components: the ordered map and the cache, addresses, the configuration cache, its file
  and the storage module, each with an instance.
\<close>

section \<open>Instances\<close>

definition no_keystore :: parameter_provider where
  "no_keystore = \<lparr>bt_keystore_interface = None, common_criteria_mode = False\<rparr>"

definition cc_keystore :: parameter_provider where
  "cc_keystore = \<lparr>bt_keystore_interface = Some \<lparr>ks_callbacks = Some (\<lambda>prefix. []), ks_key_map = Map.empty, ks_posted = []\<rparr>,
     common_criteria_mode = True\<rparr>"

abbreviation example_device :: string where
  "example_device \<equiv> ''aa:bb:cc:dd:ee:ff''"

definition empty_cache :: config_cache where
  "empty_cache = the (new_ConfigCache 2 kLinkKeyProperties)"

definition set_in :: "config_cache \<Rightarrow> string \<Rightarrow> string \<Rightarrow> string \<Rightarrow> config_cache" where
  "set_in c s p v = snd (the (SetProperty no_keystore c s p v))"

definition adapter_cache :: config_cache where
  "adapter_cache = set_in empty_cache ''Adapter'' ''Name'' ''phone''"

definition paired_cache :: config_cache where
  "paired_cache = set_in adapter_cache example_device ''LinkKey'' ''0011''"

definition dual_cache :: config_cache where
  "dual_cache = set_in paired_cache example_device ''LE_KEY_PENC'' ''22''"

definition map_files :: "(string \<rightharpoonup> string) os_files" where
  "map_files = \<lparr>FileExists = (\<lambda>fs p. fs p \<noteq> None), ReadFile = (\<lambda>fs p. fs p),
     WriteToFile = (\<lambda>fs p d. (True, fs(p \<mapsto> d))), RemoveFile = (\<lambda>fs p. (True, fs(p := None)))\<rparr>"

lemma map_files_ok: "files_ok map_files"
  by (simp add: files_ok_def map_files_def)

lemma empty_cache_new: "new_ConfigCache 2 kLinkKeyProperties = Some empty_cache"
  by (simp add: empty_cache_def new_ConfigCache_def lru_new_def)

lemma set_in_eq:
  assumes "SetProperty no_keystore c s p v \<noteq> None"
  shows "SetProperty no_keystore c s p v = Some (no_keystore, set_in c s p v)"
proof -
  obtain e c' where "SetProperty no_keystore c s p v = Some (e, c')" using assms by fastforce
  moreover from this have "e = no_keystore"
    by (auto simp: SetProperty_def Let_def encrypt_value_def no_keystore_def split: if_splits prod.splits)
  ultimately show ?thesis by (simp add: set_in_def)
qed

lemma SetProperty_defined: "s \<noteq> [] \<Longrightarrow> p \<noteq> [] \<Longrightarrow> clean s \<Longrightarrow> clean p \<Longrightarrow> SetProperty env c s p v \<noteq> None"
  by (auto simp: SetProperty_def Let_def trim_clean split: prod.split)

lemma example_steps:
  "SetProperty no_keystore empty_cache ''Adapter'' ''Name'' ''phone'' = Some (no_keystore, adapter_cache)"
  "SetProperty no_keystore adapter_cache example_device ''LinkKey'' ''0011'' = Some (no_keystore, paired_cache)"
  "SetProperty no_keystore paired_cache example_device ''LE_KEY_PENC'' ''22'' = Some (no_keystore, dual_cache)"
  unfolding adapter_cache_def paired_cache_def dual_cache_def
  by (rule set_in_eq, rule SetProperty_defined; simp)+

lemma example_reachable:
  "reachable no_keystore empty_cache" "reachable no_keystore adapter_cache" "reachable no_keystore paired_cache" "reachable no_keystore dual_cache"
proof -
  show e: "reachable no_keystore empty_cache" by (rule reachable.construct [OF empty_cache_new])
  show a: "reachable no_keystore adapter_cache" by (rule reachable.set_property [OF e example_steps(1)])
  show p: "reachable no_keystore paired_cache" by (rule reachable.set_property [OF a example_steps(2)])
  show "reachable no_keystore dual_cache" by (rule reachable.set_property [OF p example_steps(3)])
qed

section \<open>Containers\<close>

text \<open>C32: an ordered map whose index agrees with its nodes stays so under every operation, and the operations act on
  the list of entries as an association list does: assignment keeps the position of a key or appends it, extraction
  removes it and returns it, look-up finds it. \<open>splice\<close> to the front moves an entry without changing the rest.\<close>

theorem list_map_refines_alist:
  assumes "lm_wf m"
  shows "lm_get m k = map_of (nodes m) k \<and> (lm_contains m k \<longleftrightarrow> k \<in> fst ` set (nodes m)) \<and>
    lm_wf (lm_insert_or_assign m k v) \<and> nodes (lm_insert_or_assign m k v) = AList.update k v (nodes m) \<and>
    lm_wf (fst (lm_extract m k)) \<and> nodes (fst (lm_extract m k)) = AList.delete k (nodes m) \<and>
    snd (lm_extract m k) = map_option (Pair k) (map_of (nodes m) k) \<and>
    (\<forall>i. lm_find m k = Some i \<longrightarrow>
       lm_wf (lm_splice m (lm_begin m) i) \<and>
       nodes (lm_splice m (lm_begin m) i) = (k, the (map_of (nodes m) k)) # AList.delete k (nodes m) \<and>
       lm_wf (fst (lm_erase m i)) \<and> nodes (fst (lm_erase m i)) = AList.delete k (nodes m))"
proof -
  have "lm_wf (lm_splice m (lm_begin m) i) \<and>
       nodes (lm_splice m (lm_begin m) i) = (k, the (map_of (nodes m) k)) # AList.delete k (nodes m) \<and>
       lm_wf (fst (lm_erase m i)) \<and> nodes (fst (lm_erase m i)) = AList.delete k (nodes m)" if i: "lm_find m k = Some i" for i
  proof -
    obtain w where w: "(i, k, w) \<in> set (node_list m)" "map_of (nodes m) k = Some w" by (rule lm_find_Some [OF assms i])
    then show ?thesis using lm_splice_nodes(1,2) [OF assms w(1)] lm_erase_nodes(1,2) [OF assms w(1)] by simp
  qed
  then show ?thesis
    by (simp add: assms lm_get_nodes lm_contains_nodes map_of_eq_None_iff lm_insert_or_assign_nodes lm_extract_nodes)
qed

theorem list_map_refines_alist_witness:
  "nodes (lm_insert_or_assign (lm_insert_or_assign lm_empty (1 :: nat) ''a'') 2 ''b'') = [(1, ''a''), (2, ''b'')]"
proof -
  let ?m = "lm_insert_or_assign lm_empty (1 :: nat) ''a''"
  have a: "lm_wf ?m" "nodes ?m = [(1, ''a'')]" using list_map_refines_alist [OF lm_wf_empty(1), of "1 :: nat" "''a''"] by simp_all
  show ?thesis using list_map_refines_alist [OF a(1), of 2 "''b''"] a(2) by simp
qed

text \<open>C31: the cache never holds more entries than its capacity. A look-up moves the entry to the front, an insertion puts it
  there and drops the last entry of a full cache, an extraction removes it.\<close>

theorem lru_cache_refines_spec:
  assumes "lru_wf c"
  shows "length (lru_nodes c) \<le> lru_capacity c \<and>
    lru_wf (fst (lru_find c k)) \<and> lru_nodes (fst (lru_find c k)) = warm k (lru_nodes c) \<and>
    (snd (lru_find c k) = None \<longleftrightarrow> map_of (lru_nodes c) k = None) \<and>
    lru_wf (fst (lru_insert_or_assign c k v)) \<and>
    lru_nodes (fst (lru_insert_or_assign c k v)) = cache_put (lru_capacity c) k v (lru_nodes c) \<and>
    lru_capacity (fst (lru_insert_or_assign c k v)) = lru_capacity c \<and>
    lru_wf (fst (lru_extract c k)) \<and> lru_nodes (fst (lru_extract c k)) = AList.delete k (lru_nodes c) \<and>
    snd (lru_extract c k) = map_option (Pair k) (map_of (lru_nodes c) k)"
proof -
  obtain c' it where f: "lru_find c k = (c', it)" by fastforce
  show ?thesis
    using assms lru_find_nodes(1,2,5) [OF assms f] f
    by (simp add: lru_insert_or_assign_nodes lru_extract_nodes) (simp add: lru_wf_def lm_size_nodes)
qed

theorem lru_cache_refines_spec_witness:
  "lru_nodes (fst (lru_insert_or_assign (fst (lru_insert_or_assign \<lparr>lru_capacity = 1, list_map = lm_empty\<rparr> (1 :: nat) ''a'')) 2 ''b'')) = [(2, ''b'')]"
proof -
  let ?c = "\<lparr>lru_capacity = 1, list_map = lm_empty\<rparr> :: (nat, string) LruCache"
  let ?d = "fst (lru_insert_or_assign ?c 1 ''a'')"
  have "lru_wf ?c" by (simp add: lru_wf_def)
  then have d: "lru_wf ?d" "lru_nodes ?d = [(1, ''a'')]" "lru_capacity ?d = 1"
    using lru_cache_refines_spec [of ?c 1 "''a''"] by (simp_all add: cache_put_def)
  then show ?thesis using lru_cache_refines_spec [OF d(1), of 2 "''b''"] by (simp add: cache_put_def)
qed

section \<open>Addresses\<close>

text \<open>C35: the text of an address parses to the same address, for the addresses of the HCI layer, which keep the least
  significant byte first, and for those of the legacy stack, which keep it last; both print the same text for the same
  address, and writing an address to a byte stream and reading it back leaves the rest of the stream.\<close>

theorem address_round_trips:
  assumes "length a = 6" "length r = 6"
  shows "address_FromString (address_ToString a) = Some a \<and> raw_FromString (raw_ToString r) = Some r \<and>
    address_ToString (address_of_raw r) = raw_ToString r \<and> IsValidAddress (address_ToString a) \<and>
    STREAM_TO_BDADDR (BDADDR_TO_STREAM [] r @ rest) = (r, rest)"
  using assms by (simp add: address_round_trip raw_round_trip address_ToString_raw bdaddr_stream_round_trip IsValidAddress_def)

theorem address_round_trips_witness:
  "address_FromString (address_ToString [1, 2, 3, 4, 5, 0xFF]) = Some [1, 2, 3, 4, 5, 0xFF] \<and>
   raw_FromString (raw_ToString [1, 2, 3, 4, 5, 0xFF]) = Some [1, 2, 3, 4, 5, 0xFF]"
  using address_round_trips [of "[1, 2, 3, 4, 5, 0xFF]" "[1, 2, 3, 4, 5, 0xFF]"] by simp

text \<open>The parser of addresses also accepts octets written with a sign or with a leading blank, which are not of the form
  \<open>xx\<close>; a negative octet wraps around. So different texts that all pass \<open>IsValidAddress\<close> denote one address, and the
  variant with an output parameter clears the output when it fails.\<close>

theorem address_parser_accepts_signs:
  "address_FromString ''+1: 2:-1:00:00:0a'' = Some [0x0a, 0, 0, 0xFF, 2, 1] \<and>
   address_FromString ''01:02:ff:00:00:0a'' = Some [0x0a, 0, 0, 0xFF, 2, 1] \<and>
   IsValidAddress ''+1: 2:-1:00:00:0a'' \<and>
   (\<forall>a. address_FromString_to ''01:02'' a = (False, address_kEmpty))"
proof -
  have "address_FromString ''+1: 2:-1:00:00:0a'' = Some [0x0a, 0, 0, 0xFF, 2, 1]" by code_simp
  moreover have "address_FromString ''01:02:ff:00:00:0a'' = Some [0x0a, 0, 0, 0xFF, 2, 1]" by code_simp
  moreover have "address_FromString ''01:02'' = None" by code_simp
  ultimately show ?thesis by (simp add: IsValidAddress_def address_FromString_to_def address_kEmpty_def kLength_def numeral_eq_Suc)
qed

section \<open>The configuration cache\<close>

text \<open>C13: every state of the cache that its operations lead to is well formed: the three maps have consistent indices and the
  temporary devices stay within the capacity; no section is empty and no name or value has a line break; sections whose
  name is an address are devices and the others are not; a persistent device has one of the persistent properties; no
  device is both persistent and temporary.\<close>

theorem reachable_config_wf: "reachable env c \<Longrightarrow> config_wf c"
  by (rule reachable_wf)

theorem reachable_config_wf_witness: "config_wf dual_cache"
  by (rule reachable_config_wf [OF example_reachable(4)])

text \<open>C10: a property that was set reads back as the value up to the first line break, also when Common Criteria mode moved the
  value to the key store and left the marker in the cache. The one value excluded is the marker itself.\<close>

theorem set_get_property:
  assumes "reachable env c" "SetProperty env c s p v = Some (env', c')" "TrimAfterNewLine v \<noteq> kEncryptedStr"
  shows "\<exists>env'' c''. GetProperty env' c' (TrimAfterNewLine s) (TrimAfterNewLine p) = (env'', c'', Some (TrimAfterNewLine v))"
  by (rule GetProperty_SetProperty [OF reachable_wf [OF assms(1)] assms(2) refl refl refl assms(3)])

theorem set_get_property_witness:
  "\<exists>env' c'. SetProperty cc_keystore empty_cache example_device ''LinkKey'' ''0011'' = Some (env', c') \<and>
     stored (store_of c') example_device ''LinkKey'' = Some kEncryptedStr \<and>
     (\<exists>env'' c''. GetProperty env' c' example_device ''LinkKey'' = (env'', c'', Some ''0011''))"
proof -
  obtain env' c' where s: "SetProperty cc_keystore empty_cache example_device ''LinkKey'' ''0011'' = Some (env', c')"
    using SetProperty_defined [of example_device "''LinkKey''" cc_keystore empty_cache "''0011''"] by fastforce
  have r: "reachable cc_keystore empty_cache" by (rule reachable.construct [OF empty_cache_new])
  have "(case SetProperty cc_keystore empty_cache example_device ''LinkKey'' ''0011'' of
      None \<Rightarrow> False | Some (e, c) \<Rightarrow> stored (store_of c) example_device ''LinkKey'' = Some kEncryptedStr)" by code_simp
  then have "stored (store_of c') example_device ''LinkKey'' = Some kEncryptedStr" using s by simp
  then show ?thesis
    using s set_get_property [OF r s] by (simp add: trim_clean kEncryptedStr_def)
qed

text \<open>C33: setting a property leaves every other property as it was, except that a new temporary device may push the least
  recently used temporary device out of the full cache.\<close>

theorem set_property_frame:
  assumes "reachable env c" "SetProperty env c s0 p0 v = Some (env', c')" "s = TrimAfterNewLine s0" "p = TrimAfterNewLine p0"
    and "(s', p') \<noteq> (s, p)"
    and "\<not> evicted (lru_capacity (temporary_devices c)) (persistent_property_names c) s p (store_of c) s'"
  shows "stored (store_of c') s' p' = stored (store_of c) s' p'"
  using SetProperty_store [OF config_wfD(1) [OF reachable_wf [OF assms(1)]] assms(2-4) refl]
    stored_set(2) [OF reachable_wf [OF assms(1)] assms(5,6)] by simp

theorem set_property_frame_witness:
  "stored (store_of paired_cache) ''Adapter'' ''Name'' = stored (store_of adapter_cache) ''Adapter'' ''Name''"
proof (rule set_property_frame [OF example_reachable(2) example_steps(2) refl refl])
  show "\<not> evicted (lru_capacity (temporary_devices adapter_cache)) (persistent_property_names adapter_cache)
     (TrimAfterNewLine example_device) (TrimAfterNewLine ''LinkKey'') (store_of adapter_cache) ''Adapter''"
    by code_simp
qed (simp add: trim_clean)

text \<open>C36: removing one persistent property makes the device temporary, although the other persistent properties stay stored: a
  device with keys for both transports is no longer written to disk once one of them is removed.\<close>

theorem remove_property_demotes_device:
  assumes "reachable env c" "map_of (nodes (persistent_devices c)) s = Some x" "lm_get x p \<noteq> None"
    and "p \<in> persistent_property_names c" "RemoveProperty env c s p = (env', c', b)" "q \<noteq> p"
  shows "\<not> IsPersistentSection c' s \<and> stored (store_of c') s q = lm_get x q"
  using RemoveProperty_demotes [OF reachable_wf [OF assms(1)] assms(2-5)] assms(6) by blast

theorem remove_property_demotes_device_witness:
  "\<exists>c'. fst (snd (RemoveProperty no_keystore dual_cache example_device ''LinkKey'')) = c' \<and>
     \<not> IsPersistentSection c' example_device \<and> stored (store_of c') example_device ''LE_KEY_PENC'' = Some ''22''"
proof -
  obtain env' c' b where r: "RemoveProperty no_keystore dual_cache example_device ''LinkKey'' = (env', c', b)" by (metis prod_cases3)
  have "(case map_of (nodes (persistent_devices dual_cache)) example_device of None \<Rightarrow> False
      | Some x \<Rightarrow> lm_get x ''LinkKey'' \<noteq> None \<and> lm_get x ''LE_KEY_PENC'' = Some ''22'')" by code_simp
  then obtain x where x: "map_of (nodes (persistent_devices dual_cache)) example_device = Some x" "lm_get x ''LinkKey'' \<noteq> None"
      "lm_get x ''LE_KEY_PENC'' = Some ''22''"
    by (auto split: option.splits)
  have n: "''LinkKey'' \<in> persistent_property_names dual_cache" by code_simp
  show ?thesis using remove_property_demotes_device [OF example_reachable(4) x(1,2) n r, of "''LE_KEY_PENC''"] x(3) r by simp
qed

text \<open>Repairing the device types is idempotent: a second run finds nothing to repair and leaves the cache as it is.\<close>

theorem fix_device_types_idempotent:
  assumes "reachable env c" "c1 = fst (FixDeviceTypeInconsistencies c)"
  shows "snd (FixDeviceTypeInconsistencies c1) = False \<and> SerializeToLegacyFormat (fst (FixDeviceTypeInconsistencies c1)) = SerializeToLegacyFormat c1"
proof -
  have f: "\<not> snd (FixDeviceTypeInconsistencies c1)"
    unfolding assms(2) by (rule FixDeviceTypeInconsistencies_fixed [OF reachable_wf [OF assms(1)]])
  obtain i b1 p b2 where ip: "fix_sections (information_sections c1) = (i, b1)" "fix_sections (persistent_devices c1) = (p, b2)" by fastforce
  have "\<not> b1" "\<not> b2" using f ip by (auto simp: FixDeviceTypeInconsistencies_def Let_def split: prod.splits if_splits)
  then have "i = information_sections c1" "p = persistent_devices c1"
    using fix_sections_same [of "information_sections c1"] fix_sections_same [of "persistent_devices c1"] ip by simp_all
  then show ?thesis
    using f ip \<open>\<not> b1\<close> \<open>\<not> b2\<close> by (auto simp: FixDeviceTypeInconsistencies_def Let_def SerializeToLegacyFormat_def split: prod.splits)
qed

theorem fix_device_types_idempotent_witness:
  "snd (FixDeviceTypeInconsistencies dual_cache) \<and> \<not> snd (FixDeviceTypeInconsistencies (fst (FixDeviceTypeInconsistencies dual_cache)))"
proof -
  have "snd (FixDeviceTypeInconsistencies dual_cache)" by code_simp
  then show ?thesis using fix_device_types_idempotent [OF example_reachable(4) refl] by simp
qed

text \<open>The names that mark a classic device do not include the properties under which the manufacturer and the vendor id
  source are stored, \<open>SdpDiManufacturer\<close> and \<open>SdpDiVendorIdSource\<close>: a device with these properties and an LE key is
  taken for an LE device, while one with \<open>SdpDiModel\<close> is taken for a dual device.\<close>

theorem infer_ignores_manufacturer:
  "infer_device_type (lm_insert_or_assign (lm_insert_or_assign (lm_insert_or_assign lm_empty ''LE_KEY_PENC'' k)
      ''SdpDiManufacturer'' m) ''SdpDiVendorIdSource'' v) = LE \<and>
   infer_device_type (lm_insert_or_assign (lm_insert_or_assign lm_empty ''LE_KEY_PENC'' k) ''SdpDiModel'' m) = DUAL"
  by (simp add: infer_nodes lm_insert_or_assign_nodes kLePropertyNames_def kClassicPropertyNames_def)

text \<open>C34: what a typed setter stores, the getter of the same type returns: booleans, unsigned and signed integers of 32 and 64
  bits, and byte strings.\<close>

theorem typed_round_trips:
  assumes "reachable (fst st) (snd st)" "clean s" "clean p"
  shows "(SetBool st s p b = Some st1 \<longrightarrow> snd (GetBool st1 s p) = Some b) \<and>
    (SetUint64 st s p u64 = Some st2 \<longrightarrow> snd (GetUint64 st2 s p) = Some u64) \<and>
    (SetUint32 st s p u32 = Some st3 \<longrightarrow> snd (GetUint32 st3 s p) = Some u32) \<and>
    (SetInt64 st s p i64 = Some st4 \<longrightarrow> snd (GetInt64 st4 s p) = Some i64) \<and>
    (SetInt st s p i32 = Some st5 \<longrightarrow> snd (GetInt st5 s p) = Some i32) \<and>
    (SetBin st s p bs = Some st6 \<longrightarrow> snd (GetBin st6 s p) = Some bs)"
proof -
  note w = reachable_wf [OF assms(1)]
  show ?thesis
    by (intro conjI impI; (rule Bool_round_trip [OF w _ assms(2,3)] Uint64_round_trip [OF w _ assms(2,3)] Uint32_round_trip [OF w _ assms(2,3)]
        Int64_round_trip [OF w _ assms(2,3)] Int_round_trip [OF w _ assms(2,3)] Bin_round_trip [OF w _ assms(2,3)]); assumption)
qed

theorem typed_round_trips_witness:
  "\<exists>st. SetInt (no_keystore, empty_cache) example_device ''PinLength'' (- 6) = Some st \<and> snd (GetInt st example_device ''PinLength'') = Some (- 6)"
proof -
  have "SetInt (no_keystore, empty_cache) example_device ''PinLength'' (- 6) \<noteq> None"
    unfolding SetInt_def by (rule SetProperty_defined) simp_all
  then obtain st where s: "SetInt (no_keystore, empty_cache) example_device ''PinLength'' (- 6) = Some st" by blast
  have r: "reachable (fst (no_keystore, empty_cache)) (snd (no_keystore, empty_cache))" by (simp add: example_reachable(1))
  show ?thesis
    using typed_round_trips [OF r, of example_device "''PinLength''" _ _ _ _ _ _ _ _ "- 6" st] s by simp
qed

section \<open>The configuration file\<close>

text \<open>C7: reading the file that was written for a cache gives a cache that compares equal to it without its temporary devices:
  the sections and their properties in the same order. The format holds names and values that survive the trimming of the
  parser, and the key store must not take part.\<close>

theorem config_file_round_trip:
  assumes "reachable env0 c" "all_writable c" "persistent_property_names c = kLinkKeyProperties" "plain env" "n \<noteq> 0"
  shows "\<exists>c2. Read env (Some (SerializeToLegacyFormat c)) n = Some (env, Some c2) \<and>
    config_cache_eq c2 (c\<lparr>temporary_devices := \<lparr>lru_capacity = n, list_map = lm_empty\<rparr>\<rparr>)"
  using Read_Serialize [OF reachable_wf [OF assms(1)] assms(2-5)] by blast

lemma paired_cache_writable: "all_writable paired_cache" "persistent_property_names paired_cache = kLinkKeyProperties"
proof -
  show "all_writable paired_cache" by code_simp
  show "persistent_property_names paired_cache = kLinkKeyProperties" by code_simp
qed

theorem config_file_round_trip_witness:
  "\<exists>c2. Read no_keystore (Some (SerializeToLegacyFormat paired_cache)) 3 = Some (no_keystore, Some c2) \<and>
    config_cache_eq c2 (paired_cache\<lparr>temporary_devices := \<lparr>lru_capacity = 3, list_map = lm_empty\<rparr>\<rparr>)"
  by (rule config_file_round_trip [OF example_reachable(3) paired_cache_writable]) (simp_all add: no_keystore_def)

section \<open>The storage module\<close>

text \<open>C6: no change of the configuration is forgotten. In every state a module reaches from its construction, if no save is
  queued on the handler and none is pending on the alarm, then the file holds exactly the configuration, or both the file
  and the configuration are still those the module started with.\<close>

theorem no_lost_update:
  assumes "files_ok os" "new_StorageModule os env fs path delay n fr cmp now = Some (sm0, fr')"
    and "(sm_step os)\<^sup>*\<^sup>* sm0 sm" "quiet sm"
  shows "file_contents os sm = Some (lines_of sm) \<or>
    quiet sm0 \<and> file_contents os sm = file_contents os sm0 \<and> lines_of sm = lines_of sm0"
  using sm_runs_inv [OF assms(3,1) new_StorageModule_wf [OF assms(2)]] assms(4) by (simp add: sm_saved_def)

definition example_module :: "(string \<rightharpoonup> string) storage_module" where
  "example_module = fst (the (new_StorageModule map_files no_keystore Map.empty ''conf'' 3000 2 ''false'' 3 ''now''))"

lemma example_module_new:
  "\<exists>fr'. new_StorageModule map_files no_keystore Map.empty ''conf'' 3000 2 ''false'' 3 ''now'' = Some (example_module, fr')"
proof -
  have "new_StorageModule map_files no_keystore Map.empty ''conf'' 3000 2 ''false'' 3 ''now'' \<noteq> None" by code_simp
  then show ?thesis by (auto simp: example_module_def)
qed

lemma example_module_wf: "sm_wf example_module"
  using example_module_new by (elim exE) (rule new_StorageModule_wf)

lemma example_module_pending: "has_pending_config_save example_module" "config_save_alarm example_module"
proof -
  show "has_pending_config_save example_module" by code_simp
  show "config_save_alarm example_module" by code_simp
qed

definition saved_module :: "(string \<rightharpoonup> string) storage_module" where
  "saved_module = the (alarm_fires map_files example_module)"

lemma saved_module_eq: "alarm_fires map_files example_module = Some saved_module" "quiet saved_module"
proof -
  have "SaveImmediately map_files (example_module\<lparr>config_save_alarm := False\<rparr>) \<noteq> None"
    by (rule SaveImmediately_ok) (simp add: map_files_def)
  then show "alarm_fires map_files example_module = Some saved_module"
    by (auto simp: saved_module_def alarm_fires_def example_module_pending)
  show "quiet saved_module" by code_simp
qed

lemma saved_module_wf: "sm_wf saved_module"
  using sm_runs_inv [OF r_into_rtranclp [where r = "sm_step map_files", OF sm_step.alarm [OF saved_module_eq(1)]] map_files_ok example_module_wf] by simp

theorem no_lost_update_witness:
  "alarm_fires map_files example_module = Some saved_module \<and> quiet saved_module \<and>
   file_contents map_files saved_module = Some (lines_of saved_module)"
proof -
  obtain fr' where n: "new_StorageModule map_files no_keystore Map.empty ''conf'' 3000 2 ''false'' 3 ''now'' = Some (example_module, fr')"
    using example_module_new by blast
  have "\<not> quiet example_module" by (simp add: quiet_def example_module_pending)
  then show ?thesis
    using no_lost_update [OF map_files_ok n r_into_rtranclp [where r = "sm_step map_files", OF sm_step.alarm [OF saved_module_eq(1)]] saved_module_eq(2)] saved_module_eq by simp
qed

text \<open>C15: a module with a save queued or pending gets its configuration to disk: once the handler has run the posted calls and the
  alarm has gone off, and provided the write succeeds, the file holds the configuration and nothing is left to do.\<close>

theorem pending_save_reaches_file:
  assumes "files_ok os" "new_StorageModule os env fs path delay n fr cmp now = Some (sm0, fr')"
    and "(sm_step os)\<^sup>*\<^sup>* sm0 sm" "\<not> quiet sm"
    and "fst (WriteToFile os (sm_fs sm) (config_file_path sm) (lines_of sm))"
  shows "\<exists>sm'. flush os sm = Some sm' \<and> quiet sm' \<and> cache sm' = cache sm \<and> file_contents os sm' = Some (lines_of sm)"
  using flush_saves [OF assms(1) _ assms(4,5)] sm_runs_inv [OF assms(3,1) new_StorageModule_wf [OF assms(2)]] by blast

theorem pending_save_reaches_file_witness:
  "\<exists>sm'. flush map_files example_module = Some sm' \<and> quiet sm' \<and> file_contents map_files sm' = Some (lines_of example_module)"
proof -
  obtain fr' where n: "new_StorageModule map_files no_keystore Map.empty ''conf'' 3000 2 ''false'' 3 ''now'' = Some (example_module, fr')"
    using example_module_new by blast
  have "\<not> quiet example_module" by (simp add: quiet_def example_module_pending)
  then show ?thesis
    using pending_save_reaches_file [OF map_files_ok n rtranclp.rtrancl_refl] by (auto simp: map_files_def)
qed

text \<open>C17: the configuration survives a restart. When the module is destroyed with a save pending, or with its file up to date, the
  next start loads the sections, persistent devices and properties it had.\<close>

theorem restart_keeps_configuration:
  assumes "files_ok os" "sm_wf sm" "delete_StorageModule os sm = Some (env', fs')"
    and "has_pending_config_save sm \<or> file_contents os sm = Some (lines_of sm)"
    and "all_writable (cache sm)" "persistent_property_names (cache sm) = kLinkKeyProperties" "plain env" "n \<noteq> 0"
    and "kAdapterSection \<in> fst ` set (nodes (information_sections (cache sm)))"
  shows "\<exists>c2. load_config env (ReadFile os fs' (config_file_path sm)) n now = Some (env, c2, False) \<and>
    config_cache_eq c2 ((cache sm)\<lparr>temporary_devices := \<lparr>lru_capacity = n, list_map = lm_empty\<rparr>\<rparr>)"
  unfolding shutdown_saves [OF assms(1-4)]
  using assms(2) by (intro load_saved assms(5-9)) (simp add: sm_wf_def)

definition named_module :: "(string \<rightharpoonup> string) storage_module \<Rightarrow> (string \<rightharpoonup> string) storage_module" where
  "named_module sm = the (sm_SetProperty sm ''Adapter'' ''Name'' ''phone'')"

lemma named_module_eq: "sm_SetProperty sm ''Adapter'' ''Name'' ''phone'' = Some (named_module sm)"
  using SetProperty_defined [of "''Adapter''" "''Name''" "sm_env sm" "cache sm" "''phone''"]
  by (auto simp: named_module_def sm_SetProperty_def)

theorem restart_keeps_configuration_witness:
  "\<exists>env' fs' c2. delete_StorageModule map_files (named_module example_module) = Some (env', fs') \<and>
    load_config no_keystore (ReadFile map_files fs' (config_file_path (named_module example_module))) 2 ''later'' = Some (no_keystore, c2, False)"
proof -
  let ?sm = "named_module example_module"
  have w: "sm_wf ?sm"
    using sm_runs_inv [OF r_into_rtranclp [where r = "sm_step map_files", OF sm_step.set_property [OF named_module_eq]] map_files_ok example_module_wf] by simp
  have p: "has_pending_config_save ?sm" by code_simp
  have "SaveImmediately map_files ?sm \<noteq> None" by (rule SaveImmediately_ok) (simp add: map_files_def)
  then obtain env' fs' where d: "delete_StorageModule map_files ?sm = Some (env', fs')"
    using p by (auto simp: delete_StorageModule_def)
  have a: "all_writable (cache ?sm)" by code_simp
  have k: "persistent_property_names (cache ?sm) = kLinkKeyProperties" by code_simp
  have i: "kAdapterSection \<in> fst ` set (nodes (information_sections (cache ?sm)))" by code_simp
  have "plain no_keystore" "(2 :: nat) \<noteq> 0" by (simp_all add: no_keystore_def)
  from restart_keeps_configuration [OF map_files_ok w d disjI1 [OF p] a k this i] d show ?thesis by blast
qed

text \<open>C37: the destructor saves what is pending on the alarm, but not what is still queued on the handler: a property set when no save
  was pending is not in the file after the module is destroyed before the handler has run.\<close>

theorem destructor_drops_queued_save:
  assumes "sm_wf sm" "quiet sm" "file_contents os sm = Some (lines_of sm)" "sm_SetProperty sm s p v = Some sm'"
    and "lines_of sm' \<noteq> lines_of sm"
  shows "0 < queued_saves sm' \<and>
    (\<exists>env'. delete_StorageModule os sm' = Some (env', sm_fs sm)) \<and> ReadFile os (sm_fs sm) (config_file_path sm') \<noteq> Some (lines_of sm')"
proof -
  have w: "config_wf (cache sm)" using assms(1) by (simp add: sm_wf_def)
  obtain env' c' where c: "SetProperty (sm_env sm) (cache sm) s p v = Some (env', c')" "sm' = sm\<lparr>sm_env := env', cache := c'\<rparr>"
    using assms(4) by (auto simp: sm_SetProperty_def with_cache_def)
  have "notified (cache sm) < notified c'"
    using SetProperty_tracks [OF w c(1)] assms(1,5) c(2) by (auto simp: tracks_def sm_wf_def le_less)
  then show ?thesis using assms(1-3,5) c(2)
    by (auto simp: queued_saves_def sm_wf_def quiet_def delete_StorageModule_def)
qed

theorem destructor_drops_queued_save_witness:
  "\<exists>env'. delete_StorageModule map_files (named_module saved_module) = Some (env', sm_fs saved_module) \<and>
    ReadFile map_files (sm_fs saved_module) (config_file_path (named_module saved_module)) \<noteq> Some (lines_of (named_module saved_module))"
proof -
  have f: "file_contents map_files saved_module = Some (lines_of saved_module)" by code_simp
  have l: "lines_of (named_module saved_module) \<noteq> lines_of saved_module" by code_simp
  show ?thesis
    using destructor_drops_queued_save [OF saved_module_wf saved_module_eq(2) f named_module_eq l] by blast
qed

end
