(* ===== verification/Acl_Scheduler.thy ===== *)
theory Acl_Scheduler
  imports Address
begin

text \<open>
  \<open>AclScheduler\<close> of \<open>gd/hci/acl_manager/acl_scheduler.cc\<close>: the queue of outgoing connections and remote name
  requests, the operation in progress and the set of incoming connections. Every method of \<open>impl\<close> is a function on
  the state; the methods of the outer class only post them on the handler. A queued operation carries a number that
  stands for its callbacks, and the state records the callbacks that were run, in order.
\<close>

section \<open>State\<close>

datatype QueueEntry =
    AclCreateConnectionQueueEntry (entry_address: hci_address) (entry_id: nat)
  | RemoteNameRequestQueueEntry (entry_address: hci_address) (entry_id: nat)

datatype acl_callback =
    Started nat
  | HandleOutgoing
  | HandleIncoming
  | HandleUnknown string
  | CancelOutgoing
  | CancelledQueued nat

record acl_scheduler =
  outgoing_entry :: "QueueEntry option"
  pending_outgoing_operations :: "QueueEntry list"
  incoming_connecting_address_set :: "hci_address list"
  stopped :: bool
  performed :: "acl_callback list"

definition new_AclScheduler :: acl_scheduler where
  "new_AclScheduler = \<lparr>outgoing_entry = None, pending_outgoing_operations = [], incoming_connecting_address_set = [],
     stopped = False, performed = []\<rparr>"

definition perform :: "acl_scheduler \<Rightarrow> acl_callback \<Rightarrow> acl_scheduler" where
  "perform s cb = s\<lparr>performed := performed s @ [cb]\<rparr>"

section \<open>Operations\<close>

fun is_acl_connection :: "QueueEntry \<Rightarrow> bool" where
  "is_acl_connection (AclCreateConnectionQueueEntry a i) = True"
| "is_acl_connection (RemoteNameRequestQueueEntry a i) = False"

definition ready_to_send_next_operation :: "acl_scheduler \<Rightarrow> bool" where
  "ready_to_send_next_operation s =
     (if stopped s then False
      else case pending_outgoing_operations s of
             [] \<Rightarrow> False
           | peek # ps \<Rightarrow>
               if \<not> is_acl_connection peek \<and> entry_address peek \<in> set (incoming_connecting_address_set s) then True
               else incoming_connecting_address_set s = [] \<and> outgoing_entry s = None)"

definition try_dequeue_next_operation :: "acl_scheduler \<Rightarrow> acl_scheduler" where
  "try_dequeue_next_operation s =
     (if ready_to_send_next_operation s
      then let entry = hd (pending_outgoing_operations s);
               s = s\<lparr>pending_outgoing_operations := tl (pending_outgoing_operations s)\<rparr>;
               s = perform s (Started (entry_id entry))
           in s\<lparr>outgoing_entry := Some entry\<rparr>
      else s)"

definition EnqueueOutgoingAclConnection :: "hci_address \<Rightarrow> nat \<Rightarrow> acl_scheduler \<Rightarrow> acl_scheduler" where
  "EnqueueOutgoingAclConnection address start_connection s =
     try_dequeue_next_operation
       (s\<lparr>pending_outgoing_operations := pending_outgoing_operations s @ [AclCreateConnectionQueueEntry address start_connection]\<rparr>)"

definition RegisterPendingIncomingConnection :: "hci_address \<Rightarrow> acl_scheduler \<Rightarrow> acl_scheduler" where
  "RegisterPendingIncomingConnection address s =
     s\<lparr>incoming_connecting_address_set := List.insert address (incoming_connecting_address_set s)\<rparr>"

text \<open>The order in which the addresses are listed is that of an unordered set.\<close>

definition set_of_incoming_connecting_addresses :: "acl_scheduler \<Rightarrow> string" where
  "set_of_incoming_connecting_addresses s =
     concat (map (\<lambda>c. '' '' @ address_ToRedactedStringForLogging c) (incoming_connecting_address_set s))"

definition erase_incoming :: "hci_address \<Rightarrow> acl_scheduler \<Rightarrow> acl_scheduler" where
  "erase_incoming address s =
     s\<lparr>incoming_connecting_address_set := remove1 address (incoming_connecting_address_set s)\<rparr>"

text \<open>\<open>fix_in_and_out\<close> is the flag \<open>acl_fix_in_and_out_connection_reqs\<close>.\<close>

definition ReportAclConnectionCompletion :: "bool \<Rightarrow> hci_address \<Rightarrow> acl_scheduler \<Rightarrow> acl_scheduler" where
  "ReportAclConnectionCompletion fix_in_and_out address s =
     (if (case outgoing_entry s of Some entry \<Rightarrow> is_acl_connection entry \<and> entry_address entry = address | None \<Rightarrow> False)
      then let s = perform (s\<lparr>outgoing_entry := None\<rparr>) HandleOutgoing;
               s = (if fix_in_and_out \<and> address \<in> set (incoming_connecting_address_set s) then erase_incoming address s else s)
           in try_dequeue_next_operation s
      else let s = (if address \<in> set (incoming_connecting_address_set s)
                    then perform (erase_incoming address s) HandleIncoming
                    else perform s (HandleUnknown (set_of_incoming_connecting_addresses s)))
           in try_dequeue_next_operation s)"

definition ReportOutgoingAclConnectionFailure :: "acl_scheduler \<Rightarrow> acl_scheduler" where
  "ReportOutgoingAclConnectionFailure s =
     (case outgoing_entry s of
        None \<Rightarrow> s
      | Some entry \<Rightarrow>
          if \<not> is_acl_connection entry then s
          else try_dequeue_next_operation (s\<lparr>outgoing_entry := None\<rparr>))"

text \<open>Cancellation: of the operation in progress, or of the first queued one that matches. Whether there was one is
  returned.\<close>

definition cancel_outgoing_or_queued_connection :: "(QueueEntry \<Rightarrow> bool) \<Rightarrow> acl_scheduler \<Rightarrow> acl_scheduler \<times> bool" where
  "cancel_outgoing_or_queued_connection matcher s =
     (if (case outgoing_entry s of Some entry \<Rightarrow> matcher entry | None \<Rightarrow> False)
      then (perform s CancelOutgoing, True)
      else case find matcher (pending_outgoing_operations s) of
             None \<Rightarrow> (s, False)
           | Some it \<Rightarrow>
               let s = perform s (CancelledQueued (entry_id it))
               in (s\<lparr>pending_outgoing_operations := remove1 it (pending_outgoing_operations s)\<rparr>, True))"

definition CancelAclConnection :: "hci_address \<Rightarrow> acl_scheduler \<Rightarrow> acl_scheduler" where
  "CancelAclConnection address s =
     fst (cancel_outgoing_or_queued_connection (\<lambda>entry. is_acl_connection entry \<and> entry_address entry = address) s)"

definition EnqueueRemoteNameRequest :: "hci_address \<Rightarrow> nat \<Rightarrow> acl_scheduler \<Rightarrow> acl_scheduler" where
  "EnqueueRemoteNameRequest address start_request s =
     try_dequeue_next_operation
       (s\<lparr>pending_outgoing_operations := pending_outgoing_operations s @ [RemoteNameRequestQueueEntry address start_request]\<rparr>)"

definition ReportRemoteNameRequestCompletion :: "acl_scheduler \<Rightarrow> acl_scheduler" where
  "ReportRemoteNameRequestCompletion s =
     (case outgoing_entry s of
        None \<Rightarrow> s
      | Some entry \<Rightarrow> try_dequeue_next_operation (s\<lparr>outgoing_entry := None\<rparr>))"

definition CancelRemoteNameRequest :: "hci_address \<Rightarrow> acl_scheduler \<Rightarrow> acl_scheduler" where
  "CancelRemoteNameRequest address s =
     fst (cancel_outgoing_or_queued_connection (\<lambda>entry. \<not> is_acl_connection entry \<and> entry_address entry = address) s)"

definition Stop :: "acl_scheduler \<Rightarrow> acl_scheduler" where
  "Stop s = s\<lparr>stopped := True\<rparr>"

section \<open>Sequences of calls\<close>

datatype acl_call =
    EnqueueConnection hci_address nat
  | RegisterIncoming hci_address
  | ConnectionCompletion hci_address
  | ConnectionFailure
  | CancelConnection hci_address
  | EnqueueRequest hci_address nat
  | RequestCompletion hci_address
  | CancelRequest hci_address
  | StopScheduler

fun run_call :: "bool \<Rightarrow> acl_scheduler \<Rightarrow> acl_call \<Rightarrow> acl_scheduler" where
  "run_call fix_io s (EnqueueConnection a i) = EnqueueOutgoingAclConnection a i s"
| "run_call fix_io s (RegisterIncoming a) = RegisterPendingIncomingConnection a s"
| "run_call fix_io s (ConnectionCompletion a) = ReportAclConnectionCompletion fix_io a s"
| "run_call fix_io s ConnectionFailure = ReportOutgoingAclConnectionFailure s"
| "run_call fix_io s (CancelConnection a) = CancelAclConnection a s"
| "run_call fix_io s (EnqueueRequest a i) = EnqueueRemoteNameRequest a i s"
| "run_call fix_io s (RequestCompletion a) = ReportRemoteNameRequestCompletion s"
| "run_call fix_io s (CancelRequest a) = CancelRemoteNameRequest a s"
| "run_call fix_io s StopScheduler = Stop s"

abbreviation acl_calls :: "bool \<Rightarrow> acl_call list \<Rightarrow> acl_scheduler" where
  "acl_calls fix_io cs \<equiv> foldl (run_call fix_io) new_AclScheduler cs"

fun enqueued_ids :: "acl_call list \<Rightarrow> nat list" where
  "enqueued_ids [] = []"
| "enqueued_ids (EnqueueConnection a i # cs) = i # enqueued_ids cs"
| "enqueued_ids (EnqueueRequest a i # cs) = i # enqueued_ids cs"
| "enqueued_ids (_ # cs) = enqueued_ids cs"

definition started_ids :: "acl_scheduler \<Rightarrow> nat list" where
  "started_ids s = List.map_filter (\<lambda>cb. case cb of Started i \<Rightarrow> Some i | _ \<Rightarrow> None) (performed s)"

definition cancelled_ids :: "acl_scheduler \<Rightarrow> nat list" where
  "cancelled_ids s = List.map_filter (\<lambda>cb. case cb of CancelledQueued i \<Rightarrow> Some i | _ \<Rightarrow> None) (performed s)"

section \<open>The queue is served in order\<close>

abbreviation pending_ids :: "acl_scheduler \<Rightarrow> nat list" where
  "pending_ids s \<equiv> map entry_id (pending_outgoing_operations s)"

text \<open>What was started and what is still queued, in the order of the queue.\<close>

abbreviation served_ids :: "acl_scheduler \<Rightarrow> nat list" where
  "served_ids s \<equiv> started_ids s @ pending_ids s"

lemma ids_perform [simp]:
  "started_ids (perform s cb) = started_ids s @ (case cb of Started i \<Rightarrow> [i] | _ \<Rightarrow> [])"
  "cancelled_ids (perform s cb) = cancelled_ids s @ (case cb of CancelledQueued i \<Rightarrow> [i] | _ \<Rightarrow> [])"
  "pending_outgoing_operations (perform s cb) = pending_outgoing_operations s"
  by (simp_all add: started_ids_def cancelled_ids_def perform_def map_filter_def split: acl_callback.split)

lemma ids_update [simp]:
  "started_ids (s\<lparr>outgoing_entry := e\<rparr>) = started_ids s" "cancelled_ids (s\<lparr>outgoing_entry := e\<rparr>) = cancelled_ids s"
  "started_ids (s\<lparr>pending_outgoing_operations := p\<rparr>) = started_ids s" "cancelled_ids (s\<lparr>pending_outgoing_operations := p\<rparr>) = cancelled_ids s"
  "started_ids (s\<lparr>incoming_connecting_address_set := a\<rparr>) = started_ids s"
  "cancelled_ids (s\<lparr>incoming_connecting_address_set := a\<rparr>) = cancelled_ids s"
  "started_ids (s\<lparr>stopped := b\<rparr>) = started_ids s" "cancelled_ids (s\<lparr>stopped := b\<rparr>) = cancelled_ids s"
  by (simp_all add: started_ids_def cancelled_ids_def)

lemma try_dequeue_ids [simp]:
  "served_ids (try_dequeue_next_operation s) = served_ids s"
  "cancelled_ids (try_dequeue_next_operation s) = cancelled_ids s"
  by (cases "pending_outgoing_operations s"; simp add: try_dequeue_next_operation_def ready_to_send_next_operation_def Let_def)+

lemma cancel_ids:
  assumes "distinct (served_ids s)" "s' = fst (cancel_outgoing_or_queued_connection matcher s)"
  shows "\<exists>is. cancelled_ids s' = cancelled_ids s @ is \<and> set is \<subseteq> set (served_ids s) \<and> served_ids s' = filter (\<lambda>i. i \<notin> set is) (served_ids s)"
proof -
  let ?out = "case outgoing_entry s of Some entry \<Rightarrow> matcher entry | None \<Rightarrow> False"
  show ?thesis
  proof (cases "?out \<or> find matcher (pending_outgoing_operations s) = None")
    case True
    then have "cancelled_ids s' = cancelled_ids s \<and> served_ids s' = served_ids s"
      using assms(2) by (auto simp: cancel_outgoing_or_queued_connection_def)
    then show ?thesis by (intro exI [of _ "[]"]) simp
  next
    case False
    then obtain it where it: "find matcher (pending_outgoing_operations s) = Some it" "\<not> ?out" by blast
    then have i: "it \<in> set (pending_outgoing_operations s)" by (auto simp: find_Some_iff)
    have s': "cancelled_ids s' = cancelled_ids s @ [entry_id it]" "started_ids s' = started_ids s"
        "pending_outgoing_operations s' = remove1 it (pending_outgoing_operations s)"
      using it assms(2) by (simp_all add: cancel_outgoing_or_queued_connection_def)
    have d: "distinct (pending_ids s)" "entry_id it \<notin> set (started_ids s)" using assms(1) i by auto
    have "map entry_id (remove1 it ps) = filter (\<lambda>i. i \<noteq> entry_id it) (map entry_id ps)" if "distinct (map entry_id ps)" "it \<in> set ps" for ps
      using that
    proof (induction ps)
      case (Cons p ps)
      show ?case
      proof (cases "p = it")
        case True
        then have "filter (\<lambda>i. i \<noteq> entry_id it) (map entry_id ps) = map entry_id ps" using Cons.prems(1) by (intro filter_True) (metis distinct.simps(2) list.simps(9))
        then show ?thesis using True by simp
      next
        case False
        then show ?thesis using Cons by auto
      qed
    qed simp
    then have "pending_ids s' = filter (\<lambda>i. i \<noteq> entry_id it) (pending_ids s)" using d(1) i s'(3) by simp
    moreover have "filter (\<lambda>i. i \<noteq> entry_id it) (started_ids s) = started_ids s" using d(2) by (auto simp: filter_id_conv)
    ultimately have "served_ids s' = filter (\<lambda>i. i \<notin> set [entry_id it]) (served_ids s)" using s'(2) by simp
    then show ?thesis using s'(1) i by (intro exI [of _ "[entry_id it]"]) auto
  qed
qed

text \<open>One call: the operations it enqueues go to the end, those it cancels leave their place.\<close>

lemma acl_call_ids:
  assumes "distinct (served_ids s @ enqueued_ids [c])"
  shows "\<exists>is. cancelled_ids (run_call fix_io s c) = cancelled_ids s @ is \<and> set is \<subseteq> set (served_ids s) \<and>
    served_ids (run_call fix_io s c) = filter (\<lambda>i. i \<notin> set is) (served_ids s) @ enqueued_ids [c]"
proof -
  have none: "cancelled_ids (run_call fix_io s c) = cancelled_ids s \<Longrightarrow> served_ids (run_call fix_io s c) = served_ids s @ enqueued_ids [c] \<Longrightarrow> ?thesis"
    by (intro exI [of _ "[]"]) simp
  show ?thesis
  proof (cases c)
    case (CancelConnection a)
    then show ?thesis using cancel_ids [of s _ _, OF _ refl] assms by (simp add: CancelAclConnection_def)
  next
    case (CancelRequest a)
    then show ?thesis using cancel_ids [of s _ _, OF _ refl] assms by (simp add: CancelRemoteNameRequest_def)
  next
    case (ConnectionCompletion a)
    show ?thesis
      by (rule none) (simp_all add: ConnectionCompletion ReportAclConnectionCompletion_def erase_incoming_def Let_def split: option.split)
  qed (rule none; simp add: EnqueueOutgoingAclConnection_def RegisterPendingIncomingConnection_def ReportOutgoingAclConnectionFailure_def
      EnqueueRemoteNameRequest_def ReportRemoteNameRequestCompletion_def Stop_def split: option.split)+
qed

lemma acl_calls_ids:
  assumes "distinct (enqueued_ids cs)"
  shows "filter (\<lambda>i. i \<notin> set (cancelled_ids (acl_calls fix_io cs))) (enqueued_ids cs) = served_ids (acl_calls fix_io cs) \<and>
    set (cancelled_ids (acl_calls fix_io cs)) \<subseteq> set (enqueued_ids cs)"
  using assms
proof (induction cs rule: rev_induct)
  case Nil
  then show ?case by (simp add: new_AclScheduler_def started_ids_def cancelled_ids_def map_filter_def)
next
  case (snoc c cs)
  let ?s = "acl_calls fix_io cs"
  have app: "enqueued_ids (xs @ [c]) = enqueued_ids xs @ enqueued_ids [c]" for xs
    by (induction xs rule: enqueued_ids.induct) auto
  have d: "distinct (enqueued_ids cs)" "set (enqueued_ids cs) \<inter> set (enqueued_ids [c]) = {}" "distinct (enqueued_ids [c])"
    using snoc.prems unfolding app by auto
  note IH = snoc.IH [OF d(1)]
  have sub: "set (served_ids ?s) \<subseteq> set (enqueued_ids cs)" unfolding conjunct1 [OF IH, symmetric] by (rule filter_is_subset)
  have "distinct (served_ids ?s)" unfolding conjunct1 [OF IH, symmetric] by (rule distinct_filter [OF d(1)])
  then have "distinct (served_ids ?s @ enqueued_ids [c])"
    using d(2,3) sub unfolding distinct_append [of "served_ids ?s"] by blast
  from acl_call_ids [OF this, of fix_io] obtain "is" where i: "cancelled_ids (acl_calls fix_io (cs @ [c])) = cancelled_ids ?s @ is"
      "set is \<subseteq> set (served_ids ?s)" "served_ids (acl_calls fix_io (cs @ [c])) = filter (\<lambda>i. i \<notin> set is) (served_ids ?s) @ enqueued_ids [c]"
    by auto
  have "filter (\<lambda>i. i \<notin> set (cancelled_ids ?s @ is)) (enqueued_ids cs) = filter (\<lambda>i. i \<notin> set is) (served_ids ?s)"
    unfolding conjunct1 [OF IH, symmetric] by (simp add: conj_commute)
  moreover have all: "set (cancelled_ids ?s @ is) \<subseteq> set (enqueued_ids cs)"
    using conjunct2 [OF IH] subset_trans [OF i(2) sub] by simp
  moreover from this have "filter (\<lambda>i. i \<notin> set (cancelled_ids ?s @ is)) (enqueued_ids [c]) = enqueued_ids [c]"
    using d(2) by (intro filter_True) blast
  ultimately show ?case unfolding app i(1) i(3) by auto
qed

section \<open>Properties\<close>

text \<open>C22: operations are served in the order they were requested, each at most once: the operations requested so far, without those
  whose cancellation was confirmed while they were queued, are exactly the ones that were started, in this order, followed
  by the ones still queued. No operation is lost and none is started twice or after its cancellation.\<close>

theorem acl_operations_in_order:
  assumes "distinct (enqueued_ids cs)"
  shows "filter (\<lambda>i. i \<notin> set (cancelled_ids (acl_calls fix_io cs))) (enqueued_ids cs) =
    started_ids (acl_calls fix_io cs) @ map entry_id (pending_outgoing_operations (acl_calls fix_io cs))"
  using acl_calls_ids [OF assms] by blast

theorem acl_operations_in_order_witness:
  "started_ids (acl_calls True [EnqueueConnection [1, 0, 0, 0, 0, 0] 1, EnqueueRequest [2, 0, 0, 0, 0, 0] 2, EnqueueConnection [3, 0, 0, 0, 0, 0] 3, CancelRequest [2, 0, 0, 0, 0, 0], ConnectionFailure]) = [1, 3]"
  using acl_operations_in_order [of "[EnqueueConnection [1, 0, 0, 0, 0, 0] 1, EnqueueRequest [2, 0, 0, 0, 0, 0] 2, EnqueueConnection [3, 0, 0, 0, 0, 0] 3, CancelRequest [2, 0, 0, 0, 0, 0], ConnectionFailure]" True]
  by (simp add: EnqueueOutgoingAclConnection_def EnqueueRemoteNameRequest_def CancelRemoteNameRequest_def ReportOutgoingAclConnectionFailure_def
      try_dequeue_next_operation_def ready_to_send_next_operation_def cancel_outgoing_or_queued_connection_def new_AclScheduler_def
      perform_def cancelled_ids_def map_filter_def Let_def)



end
