(* ===== verification/Packet.thy ===== *)
theory Packet
  imports Prelude
begin

unbundle bit_operations_syntax

text \<open>
  The packet library of \<open>gd/packet\<close>: views of shared byte vectors (\<open>view.cc\<close>), packets as lists of views
  (\<open>packet_view.cc\<close>), and the inserters that serialize a packet (\<open>bit_inserter.cc\<close>, \<open>raw_builder.cc\<close>,
  \<open>fragmenting_inserter.cc\<close>). A failed \<open>assert\<close> and a call of \<open>std::abort\<close> are \<open>None\<close>. The lemmas relate every
  operation to the bytes a packet stands for.
\<close>

section \<open>Views\<close>

record view =
  view_data :: "u8 list"
  view_begin :: nat
  view_end :: nat

definition view_of_data :: "u8 list \<Rightarrow> nat \<Rightarrow> nat \<Rightarrow> view" where
  "view_of_data data b e =
     \<lparr>view_data = data, view_begin = (if b < length data then b else length data),
      view_end = (if e < length data then e else length data)\<rparr>"

definition view_size :: "view \<Rightarrow> nat" where
  "view_size v = view_end v - view_begin v"

definition view_of_view :: "view \<Rightarrow> nat \<Rightarrow> nat \<Rightarrow> view" where
  "view_of_view v b e =
     \<lparr>view_data = view_data v, view_begin = (if b < view_size v then b else view_size v) + view_begin v,
      view_end = (if e < view_size v then e else view_size v) + view_begin v\<rparr>"

definition view_at :: "view \<Rightarrow> nat \<Rightarrow> u8 option" where
  "view_at v i = (if i + view_begin v < view_end v then Some (view_data v ! (i + view_begin v)) else None)"

section \<open>Packets\<close>

record packet_view =
  fragments :: "view list"
  pv_length :: nat

definition pv_of_fragments :: "view list \<Rightarrow> packet_view" where
  "pv_of_fragments vs = \<lparr>fragments = vs, pv_length = foldl (\<lambda>n v. n + view_size v) 0 vs\<rparr>"

definition pv_of_packet :: "u8 list \<Rightarrow> packet_view" where
  "pv_of_packet packet = \<lparr>fragments = [view_of_data packet 0 (length packet)], pv_length = length packet\<rparr>"

definition pv_size :: "packet_view \<Rightarrow> nat" where
  "pv_size p = pv_length p"

fun fragment_at :: "view list \<Rightarrow> nat \<Rightarrow> u8 option" where
  "fragment_at [] index = None"
| "fragment_at (v # vs) index = (if index < view_size v then view_at v index else fragment_at vs (index - view_size v))"

definition pv_at :: "packet_view \<Rightarrow> nat \<Rightarrow> u8 option" where
  "pv_at p index = (if index < pv_length p then fragment_at (fragments p) index else None)"

fun subview_loop :: "view list \<Rightarrow> nat \<Rightarrow> nat \<Rightarrow> view list" where
  "subview_loop [] b n = []"
| "subview_loop (v # vs) b n =
     (if view_size v \<le> b then subview_loop vs (b - view_size v) n
      else let w = view_of_view v b (b + min n (view_size v - b))
           in w # subview_loop vs 0 (n - view_size w))"

definition GetSubviewList :: "packet_view \<Rightarrow> nat \<Rightarrow> nat \<Rightarrow> view list option" where
  "GetSubviewList p b e =
     (if \<not> b \<le> e then None else if \<not> e \<le> pv_length p then None else Some (subview_loop (fragments p) b (e - b)))"

definition GetSubview :: "packet_view \<Rightarrow> nat \<Rightarrow> nat \<Rightarrow> packet_view option" where
  "GetSubview p b e = map_option pv_of_fragments (GetSubviewList p b e)"

text \<open>The search for the fragment behind which to insert: the index of the iterator. Reading behind the last fragment and
  running below zero are undefined in the code.\<close>

fun insertion_point :: "view list \<Rightarrow> nat \<Rightarrow> nat option" where
  "insertion_point vs 0 = Some 0"
| "insertion_point [] (Suc n) = None"
| "insertion_point (v # vs) (Suc n) =
     (if Suc n < view_size v then None
      else if 0 < Suc n - view_size v then map_option Suc (insertion_point vs (Suc n - view_size v))
      else Some 0)"

fun insert_fragments :: "view list \<Rightarrow> nat \<Rightarrow> view list \<Rightarrow> view list" where
  "insert_fragments vs i [] = vs"
| "insert_fragments vs i (w # ws) = insert_fragments (take (Suc i) vs @ [w] @ drop (Suc i) vs) (Suc i) ws"

definition Append :: "packet_view \<Rightarrow> packet_view \<Rightarrow> packet_view option" where
  "Append p to_add =
     (case insertion_point (fragments p) (pv_length p) of
        None \<Rightarrow> None
      | Some i \<Rightarrow>
          if \<not> i < length (fragments p) then None
          else Some \<lparr>fragments = insert_fragments (fragments p) i (fragments to_add), pv_length = pv_length p + pv_length to_add\<rparr>)"

section \<open>Inserters\<close>

record bit_inserter =
  num_saved_bits :: nat
  saved_bits :: u8
  inserted :: "u8 list"

text \<open>The bits carried over and the byte that is complete, if there is one.\<close>

definition combine_bits :: "nat \<Rightarrow> u8 \<Rightarrow> u8 \<Rightarrow> nat \<Rightarrow> nat \<times> u8 \<times> u8 option" where
  "combine_bits num_saved saved byte num_bits =
     (let total_bits = num_bits + num_saved;
          new_value = (ucast saved :: u16) OR push_bit num_saved (ucast byte);
          (total_bits, new_value, full) =
            (if 8 \<le> total_bits then (total_bits - 8, drop_bit 8 new_value, Some (ucast new_value :: u8))
             else (total_bits, new_value, None));
          mask = drop_bit (8 - total_bits) (0xff :: u8)
      in (total_bits, (ucast new_value :: u8) AND mask, full))"

definition insert_bits :: "bit_inserter \<Rightarrow> u8 \<Rightarrow> nat \<Rightarrow> bit_inserter" where
  "insert_bits it byte num_bits =
     (case combine_bits (num_saved_bits it) (saved_bits it) byte num_bits of
        (n, s, full) \<Rightarrow>
          \<lparr>num_saved_bits = n, saved_bits = s,
           inserted = inserted it @ (case full of None \<Rightarrow> [] | Some b \<Rightarrow> [b])\<rparr>)"

definition insert_byte :: "bit_inserter \<Rightarrow> u8 \<Rightarrow> bit_inserter" where
  "insert_byte it byte = insert_bits it byte 8"

record raw_builder =
  max_bytes :: nat
  payload :: "u8 list"

definition new_RawBuilder :: "nat \<Rightarrow> raw_builder" where
  "new_RawBuilder n = \<lparr>max_bytes = n, payload = []\<rparr>"

definition AddOctets_bytes :: "raw_builder \<Rightarrow> nat \<Rightarrow> u8 list \<Rightarrow> raw_builder \<times> bool" where
  "AddOctets_bytes b octets bytes =
     (if max_bytes b < length (payload b) + octets then (b, False)
      else if octets \<noteq> length bytes then (b, False)
      else (b\<lparr>payload := payload b @ bytes\<rparr>, True))"

fun octets_loop :: "nat \<Rightarrow> u64 \<Rightarrow> u8 list \<times> u64" where
  "octets_loop 0 v = ([], v)"
| "octets_loop (Suc n) v = (case octets_loop n (drop_bit 8 v) of (bs, w) \<Rightarrow> (ucast (v AND 0xff) # bs, w))"

definition AddOctets_value :: "raw_builder \<Rightarrow> nat \<Rightarrow> u64 \<Rightarrow> raw_builder \<times> bool" where
  "AddOctets_value b octets val =
     (if 8 < octets then (b, False)
      else case octets_loop octets val of
             (val_vector, v) \<Rightarrow> if v \<noteq> 0 then (b, False) else AddOctets_bytes b octets val_vector)"

definition AddOctets1 :: "raw_builder \<Rightarrow> u8 \<Rightarrow> raw_builder \<times> bool" where
  "AddOctets1 b val = AddOctets_value b 1 (ucast val)"

definition CanAddOctets :: "raw_builder \<Rightarrow> nat \<Rightarrow> bool" where
  "CanAddOctets b num_bytes \<longleftrightarrow> length (payload b) + num_bytes \<le> max_bytes b"

definition raw_Serialize :: "raw_builder \<Rightarrow> bit_inserter \<Rightarrow> bit_inserter" where
  "raw_Serialize b it = foldl insert_byte it (payload b)"

text \<open>The fragmenting inserter: the packet under construction, and the packets handed to the output iterator.\<close>

record fragmenting_inserter =
  fi_num_saved_bits :: nat
  fi_saved_bits :: u8
  fi_mtu :: nat
  curr_packet :: "raw_builder option"
  fi_output :: "raw_builder list"

definition new_FragmentingInserter :: "nat \<Rightarrow> fragmenting_inserter" where
  "new_FragmentingInserter mtu =
     \<lparr>fi_num_saved_bits = 0, fi_saved_bits = 0, fi_mtu = mtu, curr_packet = Some (new_RawBuilder mtu), fi_output = []\<rparr>"

definition fi_insert_bits :: "fragmenting_inserter \<Rightarrow> u8 \<Rightarrow> nat \<Rightarrow> fragmenting_inserter option" where
  "fi_insert_bits it byte num_bits =
     (case curr_packet it of
        None \<Rightarrow> None
      | Some packet \<Rightarrow>
          (case combine_bits (fi_num_saved_bits it) (fi_saved_bits it) byte num_bits of
             (n, s, full) \<Rightarrow>
               let it = it\<lparr>fi_num_saved_bits := n, fi_saved_bits := s\<rparr>
               in case full of
                    None \<Rightarrow> Some it
                  | Some new_byte \<Rightarrow>
                      let packet = fst (AddOctets1 packet new_byte)
                      in if fi_mtu it \<le> length (payload packet)
                         then Some (it\<lparr>fi_output := fi_output it @ [packet], curr_packet := Some (new_RawBuilder (fi_mtu it))\<rparr>)
                         else Some (it\<lparr>curr_packet := Some packet\<rparr>)))"

definition fi_insert_byte :: "fragmenting_inserter option \<Rightarrow> u8 \<Rightarrow> fragmenting_inserter option" where
  "fi_insert_byte it byte = Option.bind it (\<lambda>it. fi_insert_bits it byte 8)"

definition fi_finalize :: "fragmenting_inserter \<Rightarrow> fragmenting_inserter option" where
  "fi_finalize it =
     (case curr_packet it of
        None \<Rightarrow> None
      | Some packet \<Rightarrow>
          Some (it\<lparr>fi_output := fi_output it @ (if length (payload packet) \<noteq> 0 then [packet] else []), curr_packet := None\<rparr>))"

section \<open>The bytes of views and packets\<close>

definition view_bytes :: "view \<Rightarrow> u8 list" where
  "view_bytes v = take (view_end v - view_begin v) (drop (view_begin v) (view_data v))"

definition view_wf :: "view \<Rightarrow> bool" where
  "view_wf v \<longleftrightarrow> view_begin v \<le> view_end v \<and> view_end v \<le> length (view_data v)"

definition pv_bytes :: "packet_view \<Rightarrow> u8 list" where
  "pv_bytes p = concat (map view_bytes (fragments p))"

definition pv_wf :: "packet_view \<Rightarrow> bool" where
  "pv_wf p \<longleftrightarrow> list_all view_wf (fragments p) \<and> pv_length p = length (pv_bytes p)"

lemma view_size_bytes:
  "view_wf v \<Longrightarrow> length (view_bytes v) = view_size v"
  by (auto simp: view_wf_def view_bytes_def view_size_def)

lemma view_of_data_wf:
  "b \<le> e \<Longrightarrow> view_wf (view_of_data data b e)"
  by (simp add: view_wf_def view_of_data_def)

lemma view_of_data_bytes:
  "view_bytes (view_of_data data b e) = take (e - b) (drop b data)"
  by (simp add: view_bytes_def view_of_data_def)

lemma view_of_view_wf:
  "view_wf v \<Longrightarrow> b \<le> e \<Longrightarrow> view_wf (view_of_view v b e)"
  by (auto simp: view_wf_def view_of_view_def view_size_def)

lemma view_of_view_bytes:
  assumes "view_wf v" "b \<le> e"
  shows "view_bytes (view_of_view v b e) = take (e - b) (drop b (view_bytes v))"
proof -
  have "view_end v - (b + view_begin v) = e - b" if "\<not> e < view_size v" "e - b \<le> view_end v - (b + view_begin v)"
    using that assms by (auto simp: view_size_def view_wf_def)
  then show ?thesis using assms
    by (auto simp: view_bytes_def view_of_view_def view_size_def view_wf_def drop_take min_def add.commute)
qed

lemma view_at_bytes:
  assumes "view_wf v"
  shows "view_at v i = (if i < view_size v then Some (view_bytes v ! i) else None)"
  using assms by (auto simp: view_at_def view_bytes_def view_size_def view_wf_def add.commute)

lemma foldl_view_size:
  "list_all view_wf vs \<Longrightarrow> foldl (\<lambda>n v. n + view_size v) k vs = k + length (concat (map view_bytes vs))"
  by (induction vs arbitrary: k) (simp_all add: view_size_bytes)

lemma pv_of_fragments_wf:
  "list_all view_wf vs \<Longrightarrow> pv_wf (pv_of_fragments vs)"
  by (simp add: pv_wf_def pv_of_fragments_def pv_bytes_def foldl_view_size)

lemma pv_of_fragments_bytes:
  "pv_bytes (pv_of_fragments vs) = concat (map view_bytes vs)"
  by (simp add: pv_bytes_def pv_of_fragments_def)

lemma pv_of_packet_bytes [simp]:
  "pv_bytes (pv_of_packet packet) = packet"
  by (simp add: pv_bytes_def pv_of_packet_def view_of_data_bytes)

lemma pv_of_packet_wf [simp]:
  "pv_wf (pv_of_packet packet)"
  using pv_of_packet_bytes [of packet] by (simp add: pv_wf_def view_of_data_wf pv_of_packet_def)

lemma fragment_at_bytes:
  "list_all view_wf vs \<Longrightarrow> i < length (concat (map view_bytes vs))
   \<Longrightarrow> fragment_at vs i = Some (concat (map view_bytes vs) ! i)"
  by (induction vs arbitrary: i) (auto simp: view_at_bytes view_size_bytes nth_append)

lemma pv_at_bytes:
  assumes "pv_wf p"
  shows "pv_at p i = (if i < length (pv_bytes p) then Some (pv_bytes p ! i) else None)"
  using assms fragment_at_bytes [of "fragments p" i] by (simp add: pv_at_def pv_wf_def pv_bytes_def)

lemma subview_loop_bytes:
  assumes "list_all view_wf vs" "b + n \<le> length (concat (map view_bytes vs))"
  shows "list_all view_wf (subview_loop vs b n)
    \<and> concat (map view_bytes (subview_loop vs b n)) = take n (drop b (concat (map view_bytes vs)))"
  using assms
proof (induction vs arbitrary: b n)
  case (Cons v vs)
  have wf: "view_wf v" and len: "length (view_bytes v) = view_size v"
    using Cons.prems by (simp_all add: view_size_bytes)
  show ?case
  proof (cases "view_size v \<le> b")
    case True
    then show ?thesis using Cons.IH [of "b - view_size v" n] Cons.prems len by simp
  next
    case False
    define w where "w = view_of_view v b (b + min n (view_size v - b))"
    have bytes: "view_bytes w = take (min n (view_size v - b)) (drop b (view_bytes v))"
      using wf by (simp add: w_def view_of_view_bytes)
    have wwf: "view_wf w" using wf by (simp add: w_def view_of_view_wf)
    have size: "view_size w = min n (view_size v - b)"
      using view_size_bytes [OF wwf] bytes len by simp
    have "list_all view_wf (subview_loop vs 0 (n - view_size w))
        \<and> concat (map view_bytes (subview_loop vs 0 (n - view_size w))) = take (n - view_size w) (concat (map view_bytes vs))"
      using Cons.IH [of 0 "n - view_size w"] Cons.prems size len by simp
    moreover have "subview_loop (v # vs) b n = w # subview_loop vs 0 (n - view_size w)"
      using False by (simp add: w_def Let_def)
    ultimately show ?thesis using False wwf bytes size len by (simp add: min_def)
  qed
qed simp

lemma GetSubview_bytes:
  assumes "pv_wf p"
  shows "GetSubview p b e = None \<longleftrightarrow> \<not> (b \<le> e \<and> e \<le> length (pv_bytes p))"
    and "GetSubview p b e = Some q \<Longrightarrow> pv_wf q \<and> pv_bytes q = take (e - b) (drop b (pv_bytes p))"
  using assms subview_loop_bytes [of "fragments p" b "e - b"]
  by (auto simp: GetSubview_def GetSubviewList_def pv_wf_def [of p] pv_bytes_def [of p] pv_of_fragments_bytes
      pv_of_fragments_wf split: if_splits)

lemma insertion_point_Cons:
  "0 < k \<Longrightarrow> insertion_point (v # vs) (view_size v + k) = map_option Suc (insertion_point vs k)"
  by (cases k) simp_all

lemma insertion_point_total:
  assumes "list_all view_wf vs" "vs \<noteq> []" "n = length (concat (map view_bytes vs))"
  obtains i where "insertion_point vs n = Some i" "i < length vs" "concat (map view_bytes (drop (Suc i) vs)) = []"
  using assms
proof (induction vs arbitrary: n thesis)
  case (Cons v vs)
  have len: "length (view_bytes v) = view_size v" using Cons.prems by (simp add: view_size_bytes)
  show ?case
  proof (cases "concat (map view_bytes vs) = []")
    case True
    then have "n = view_size v" using Cons.prems len by simp
    then show ?thesis using True Cons.prems(1) [of 0] by (cases "view_size v") simp_all
  next
    case False
    then have ne: "vs \<noteq> []" by auto
    have n: "n = view_size v + length (concat (map view_bytes vs))" using Cons.prems len by simp
    have pos: "length (concat (map view_bytes vs)) > 0" using False by blast
    obtain i where i: "insertion_point vs (length (concat (map view_bytes vs))) = Some i" "i < length vs"
      "concat (map view_bytes (drop (Suc i) vs)) = []"
      using Cons.IH ne Cons.prems(2) by auto
    have "insertion_point (v # vs) n = Some (Suc i)"
      unfolding n using i(1) insertion_point_Cons [OF pos] by simp
    then show ?thesis using Cons.prems(1) [of "Suc i"] i by simp
  qed
qed simp

lemma insert_fragments_eq:
  "i < length vs \<Longrightarrow> insert_fragments vs i ws = take (Suc i) vs @ ws @ drop (Suc i) vs"
proof (induction ws arbitrary: vs i)
  case (Cons w ws)
  have "insert_fragments (take (Suc i) vs @ [w] @ drop (Suc i) vs) (Suc i) ws
      = take (Suc (Suc i)) (take (Suc i) vs @ [w] @ drop (Suc i) vs) @ ws @ drop (Suc (Suc i)) (take (Suc i) vs @ [w] @ drop (Suc i) vs)"
    using Cons.prems by (intro Cons.IH) simp
  then show ?case using Cons.prems by (simp add: min_def)
qed simp

text \<open>Appending never fails on a packet that has a fragment, and appends the bytes.\<close>

lemma Append_bytes:
  assumes "pv_wf p" "pv_wf q" "fragments p \<noteq> []"
  obtains r where "Append p q = Some r" "pv_wf r" "pv_bytes r = pv_bytes p @ pv_bytes q" "fragments r \<noteq> []"
proof -
  obtain i where i: "insertion_point (fragments p) (pv_length p) = Some i" "i < length (fragments p)"
    "concat (map view_bytes (drop (Suc i) (fragments p))) = []"
    using insertion_point_total [of "fragments p" "pv_length p"] assms by (auto simp: pv_wf_def pv_bytes_def)
  define r where "r = \<lparr>fragments = insert_fragments (fragments p) i (fragments q), pv_length = pv_length p + pv_length q\<rparr>"
  have fr: "fragments r = take (Suc i) (fragments p) @ fragments q @ drop (Suc i) (fragments p)"
    using i(2) by (simp add: r_def insert_fragments_eq)
  have "pv_bytes p = concat (map view_bytes (take (Suc i) (fragments p) @ drop (Suc i) (fragments p)))"
    by (simp add: pv_bytes_def)
  then have "pv_bytes p = concat (map view_bytes (take (Suc i) (fragments p)))"
    unfolding map_append concat_append i(3) by simp
  then have bytes: "pv_bytes r = pv_bytes p @ pv_bytes q"
    using i(3) by (simp only: pv_bytes_def [of r] pv_bytes_def [of q] fr map_append concat_append append_Nil2)
  have "list_all view_wf (fragments r)"
    using assms(1,2) unfolding fr pv_wf_def by (auto simp: list_all_iff dest: in_set_takeD in_set_dropD)
  then have "pv_wf r" using assms bytes unfolding pv_wf_def [of r] by (simp add: r_def pv_wf_def)
  moreover have "Append p q = Some r" using i by (simp add: Append_def r_def)
  moreover have "fragments r \<noteq> []" using i(2) fr by auto
  ultimately show thesis using that bytes by blast
qed

section \<open>Whole bytes through the inserters\<close>

lemma combine_byte:
  "combine_bits 0 0 byte 8 = (0, 0, Some byte)"
proof -
  have "(ucast (ucast byte :: u16) :: u8) = byte" by (intro bit_word_eqI) (simp add: bit_simps)
  then show ?thesis by (simp add: combine_bits_def)
qed

lemma insert_bytes:
  assumes "num_saved_bits it = 0" "saved_bits it = 0"
  shows "foldl insert_byte it bs = it\<lparr>inserted := inserted it @ bs\<rparr>"
  using assms by (induction bs arbitrary: it) (simp_all add: insert_byte_def insert_bits_def combine_byte)

lemma AddOctets1_eq:
  "AddOctets1 b val = (if length (payload b) < max_bytes b then (b\<lparr>payload := payload b @ [val]\<rparr>, True) else (b, False))"
proof -
  have "drop_bit 8 (ucast val :: u64) = 0" by (intro bit_word_eqI) (auto simp: bit_simps dest: bit_imp_le_length)
  moreover have m: "(0xff :: u64) = mask 8" by (simp add: mask_eq_exp_minus_1)
  have "(ucast ((ucast val :: u64) AND 0xff) :: u8) = val"
    unfolding m by (intro bit_word_eqI) (simp add: bit_simps)
  ultimately show ?thesis by (simp add: AddOctets1_def AddOctets_value_def AddOctets_bytes_def)
qed

text \<open>What the fragmenting inserter has produced and still holds.\<close>

definition fi_inv :: "nat \<Rightarrow> u8 list \<Rightarrow> fragmenting_inserter \<Rightarrow> bool" where
  "fi_inv mtu bs it \<longleftrightarrow>
     fi_mtu it = mtu \<and> fi_num_saved_bits it = 0 \<and> fi_saved_bits it = 0
     \<and> (\<exists>p. curr_packet it = Some p \<and> max_bytes p = mtu \<and> length (payload p) < mtu
            \<and> concat (map payload (fi_output it)) @ payload p = bs)
     \<and> list_all (\<lambda>b. length (payload b) = mtu) (fi_output it)"

lemma fi_inv_new:
  "0 < mtu \<Longrightarrow> fi_inv mtu [] (new_FragmentingInserter mtu)"
  by (simp add: fi_inv_def new_FragmentingInserter_def new_RawBuilder_def)

lemma fi_inv_insert:
  assumes "fi_inv mtu bs it"
  obtains it' where "fi_insert_bits it byte 8 = Some it'" "fi_inv mtu (bs @ [byte]) it'"
proof -
  obtain p where p: "curr_packet it = Some p" "max_bytes p = mtu" "length (payload p) < mtu"
    "concat (map payload (fi_output it)) @ payload p = bs"
    using assms by (auto simp: fi_inv_def)
  have "\<exists>it'. fi_insert_bits it byte 8 = Some it' \<and> fi_inv mtu (bs @ [byte]) it'"
    using assms p
    by (auto simp: fi_insert_bits_def fi_inv_def combine_byte AddOctets1_eq new_RawBuilder_def Let_def)
  then show thesis using that by blast
qed

lemma fi_insert_byte_Some:
  "fi_insert_byte (Some it) byte = fi_insert_bits it byte 8"
  by (simp add: fi_insert_byte_def)

lemma fi_inv_inserts:
  assumes "fi_inv mtu bs it"
  obtains it' where "foldl fi_insert_byte (Some it) cs = Some it'" "fi_inv mtu (bs @ cs) it'"
  using assms
proof (induction cs arbitrary: bs it thesis)
  case (Cons c cs)
  obtain it1 where "fi_insert_bits it c 8 = Some it1" "fi_inv mtu (bs @ [c]) it1"
    using fi_inv_insert [OF Cons.prems(2)] .
  moreover obtain it2 where "foldl fi_insert_byte (Some it1) cs = Some it2" "fi_inv mtu ((bs @ [c]) @ cs) it2"
    using Cons.IH [OF _ calculation(2)] .
  ultimately show ?case using Cons.prems(1) [of it2] by (simp add: fi_insert_byte_Some)
qed simp

end
