(* ===== verification/Acl_Data.thy ===== *)
theory Acl_Data
  imports Packet
begin

text \<open>
  ACL data in \<open>gd/hci/acl_manager\<close>: the fragmenter of outgoing packets (\<open>acl_fragmenter.cc\<close>) and the assembler of incoming
  L2CAP PDUs (\<open>assembler.h\<close>). The accessors of \<open>AclView\<close> are generated code: an incoming packet is a record of what they
  return. The lemmas show that fragments have the size of the MTU and that a PDU cut in fragments is reassembled.
\<close>

section \<open>Fragmenter\<close>

text \<open>The outgoing packet is the sequence of bytes that its \<open>Serialize\<close> inserts.\<close>

definition GetFragments :: "nat \<Rightarrow> u8 list \<Rightarrow> raw_builder list option" where
  "GetFragments mtu packet =
     Option.bind (foldl fi_insert_byte (Some (new_FragmentingInserter mtu)) packet)
       (\<lambda>fragmenting_inserter. map_option fi_output (fi_finalize fragmenting_inserter))"

section \<open>Assembler\<close>

datatype PacketBoundaryFlag = FIRST_NON_AUTOMATICALLY_FLUSHABLE | CONTINUING_FRAGMENT | FIRST_AUTOMATICALLY_FLUSHABLE

datatype BroadcastFlag = POINT_TO_POINT | ACTIVE_PERIPHERAL_BROADCAST

record acl_view =
  packet_boundary_flag :: PacketBoundaryFlag
  broadcast_flag :: BroadcastFlag
  av_payload :: packet_view

definition kMaxQueuedPacketsPerConnection :: nat where
  "kMaxQueuedPacketsPerConnection = 10"

definition kL2capBasicFrameHeaderSize :: nat where
  "kL2capBasicFrameHeaderSize = 4"

record PacketViewForRecombination =
  recombined :: packet_view
  received_first :: bool

definition empty_recombination :: PacketViewForRecombination where
  "empty_recombination = \<lparr>recombined = pv_of_packet [], received_first = False\<rparr>"

definition GetL2capPduSize :: "packet_view \<Rightarrow> nat option" where
  "GetL2capPduSize pdu =
     (if pv_size pdu < 2 then Some kL2capBasicFrameHeaderSize
      else case (pv_at pdu 1, pv_at pdu 0) of
             (Some hi, Some lo) \<Rightarrow> Some (push_bit 8 (unat hi) + unat lo)
           | _ \<Rightarrow> None)"

record assembler =
  recombination_stage :: PacketViewForRecombination
  enqueue_registered :: bool
  incoming_queue :: "packet_view list"

definition new_assembler :: assembler where
  "new_assembler = \<lparr>recombination_stage = empty_recombination, enqueue_registered = False, incoming_queue = []\<rparr>"

definition on_data_ready :: "assembler \<Rightarrow> (packet_view \<times> assembler) option" where
  "on_data_ready a =
     (case incoming_queue a of
        [] \<Rightarrow> None
      | packet # rest \<Rightarrow>
          Some (packet, a\<lparr>incoming_queue := rest, enqueue_registered := enqueue_registered a \<and> rest \<noteq> []\<rparr>))"

text \<open>What follows the recombination: the check of the size and the delivery.\<close>

definition check_size :: "assembler \<Rightarrow> assembler option" where
  "check_size a =
     (case GetL2capPduSize (recombined (recombination_stage a)) of
        None \<Rightarrow> None
      | Some n \<Rightarrow>
          let expected_size = n + kL2capBasicFrameHeaderSize; stage = recombined (recombination_stage a)
          in if expected_size < pv_size stage then Some (a\<lparr>recombination_stage := empty_recombination\<rparr>)
             else if pv_size stage < expected_size then Some a
             else if kMaxQueuedPacketsPerConnection < length (incoming_queue a)
             then Some (a\<lparr>recombination_stage := empty_recombination\<rparr>)
             else Some (a\<lparr>incoming_queue := incoming_queue a @ [stage], recombination_stage := empty_recombination,
                          enqueue_registered := True\<rparr>))"

definition on_incoming_packet :: "assembler \<Rightarrow> acl_view \<Rightarrow> assembler option" where
  "on_incoming_packet a packet =
     (if broadcast_flag packet = ACTIVE_PERIPHERAL_BROADCAST then Some a
      else case packet_boundary_flag packet of
             FIRST_NON_AUTOMATICALLY_FLUSHABLE \<Rightarrow> Some a
           | CONTINUING_FRAGMENT \<Rightarrow>
               if \<not> received_first (recombination_stage a) then Some a
               else (case Append (recombined (recombination_stage a)) (av_payload packet) of
                       None \<Rightarrow> None
                     | Some p \<Rightarrow> check_size (a\<lparr>recombination_stage := (recombination_stage a)\<lparr>recombined := p\<rparr>\<rparr>))
           | FIRST_AUTOMATICALLY_FLUSHABLE \<Rightarrow>
               check_size (a\<lparr>recombination_stage := \<lparr>recombined = av_payload packet, received_first = True\<rparr>\<rparr>))"

primrec incoming_packets :: "assembler \<Rightarrow> acl_view list \<Rightarrow> assembler option" where
  "incoming_packets a [] = Some a"
| "incoming_packets a (packet # packets) = Option.bind (on_incoming_packet a packet) (\<lambda>a. incoming_packets a packets)"

section \<open>Fragments\<close>

lemma GetFragments_chunks:
  assumes "0 < mtu"
  obtains frags where "GetFragments mtu packet = Some frags" "concat (map payload frags) = packet"
    "list_all (\<lambda>f. payload f \<noteq> [] \<and> length (payload f) \<le> mtu) frags"
    "list_all (\<lambda>f. length (payload f) = mtu) (butlast frags)"
proof -
  obtain it where it: "foldl fi_insert_byte (Some (new_FragmentingInserter mtu)) packet = Some it" "fi_inv mtu packet it"
    using fi_inv_inserts [OF fi_inv_new [OF assms], of packet] by auto
  obtain p where p: "curr_packet it = Some p" "length (payload p) < mtu" "concat (map payload (fi_output it)) @ payload p = packet"
    and full: "list_all (\<lambda>f. length (payload f) = mtu) (fi_output it)"
    using it(2) by (auto simp: fi_inv_def)
  define frags where "frags = fi_output it @ (if length (payload p) \<noteq> 0 then [p] else [])"
  have "GetFragments mtu packet = Some frags" using it(1) p(1) by (simp add: GetFragments_def fi_finalize_def frags_def)
  moreover have "concat (map payload frags) = packet" using p(3) by (auto simp: frags_def)
  moreover have "list_all (\<lambda>f. payload f \<noteq> [] \<and> length (payload f) \<le> mtu) frags"
    using full p(2) assms by (auto simp: frags_def list_all_iff)
  moreover have "list_all (\<lambda>f. length (payload f) = mtu) (butlast frags)"
    using full by (auto simp: frags_def list_all_iff dest: in_set_butlastD)
  ultimately show thesis by (rule that)
qed

section \<open>Reassembly\<close>

text \<open>An L2CAP basic frame: the little-endian length of the payload, the channel, the payload.\<close>

definition l2cap_frame :: "u8 list \<Rightarrow> bool" where
  "l2cap_frame pdu \<longleftrightarrow> 4 \<le> length pdu \<and> length pdu = unat (pdu ! 0) + 256 * unat (pdu ! 1) + 4"

definition acl_packet :: "PacketBoundaryFlag \<Rightarrow> packet_view \<Rightarrow> acl_view" where
  "acl_packet flag p = \<lparr>packet_boundary_flag = flag, broadcast_flag = POINT_TO_POINT, av_payload = p\<rparr>"

fun acl_packets :: "packet_view list \<Rightarrow> acl_view list" where
  "acl_packets [] = []"
| "acl_packets (p # ps) = acl_packet FIRST_AUTOMATICALLY_FLUSHABLE p # map (acl_packet CONTINUING_FRAGMENT) ps"

lemma GetL2capPduSize_bytes:
  assumes "pv_wf p"
  shows "GetL2capPduSize p =
    Some (if length (pv_bytes p) < 2 then 4 else unat (pv_bytes p ! 0) + 256 * unat (pv_bytes p ! 1))"
proof -
  have "pv_size p = length (pv_bytes p)" using assms by (simp add: pv_size_def pv_wf_def)
  then show ?thesis
    by (simp add: GetL2capPduSize_def pv_at_bytes [OF assms] kL2capBasicFrameHeaderSize_def push_bit_eq_mult)
qed

text \<open>A proper prefix of a frame waits; the whole frame is delivered.\<close>

lemma check_size_prefix:
  assumes "pv_wf p" "l2cap_frame (pv_bytes p @ rest)" "rest \<noteq> []" "recombined (recombination_stage a) = p"
  shows "check_size a = Some a"
proof -
  have size: "pv_size p = length (pv_bytes p)" using assms(1) by (simp add: pv_size_def pv_wf_def)
  obtain c cs where "rest = c # cs" using assms(3) by (cases rest) simp_all
  then have "length (pv_bytes p) < (if length (pv_bytes p) < 2 then 4 else unat (pv_bytes p ! 0) + 256 * unat (pv_bytes p ! 1)) + 4"
    using assms(2) by (cases "pv_bytes p = []") (auto simp: l2cap_frame_def nth_append)
  then show ?thesis
    unfolding check_size_def assms(4) GetL2capPduSize_bytes [OF assms(1)] by (simp add: kL2capBasicFrameHeaderSize_def size Let_def)
qed

lemma check_size_complete:
  assumes "pv_wf p" "l2cap_frame (pv_bytes p)" "recombined (recombination_stage a) = p" "length (incoming_queue a) \<le> 10"
  shows "check_size a = Some (a\<lparr>incoming_queue := incoming_queue a @ [p], recombination_stage := empty_recombination,
                               enqueue_registered := True\<rparr>)"
proof -
  have size: "pv_size p = length (pv_bytes p)" using assms(1) by (simp add: pv_size_def pv_wf_def)
  have "unat (pv_bytes p ! 0) + 256 * unat (pv_bytes p ! Suc 0) + 4 = length (pv_bytes p)" "\<not> length (pv_bytes p) < 2"
    using assms(2) by (simp_all add: l2cap_frame_def)
  then show ?thesis using assms(4)
    unfolding check_size_def assms(3) GetL2capPduSize_bytes [OF assms(1)]
    by (simp add: kL2capBasicFrameHeaderSize_def kMaxQueuedPacketsPerConnection_def size Let_def)
qed

definition payload_ok :: "packet_view \<Rightarrow> bool" where
  "payload_ok p \<longleftrightarrow> pv_wf p \<and> pv_bytes p \<noteq> []"

lemma payload_ok_fragments:
  "payload_ok p \<Longrightarrow> fragments p \<noteq> []"
  by (auto simp: payload_ok_def pv_bytes_def)

lemma continuing_reassemble:
  assumes "list_all payload_ok ps" "pv_wf p" "fragments p \<noteq> []" "ps \<noteq> []"
    "l2cap_frame (pv_bytes p @ concat (map pv_bytes ps))"
    "recombination_stage a = \<lparr>recombined = p, received_first = True\<rparr>" "length (incoming_queue a) \<le> 10"
  shows "\<exists>q. incoming_packets a (map (acl_packet CONTINUING_FRAGMENT) ps)
       = Some (a\<lparr>incoming_queue := incoming_queue a @ [q], recombination_stage := empty_recombination, enqueue_registered := True\<rparr>)
     \<and> pv_wf q \<and> pv_bytes q = pv_bytes p @ concat (map pv_bytes ps)"
  using assms
proof (induction ps arbitrary: p a)
  case (Cons c ps)
  have c: "pv_wf c" "pv_bytes c \<noteq> []" using Cons.prems(1) by (simp_all add: payload_ok_def)
  obtain r where r: "Append p c = Some r" "pv_wf r" "pv_bytes r = pv_bytes p @ pv_bytes c" "fragments r \<noteq> []"
    using Append_bytes [OF Cons.prems(2) c(1) Cons.prems(3)] .
  define b where "b = a\<lparr>recombination_stage := \<lparr>recombined = r, received_first = True\<rparr>\<rparr>"
  have step: "on_incoming_packet a (acl_packet CONTINUING_FRAGMENT c) = check_size b"
    using r(1) Cons.prems(6) by (simp add: on_incoming_packet_def acl_packet_def b_def)
  have b: "recombined (recombination_stage b) = r" "recombination_stage b = \<lparr>recombined = r, received_first = True\<rparr>"
    "length (incoming_queue b) \<le> 10" "incoming_queue b = incoming_queue a"
    using Cons.prems(7) by (simp_all add: b_def)
  have frame: "l2cap_frame (pv_bytes r @ concat (map pv_bytes ps))" using Cons.prems(5) r(3) by simp
  show ?case
  proof (cases "ps = []")
    case True
    then have "check_size b = Some (b\<lparr>incoming_queue := incoming_queue b @ [r], recombination_stage := empty_recombination,
                               enqueue_registered := True\<rparr>)"
      using check_size_complete [OF r(2) _ b(1,3)] frame by simp
    then show ?thesis using True r step by (auto simp: b_def)
  next
    case False
    then have "concat (map pv_bytes ps) \<noteq> []" using Cons.prems(1) by (cases ps) (auto simp: payload_ok_def)
    then have wait: "check_size b = Some b" using check_size_prefix [OF r(2) frame _ b(1)] by simp
    have "list_all payload_ok ps" using Cons.prems(1) by simp
    from Cons.IH [OF this r(2,4) False frame b(2,3)] show ?thesis
      using step wait r(3) by (simp add: b_def)
  qed
qed simp

lemma reassemble:
  assumes "list_all payload_ok ps" "l2cap_frame (concat (map pv_bytes ps))" "length (incoming_queue a) \<le> 10"
  obtains q where "incoming_packets a (acl_packets ps)
       = Some (a\<lparr>incoming_queue := incoming_queue a @ [q], recombination_stage := empty_recombination, enqueue_registered := True\<rparr>)"
    "pv_wf q" "pv_bytes q = concat (map pv_bytes ps)"
proof (cases ps)
  case Nil
  then show ?thesis using assms(2) by (simp add: l2cap_frame_def)
next
  case (Cons p rest)
  define b where "b = a\<lparr>recombination_stage := \<lparr>recombined = p, received_first = True\<rparr>\<rparr>"
  have p: "pv_wf p" "fragments p \<noteq> []" using assms(1) Cons payload_ok_fragments [of p] by (simp_all add: payload_ok_def)
  have step: "on_incoming_packet a (acl_packet FIRST_AUTOMATICALLY_FLUSHABLE p) = check_size b"
    by (simp add: on_incoming_packet_def acl_packet_def b_def)
  have b: "recombined (recombination_stage b) = p" "recombination_stage b = \<lparr>recombined = p, received_first = True\<rparr>"
    "length (incoming_queue b) \<le> 10" "list_all payload_ok rest" "l2cap_frame (pv_bytes p @ concat (map pv_bytes rest))"
    using assms Cons by (simp_all add: b_def)
  show ?thesis
  proof (cases "rest = []")
    case True
    then have "check_size b = Some (b\<lparr>incoming_queue := incoming_queue b @ [p], recombination_stage := empty_recombination,
                               enqueue_registered := True\<rparr>)"
      using check_size_complete [OF p(1) _ b(1,3)] b(5) by simp
    then show ?thesis using that [of p] True Cons step p by (simp add: b_def)
  next
    case False
    then have "concat (map pv_bytes rest) \<noteq> []" using b(4) by (cases rest) (auto simp: payload_ok_def)
    then have wait: "check_size b = Some b" using check_size_prefix [OF p(1) b(5) _ b(1)] by simp
    from continuing_reassemble [OF b(4) p False b(5,2,3)] show ?thesis
      using that step wait Cons by (auto simp: b_def)
  qed
qed

section \<open>Properties\<close>

text \<open>C21: an L2CAP frame that is cut in fragments for an MTU is cut in non-empty fragments of the size of the MTU, the last one
  at most that long, and an assembler that receives them as a start packet and continuing fragments, in whatever state it is,
  delivers exactly one packet, with the bytes of the frame, unless eleven packets already wait.\<close>

theorem acl_fragments_reassemble:
  assumes "0 < mtu" "l2cap_frame pdu" "length (incoming_queue a) \<le> 10"
  shows "\<exists>frags q. GetFragments mtu pdu = Some frags
    \<and> list_all (\<lambda>f. payload f \<noteq> [] \<and> length (payload f) \<le> mtu) frags
    \<and> list_all (\<lambda>f. length (payload f) = mtu) (butlast frags)
    \<and> incoming_packets a (acl_packets (map (\<lambda>f. pv_of_packet (payload f)) frags))
      = Some (a\<lparr>incoming_queue := incoming_queue a @ [q], recombination_stage := empty_recombination, enqueue_registered := True\<rparr>)
    \<and> pv_wf q \<and> pv_bytes q = pdu"
proof -
  obtain frags where frags: "GetFragments mtu pdu = Some frags" "concat (map payload frags) = pdu"
    "list_all (\<lambda>f. payload f \<noteq> [] \<and> length (payload f) \<le> mtu) frags"
    "list_all (\<lambda>f. length (payload f) = mtu) (butlast frags)"
    using GetFragments_chunks [OF assms(1), of pdu] .
  have bytes: "concat (map pv_bytes (map (\<lambda>f. pv_of_packet (payload f)) frags)) = pdu"
    using frags(2) by (simp add: comp_def)
  have "list_all payload_ok (map (\<lambda>f. pv_of_packet (payload f)) frags)"
    using frags(3) by (auto simp: list_all_iff payload_ok_def)
  from reassemble [OF this _ assms(3), unfolded bytes, OF assms(2)] show ?thesis using frags by blast
qed

theorem acl_fragments_reassemble_witness:
  "l2cap_frame [3, 0, 64, 0, 1, 2, 3] \<and> (\<exists>frags q. GetFragments 5 [3, 0, 64, 0, 1, 2, 3] = Some frags
    \<and> incoming_packets new_assembler (acl_packets (map (\<lambda>f. pv_of_packet (payload f)) frags))
      = Some (new_assembler\<lparr>incoming_queue := [q], enqueue_registered := True\<rparr>)
    \<and> pv_bytes q = [3, 0, 64, 0, 1, 2, 3])"
proof -
  have frame: "l2cap_frame [3, 0, 64, 0, 1, 2, 3]" by (simp add: l2cap_frame_def)
  show ?thesis using acl_fragments_reassemble [of 5 "[3, 0, 64, 0, 1, 2, 3]" new_assembler] frame
    by (auto simp: new_assembler_def)
qed

text \<open>C38: the payload of a packet that has nothing behind its header is a packet with no fragment. An assembler that receives it
  as a start packet keeps it for recombination, and the next continuing fragment, whatever it holds, fails the assertion of
  \<open>PacketView::Append\<close>, where a start packet of length zero should only be waiting for its continuation.\<close>

theorem empty_start_packet_asserts:
  "\<exists>p. GetSubview (pv_of_packet header) (length header) (length header) = Some p \<and> pv_bytes p = []
     \<and> (\<exists>b. on_incoming_packet a (acl_packet FIRST_AUTOMATICALLY_FLUSHABLE p) = Some b)
     \<and> incoming_packets a [acl_packet FIRST_AUTOMATICALLY_FLUSHABLE p, acl_packet CONTINUING_FRAGMENT q] = None"
proof -
  define p where "p = \<lparr>fragments = [], pv_length = 0\<rparr>"
  have sub: "GetSubview (pv_of_packet header) (length header) (length header) = Some p"
    by (simp add: p_def GetSubview_def GetSubviewList_def pv_of_packet_def pv_of_fragments_def view_of_data_def view_size_def)
  have wf: "pv_wf p" "pv_bytes p = []" by (simp_all add: p_def pv_wf_def pv_bytes_def)
  define b where "b = a\<lparr>recombination_stage := \<lparr>recombined = p, received_first = True\<rparr>\<rparr>"
  have first: "on_incoming_packet a (acl_packet FIRST_AUTOMATICALLY_FLUSHABLE p) = Some b"
    using GetL2capPduSize_bytes [OF wf(1)] wf(2)
    by (simp add: on_incoming_packet_def acl_packet_def check_size_def b_def Let_def pv_size_def p_def)
  have "on_incoming_packet b (acl_packet CONTINUING_FRAGMENT q) = None"
    by (simp add: on_incoming_packet_def acl_packet_def b_def Append_def p_def)
  then show ?thesis using sub wf(2) first by auto
qed

end
