(* ===== verification/Round_Robin.thy ===== *)
theory Round_Robin
  imports Acl_Data
begin

text \<open>
  The scheduler of outgoing ACL data, \<open>gd/hci/acl_manager/round_robin_scheduler.cc\<close>, with the priority queue of
  \<open>gd/common/multi_priority_queue.h\<close>. Registering a callback at a queue end is the flag the code keeps for it; what the
  reactor and the handler may do then is a step relation over the callbacks. A failed assertion and undefined behaviour are
  \<open>None\<close>. Credits and packet counts are 16-bit words.
\<close>

section \<open>Priority queue\<close>

record 'a multi_priority_queue =
  queues :: "'a list list"
  next_to_dequeue :: "nat list"

definition new_MultiPriorityQueue :: "nat \<Rightarrow> 'a multi_priority_queue" where
  "new_MultiPriorityQueue num_priority_levels = \<lparr>queues = replicate num_priority_levels [], next_to_dequeue = []\<rparr>"

text \<open>The \<open>std::priority_queue\<close> of the priorities: the greatest first.\<close>

fun pq_push :: "nat \<Rightarrow> nat list \<Rightarrow> nat list" where
  "pq_push p [] = [p]"
| "pq_push p (q # qs) = (if q < p then p # q # qs else q # pq_push p qs)"

definition mpq_front :: "'a multi_priority_queue \<Rightarrow> 'a option" where
  "mpq_front q =
     (case next_to_dequeue q of
        [] \<Rightarrow> None
      | p # _ \<Rightarrow> (case queues q ! p of [] \<Rightarrow> None | t # _ \<Rightarrow> Some t))"

definition mpq_empty :: "'a multi_priority_queue \<Rightarrow> bool" where
  "mpq_empty q \<longleftrightarrow> next_to_dequeue q = []"

definition mpq_size :: "'a multi_priority_queue \<Rightarrow> nat" where
  "mpq_size q = length (next_to_dequeue q)"

definition mpq_push :: "'a \<Rightarrow> nat \<Rightarrow> 'a multi_priority_queue \<Rightarrow> 'a multi_priority_queue" where
  "mpq_push t priority q =
     \<lparr>queues = (queues q)[priority := queues q ! priority @ [t]], next_to_dequeue = pq_push priority (next_to_dequeue q)\<rparr>"

definition mpq_pop :: "'a multi_priority_queue \<Rightarrow> 'a multi_priority_queue" where
  "mpq_pop q =
     (let p = hd (next_to_dequeue q)
      in \<lparr>queues = (queues q)[p := tl (queues q ! p)], next_to_dequeue = tl (next_to_dequeue q)\<rparr>)"

section \<open>State\<close>

datatype ConnectionType = CLASSIC | LE

record outgoing_packet =
  op_bytes :: "u8 list"
  IsFlushable :: bool

record acl_builder =
  ab_handle :: u16
  ab_packet_boundary_flag :: PacketBoundaryFlag
  ab_broadcast_flag :: BroadcastFlag
  ab_payload :: "u8 list"

record acl_queue_handler =
  connection_type :: ConnectionType
  handler_queue :: "outgoing_packet list"
  dequeue_is_registered :: bool
  number_of_sent_packets :: u16
  high_priority :: bool

record packet_fragment =
  pf_connection_type :: ConnectionType
  pf_handle :: u16
  pf_priority :: nat
  pf_packet :: acl_builder

text \<open>An iterator of the \<open>std::map\<close>: default constructed, at a key, or behind the last element.\<close>

datatype map_iterator = Singular | At u16 | End

type_synonym handler_map = "(u16 \<times> acl_queue_handler) list"

record round_robin =
  acl_queue_handlers :: handler_map
  fragments_to_send :: "packet_fragment multi_priority_queue"
  max_acl_packet_credits :: u16
  acl_packet_credits :: u16
  le_max_acl_packet_credits :: u16
  le_acl_packet_credits :: u16
  hci_mtu :: nat
  le_hci_mtu :: nat
  rr_enqueue_registered :: bool
  starting_point :: map_iterator
  posted_round_robins :: nat

record controller_buffers =
  num_acl_packet_buffers :: u16
  acl_packet_length :: nat
  total_num_le_packets :: u16
  le_data_packet_length :: nat

definition new_RoundRobinScheduler :: "controller_buffers \<Rightarrow> round_robin" where
  "new_RoundRobinScheduler c =
     \<lparr>acl_queue_handlers = [], fragments_to_send = new_MultiPriorityQueue 2,
      max_acl_packet_credits = num_acl_packet_buffers c, acl_packet_credits = num_acl_packet_buffers c,
      le_max_acl_packet_credits = total_num_le_packets c, le_acl_packet_credits = total_num_le_packets c,
      hci_mtu = acl_packet_length c, le_hci_mtu = le_data_packet_length c,
      rr_enqueue_registered = False, starting_point = Singular, posted_round_robins = 0\<rparr>"

text \<open>The \<open>std::map\<close>, an association list in the order of the keys.\<close>

fun map_insert :: "u16 \<Rightarrow> acl_queue_handler \<Rightarrow> handler_map \<Rightarrow> handler_map" where
  "map_insert k v [] = [(k, v)]"
| "map_insert k v ((k', v') # m) = (if k < k' then (k, v) # (k', v') # m else (k', v') # map_insert k v m)"

definition map_modify :: "u16 \<Rightarrow> (acl_queue_handler \<Rightarrow> acl_queue_handler) \<Rightarrow> handler_map \<Rightarrow> handler_map" where
  "map_modify k f m = map (\<lambda>(k', v). (k', if k' = k then f v else v)) m"

definition map_erase :: "u16 \<Rightarrow> handler_map \<Rightarrow> handler_map" where
  "map_erase k m = filter (\<lambda>(k', v). k' \<noteq> k) m"

definition map_begin :: "handler_map \<Rightarrow> map_iterator" where
  "map_begin m = (case m of [] \<Rightarrow> End | (k, v) # _ \<Rightarrow> At k)"

fun index_of :: "u16 \<Rightarrow> handler_map \<Rightarrow> nat option" where
  "index_of k [] = None"
| "index_of k ((k', v) # m) = (if k' = k then Some 0 else map_option Suc (index_of k m))"

section \<open>Operations\<close>

definition buffer_full :: "round_robin \<Rightarrow> ConnectionType \<Rightarrow> bool" where
  "buffer_full s t \<longleftrightarrow>
     (let classic_buffer_full = acl_packet_credits s = 0 \<and> t = CLASSIC;
          le_buffer_full = le_acl_packet_credits s = 0 \<and> t = LE
      in classic_buffer_full \<or> le_buffer_full)"

definition send_next_fragment :: "round_robin \<Rightarrow> round_robin" where
  "send_next_fragment s = s\<lparr>rr_enqueue_registered := True\<rparr>"

definition register_dequeue :: "round_robin \<Rightarrow> acl_queue_handler \<Rightarrow> acl_queue_handler" where
  "register_dequeue s h =
     (if \<not> dequeue_is_registered h \<and> \<not> buffer_full s (connection_type h) then h\<lparr>dequeue_is_registered := True\<rparr> else h)"

text \<open>The loop over the handlers: \<open>count\<close> rounds from the element at index \<open>i\<close>, going on at the first behind the last.\<close>

primrec register_loop :: "round_robin \<Rightarrow> nat \<Rightarrow> nat \<Rightarrow> handler_map \<Rightarrow> handler_map" where
  "register_loop s 0 i m = m"
| "register_loop s (Suc count) i m =
     (let m' = m[i := (fst (m ! i), register_dequeue s (snd (m ! i)))];
          i' = (if Suc i = length m then 0 else Suc i)
      in register_loop s count i' m')"

definition start_round_robin :: "round_robin \<Rightarrow> round_robin option" where
  "start_round_robin s =
     (if acl_packet_credits s = 0 \<and> le_acl_packet_credits s = 0 then Some s
      else if \<not> mpq_empty (fragments_to_send s) then
        (case mpq_front (fragments_to_send s) of
           None \<Rightarrow> None
         | Some front \<Rightarrow> if buffer_full s (pf_connection_type front) then Some s else Some (send_next_fragment s))
      else if acl_queue_handlers s = [] then Some s
      else let start = (if length (acl_queue_handlers s) = 1 \<or> starting_point s = End
                        then map_begin (acl_queue_handlers s) else starting_point s)
           in case start of
                At k \<Rightarrow>
                  (case index_of k (acl_queue_handlers s) of
                     None \<Rightarrow> None
                   | Some i \<Rightarrow>
                       let m = register_loop s (length (acl_queue_handlers s)) i (acl_queue_handlers s)
                       in Some (s\<lparr>acl_queue_handlers := m, starting_point := map_begin (drop (Suc i) m)\<rparr>))
              | _ \<Rightarrow> None)"

definition Register :: "ConnectionType \<Rightarrow> u16 \<Rightarrow> outgoing_packet list \<Rightarrow> round_robin \<Rightarrow> round_robin option" where
  "Register t handle queue s =
     (if map_of (acl_queue_handlers s) handle \<noteq> None then None
      else let h = \<lparr>connection_type = t, handler_queue = queue, dequeue_is_registered = False, number_of_sent_packets = 0,
                    high_priority = False\<rparr>;
               s = s\<lparr>acl_queue_handlers := map_insert handle h (acl_queue_handlers s)\<rparr>
           in if mpq_size (fragments_to_send s) = 0 then start_round_robin s else Some s)"

function drop_loop :: "u16 \<Rightarrow> packet_fragment multi_priority_queue \<Rightarrow> packet_fragment multi_priority_queue \<Rightarrow> u16
    \<Rightarrow> (packet_fragment multi_priority_queue \<times> u16) option" where
  "drop_loop handle from new sent =
     (if mpq_empty from then Some (new, sent)
      else case mpq_front from of
             None \<Rightarrow> None
           | Some fragment \<Rightarrow>
               if pf_handle fragment = handle then drop_loop handle (mpq_pop from) new (sent - 1)
               else drop_loop handle (mpq_pop from) (mpq_push fragment (pf_priority fragment) new) sent)"
  by pat_completeness auto

termination drop_loop
  by (relation "measure (\<lambda>(handle, from, new, sent). length (next_to_dequeue from))")
    (auto simp: mpq_empty_def mpq_pop_def Let_def)

declare drop_loop.simps [simp del]

definition drop_packet_fragments :: "u16 \<Rightarrow> round_robin \<Rightarrow> round_robin option" where
  "drop_packet_fragments handle s =
     (if mpq_empty (fragments_to_send s) then Some s
      else case map_of (acl_queue_handlers s) handle of
             None \<Rightarrow> None
           | Some h \<Rightarrow>
               (case drop_loop handle (fragments_to_send s) (new_MultiPriorityQueue 2) (number_of_sent_packets h) of
                  None \<Rightarrow> None
                | Some (new, sent) \<Rightarrow>
                    Some (s\<lparr>acl_queue_handlers := map_modify handle (\<lambda>h. h\<lparr>number_of_sent_packets := sent\<rparr>) (acl_queue_handlers s),
                            rr_enqueue_registered := rr_enqueue_registered s \<and> \<not> mpq_empty new,
                            fragments_to_send := new\<rparr>)))"

text \<open>\<open>Unregister\<close> behind its assertion and the dropping of the fragments, for the handler it has found.\<close>

definition reclaim_credits :: "acl_queue_handler \<Rightarrow> round_robin \<Rightarrow> round_robin \<times> bool" where
  "reclaim_credits h s =
     (let sent = number_of_sent_packets h
      in if connection_type h = CLASSIC
         then (s\<lparr>acl_packet_credits := acl_packet_credits s + sent\<rparr>, 0 < sent \<and> acl_packet_credits s = 0)
         else (s\<lparr>le_acl_packet_credits := le_acl_packet_credits s + sent\<rparr>, 0 < sent \<and> le_acl_packet_credits s = 0))"

definition Unregister :: "u16 \<Rightarrow> round_robin \<Rightarrow> round_robin option" where
  "Unregister handle s =
     (if map_of (acl_queue_handlers s) handle = None then None
      else case drop_packet_fragments handle s of
             None \<Rightarrow> None
           | Some s \<Rightarrow>
               (case map_of (acl_queue_handlers s) handle of
                  None \<Rightarrow> None
                | Some h \<Rightarrow>
                    let (s, credits_reclaimed_from_zero) = reclaim_credits h s;
                        m = map_erase handle (acl_queue_handlers s);
                        s = s\<lparr>acl_queue_handlers := m, starting_point := map_begin m\<rparr>
                    in if credits_reclaimed_from_zero then start_round_robin s else Some s))"

definition IsRegistered :: "u16 \<Rightarrow> round_robin \<Rightarrow> bool" where
  "IsRegistered handle s \<longleftrightarrow> map_of (acl_queue_handlers s) handle \<noteq> None"

definition SetLinkPriority :: "u16 \<Rightarrow> bool \<Rightarrow> round_robin \<Rightarrow> round_robin" where
  "SetLinkPriority handle hp s =
     (if map_of (acl_queue_handlers s) handle = None then s
      else s\<lparr>acl_queue_handlers := map_modify handle (\<lambda>h. h\<lparr>high_priority := hp\<rparr>) (acl_queue_handlers s)\<rparr>)"

definition unregister_all_connections :: "round_robin \<Rightarrow> round_robin" where
  "unregister_all_connections s =
     s\<lparr>acl_queue_handlers := map (\<lambda>(k, h). (k, if dequeue_is_registered h then h\<lparr>dequeue_is_registered := False\<rparr> else h))
                               (acl_queue_handlers s)\<rparr>"

fun push_fragments :: "(PacketBoundaryFlag \<Rightarrow> u8 list \<Rightarrow> packet_fragment) \<Rightarrow> nat \<Rightarrow> PacketBoundaryFlag \<Rightarrow> u8 list list
    \<Rightarrow> packet_fragment multi_priority_queue \<Rightarrow> packet_fragment multi_priority_queue" where
  "push_fragments mk priority flag [] q = q"
| "push_fragments mk priority flag (f # fs) q =
     push_fragments mk priority CONTINUING_FRAGMENT fs (mpq_push (mk flag f) priority q)"

definition buffer_packet :: "u16 \<Rightarrow> round_robin \<Rightarrow> round_robin option" where
  "buffer_packet handle s =
     (case map_of (acl_queue_handlers s) handle of
        None \<Rightarrow> Some s
      | Some h \<Rightarrow>
          (case handler_queue h of
             [] \<Rightarrow> None
           | packet # rest \<Rightarrow>
               let t = connection_type h;
                   mtu = (if t = CLASSIC then hci_mtu s else le_hci_mtu s);
                   flag = (if IsFlushable packet then FIRST_AUTOMATICALLY_FLUSHABLE else FIRST_NON_AUTOMATICALLY_FLUSHABLE);
                   acl_priority = (if high_priority h then 1 else 0);
                   mk = (\<lambda>flag bs. \<lparr>pf_connection_type = t, pf_handle = handle, pf_priority = acl_priority,
                           pf_packet = \<lparr>ab_handle = handle, ab_packet_boundary_flag = flag,
                                        ab_broadcast_flag = POINT_TO_POINT, ab_payload = bs\<rparr>\<rparr>)
               in case (if length (op_bytes packet) \<le> mtu then Some [op_bytes packet]
                        else map_option (map payload) (GetFragments mtu (op_bytes packet))) of
                    None \<Rightarrow> None
                  | Some fs \<Rightarrow>
                      let q = push_fragments mk acl_priority flag fs (fragments_to_send s)
                      in if \<not> 0 < mpq_size q then None
                         else let s = unregister_all_connections (s\<lparr>fragments_to_send := q\<rparr>);
                                  upd = (\<lambda>h. h\<lparr>handler_queue := rest,
                                             number_of_sent_packets := number_of_sent_packets h + of_nat (mpq_size q)\<rparr>)
                              in Some (send_next_fragment (s\<lparr>acl_queue_handlers := map_modify handle upd (acl_queue_handlers s)\<rparr>))))"

text \<open>The callback of the HCI queue: the packet handed over, and the scheduler behind it.\<close>

definition take_credit :: "ConnectionType \<Rightarrow> round_robin \<Rightarrow> round_robin option" where
  "take_credit t s =
     (if t = CLASSIC
      then if \<not> 0 < acl_packet_credits s then None else Some (s\<lparr>acl_packet_credits := acl_packet_credits s - 1\<rparr>)
      else if \<not> 0 < le_acl_packet_credits s then None else Some (s\<lparr>le_acl_packet_credits := le_acl_packet_credits s - 1\<rparr>))"

definition handle_enqueue_next_fragment :: "round_robin \<Rightarrow> (acl_builder \<times> round_robin) option" where
  "handle_enqueue_next_fragment s =
     (case mpq_front (fragments_to_send s) of
        None \<Rightarrow> None
      | Some front \<Rightarrow>
          (case take_credit (pf_connection_type front) s of
             None \<Rightarrow> None
           | Some s \<Rightarrow>
               let s = s\<lparr>fragments_to_send := mpq_pop (fragments_to_send s)\<rparr>
               in if mpq_empty (fragments_to_send s)
                  then Some (pf_packet front, s\<lparr>rr_enqueue_registered := False, posted_round_robins := Suc (posted_round_robins s)\<rparr>)
                  else (case mpq_front (fragments_to_send s) of
                          None \<Rightarrow> None
                        | Some nxt \<Rightarrow>
                            if buffer_full s (pf_connection_type nxt) then Some (pf_packet front, s\<lparr>rr_enqueue_registered := False\<rparr>)
                            else Some (pf_packet front, s))))"

definition incoming_acl_credits :: "u16 \<Rightarrow> u16 \<Rightarrow> round_robin \<Rightarrow> round_robin option" where
  "incoming_acl_credits handle credits s =
     (case map_of (acl_queue_handlers s) handle of
        None \<Rightarrow> Some s
      | Some h \<Rightarrow>
          let sent = (if credits \<le> number_of_sent_packets h then number_of_sent_packets h - credits else 0);
              s = s\<lparr>acl_queue_handlers := map_modify handle (\<lambda>h. h\<lparr>number_of_sent_packets := sent\<rparr>) (acl_queue_handlers s)\<rparr>;
              credit_was_zero = (if connection_type h = CLASSIC then acl_packet_credits s = 0 else le_acl_packet_credits s = 0);
              s = (if connection_type h = CLASSIC
                   then s\<lparr>acl_packet_credits := (if max_acl_packet_credits s < acl_packet_credits s + credits
                                                 then max_acl_packet_credits s else acl_packet_credits s + credits)\<rparr>
                   else s\<lparr>le_acl_packet_credits := (if le_max_acl_packet_credits s < le_acl_packet_credits s + credits
                                                    then le_max_acl_packet_credits s else le_acl_packet_credits s + credits)\<rparr>)
          in if credit_was_zero then start_round_robin s else Some s)"

end
