(* ===== verification/Round_Robin_Inv.thy ===== *)
theory Round_Robin_Inv
  imports Round_Robin "HOL-Library.Multiset"
begin

text \<open>
  The credit accounting of the round-robin scheduler: what the callbacks of the reactor, the handler and the controller may
  do, the invariant that the free buffers and the packets in the controller add up to the buffers of the controller, and that
  every operation preserves it without failing an assertion.
\<close>

section \<open>The priority queue as a list\<close>

definition items :: "'a multi_priority_queue \<Rightarrow> 'a list" where
  "items q = queues q ! 1 @ queues q ! 0"

definition mpq_wf :: "'a multi_priority_queue \<Rightarrow> bool" where
  "mpq_wf q \<longleftrightarrow> (\<exists>a b. queues q = [b, a] \<and> next_to_dequeue q = replicate (length a) 1 @ replicate (length b) 0)"

lemma mpq_new:
  "mpq_wf (new_MultiPriorityQueue 2)" "items (new_MultiPriorityQueue 2) = []"
  by (simp_all add: mpq_wf_def items_def new_MultiPriorityQueue_def numeral_2_eq_2)

lemma mpq_size_items:
  "mpq_wf q \<Longrightarrow> mpq_size q = length (items q)"
  by (auto simp: mpq_wf_def mpq_size_def items_def)

lemma mpq_empty_items:
  "mpq_wf q \<Longrightarrow> mpq_empty q \<longleftrightarrow> items q = []"
  by (auto simp: mpq_wf_def mpq_empty_def items_def)

lemma mpq_front_items:
  assumes "mpq_wf q"
  shows "mpq_front q = (case items q of [] \<Rightarrow> None | t # _ \<Rightarrow> Some t)"
proof -
  obtain a b where q: "queues q = [b, a]" "next_to_dequeue q = replicate (length a) 1 @ replicate (length b) 0"
    using assms(1) by (auto simp: mpq_wf_def)
  then show ?thesis by (cases a; cases b) (simp_all add: mpq_front_def items_def)
qed

lemma mpq_pop_items:
  assumes "mpq_wf q" "items q \<noteq> []"
  shows "mpq_wf (mpq_pop q) \<and> items (mpq_pop q) = tl (items q)"
proof -
  obtain a b where q: "queues q = [b, a]" "next_to_dequeue q = replicate (length a) 1 @ replicate (length b) 0"
    using assms(1) by (auto simp: mpq_wf_def)
  show ?thesis using assms(2) q by (cases a; cases b) (simp_all add: mpq_wf_def mpq_pop_def items_def Let_def)
qed

lemma pq_push_levels:
  "pq_push 1 (replicate n 1 @ replicate k 0) = replicate (Suc n) 1 @ replicate k 0"
  "pq_push 0 (replicate n 1 @ replicate k 0) = replicate n 1 @ replicate (Suc k) 0"
proof -
  have zeros: "pq_push 0 (replicate k 0) = 0 # replicate k 0" by (induction k) simp_all
  have ones: "pq_push 1 (replicate k 0) = 1 # replicate k 0" by (cases k) simp_all
  show "pq_push 1 (replicate n 1 @ replicate k 0) = replicate (Suc n) 1 @ replicate k 0"
    using ones by (induction n) simp_all
  show "pq_push 0 (replicate n 1 @ replicate k 0) = replicate n 1 @ replicate (Suc k) 0"
    using zeros by (induction n) simp_all
qed

text \<open>An item goes behind the items of its priority and before those of a lower one.\<close>

lemma mpq_push_items:
  assumes "mpq_wf q" "p < 2"
  shows "mpq_wf (mpq_push t p q) \<and> items (mpq_push t p q) = (if p = 1 then queues q ! 1 @ [t] @ queues q ! 0 else items q @ [t])"
proof -
  obtain a b where q: "queues q = [b, a]" "next_to_dequeue q = replicate (length a) 1 @ replicate (length b) 0"
    using assms(1) by (auto simp: mpq_wf_def)
  have "p = 0 \<or> p = 1" using assms(2) by auto
  then show ?thesis
  proof
    assume "p = 0"
    then show ?thesis using q pq_push_levels(2) [of "length a" "length b"] by (simp add: mpq_wf_def mpq_push_def items_def)
  next
    assume "p = 1"
    then show ?thesis using q pq_push_levels(1) [of "length a" "length b"]
      by (simp add: mpq_wf_def mpq_push_def items_def)
  qed
qed

lemma mpq_push_mset:
  "mpq_wf q \<Longrightarrow> p < 2 \<Longrightarrow> mset (items (mpq_push t p q)) = add_mset t (mset (items q))"
  using mpq_push_items [of q p t] by (simp add: items_def)

lemma push_fragments_mset:
  assumes "mpq_wf q" "p < 2"
  shows "mpq_wf (push_fragments mk p flag fs q)
    \<and> (\<exists>g. size g = length fs \<and> (\<forall>f \<in># g. \<exists>flag bs. f = mk flag bs) \<and> mset (items (push_fragments mk p flag fs q)) = mset (items q) + g)"
  using assms(1)
proof (induction fs arbitrary: q flag)
  case (Cons x fs)
  have q: "mpq_wf (mpq_push (mk flag x) p q)" using mpq_push_items [OF Cons.prems assms(2)] by blast
  from Cons.IH [OF q, of CONTINUING_FRAGMENT] obtain g where "mpq_wf (push_fragments mk p flag (x # fs) q)" "size g = length fs"
    "\<forall>f \<in># g. \<exists>flag bs. f = mk flag bs"
    "mset (items (push_fragments mk p flag (x # fs) q)) = mset (items q) + add_mset (mk flag x) g"
    by (auto simp: mpq_push_mset [OF Cons.prems assms(2)])
  then show ?case by (intro conjI exI [of _ "add_mset (mk flag x) g"]) auto
qed simp

definition of_handle :: "u16 \<Rightarrow> packet_fragment multiset \<Rightarrow> packet_fragment multiset" where
  "of_handle k P = filter_mset (\<lambda>f. pf_handle f = k) P"

lemma of_handle_simps [simp]:
  "of_handle k {#} = {#}"
  "of_handle k (add_mset f P) = (if pf_handle f = k then add_mset f (of_handle k P) else of_handle k P)"
  by (simp_all add: of_handle_def)

lemma drop_loop_step:
  assumes "mpq_wf from" "items from = f # fs"
  shows "drop_loop handle from new sent =
    (if pf_handle f = handle then drop_loop handle (mpq_pop from) new (sent - 1)
     else drop_loop handle (mpq_pop from) (mpq_push f (pf_priority f) new) sent)"
  using assms by (simp add: drop_loop.simps [of handle "from"] mpq_front_items mpq_empty_items)

lemma drop_loop_mset:
  "\<lbrakk>mpq_wf from; mpq_wf new; items from = xs; \<forall>f \<in> set xs. pf_priority f < 2; size (of_handle handle (mset xs)) \<le> unat sent\<rbrakk>
   \<Longrightarrow> \<exists>new' sent'. drop_loop handle from new sent = Some (new', sent') \<and> mpq_wf new'
     \<and> mset (items new') = mset (items new) + filter_mset (\<lambda>f. pf_handle f \<noteq> handle) (mset xs)
     \<and> unat sent' = unat sent - size (of_handle handle (mset xs))"
proof (induction xs arbitrary: "from" new sent)
  case Nil
  then show ?case by (simp add: drop_loop.simps mpq_empty_items)
next
  case (Cons f fs)
  have pop: "mpq_wf (mpq_pop from)" "items (mpq_pop from) = fs"
    using mpq_pop_items [OF Cons.prems(1)] Cons.prems(3) by simp_all
  have prios: "\<forall>f \<in> set fs. pf_priority f < 2" "pf_priority f < 2" using Cons.prems(4) by simp_all
  note step = drop_loop_step [OF Cons.prems(1,3)]
  show ?case
  proof (cases "pf_handle f = handle")
    case True
    then have le: "Suc (size (of_handle handle (mset fs))) \<le> unat sent" using Cons.prems(5) by simp
    then have "sent \<noteq> 0" by auto
    then have dec: "unat (sent - 1) = unat sent - 1" by (rule unat_minus_one)
    have "size (of_handle handle (mset fs)) \<le> unat (sent - 1)" using le dec by linarith
    from Cons.IH [OF pop(1) Cons.prems(2) pop(2) prios(1) this] show ?thesis
      unfolding step using True dec by simp
  next
    case False
    then have le: "size (of_handle handle (mset fs)) \<le> unat sent" using Cons.prems(5) by simp
    have new: "mpq_wf (mpq_push f (pf_priority f) new)" using mpq_push_items [OF Cons.prems(2) prios(2)] by blast
    from Cons.IH [OF pop(1) new pop(2) prios(1) le] show ?thesis
      unfolding step using False by (simp add: mpq_push_mset [OF Cons.prems(2) prios(2)])
  qed
qed

section \<open>The handlers\<close>

lemma map_insert_map_of:
  "map_of m k = None \<Longrightarrow> map_of (map_insert k v m) = (map_of m)(k \<mapsto> v)"
  by (induction m) (auto split: if_splits)

lemma map_insert_mset:
  "mset (map_insert k v m) = add_mset (k, v) (mset m)"
  by (induction k v m rule: map_insert.induct) auto

lemma map_modify_keys [simp]:
  "map fst (map_modify k f m) = map fst m"
  by (simp add: map_modify_def comp_def case_prod_beta)

lemma map_modify_map_of:
  "map_of (map_modify k f m) k' = (if k' = k then map_option f (map_of m k) else map_of m k')"
  by (induction m) (auto simp: map_modify_def)

lemma map_erase_map_of:
  "map_of (map_erase k m) k' = (if k' = k then None else map_of m k')"
  by (induction m) (auto simp: map_erase_def)

lemma map_erase_modify [simp]:
  "map_erase k (map_modify k f m) = map_erase k m"
  by (induction m) (auto simp: map_erase_def map_modify_def)

lemma map_erase_distinct:
  "distinct (map fst m) \<Longrightarrow> distinct (map fst (map_erase k m))"
  by (simp add: map_erase_def distinct_map_filter)

lemma map_flags_of:
  "map_of (map (\<lambda>(k, h). (k, g h)) m) k = map_option g (map_of m k)"
  by (induction m) auto

lemma sum_handlers_at:
  fixes F :: "u16 \<times> acl_queue_handler \<Rightarrow> nat"
  assumes "distinct (map fst m)" "map_of m k = Some h"
  shows "sum_list (map F m) = F (k, h) + sum_list (map F (map_erase k m))"
  using assms
proof (induction m)
  case (Cons x m)
  show ?case
  proof (cases "fst x = k")
    case True
    then have "k \<notin> fst ` set m" using Cons.prems(1) by auto
    then have "map_erase k m = m" by (force simp: map_erase_def filter_id_conv)
    then show ?thesis using True Cons.prems(2) by (cases x) (simp add: map_erase_def)
  next
    case False
    then show ?thesis using Cons by (cases x) (simp add: map_erase_def)
  qed
qed simp

text \<open>The loop of \<open>start_round_robin\<close> visits every handler, wherever it starts.\<close>

lemma register_loop_nth:
  assumes "i < length m" "n \<le> length m"
  shows "length (register_loop s n i m) = length m
    \<and> (\<forall>j < length m. register_loop s n i m ! j =
        (if j \<in> (\<lambda>d. (i + d) mod length m) ` {..<n} then (fst (m ! j), register_dequeue s (snd (m ! j))) else m ! j))"
  using assms
proof (induction n arbitrary: i m)
  case (Suc n)
  define m' where "m' = m[i := (fst (m ! i), register_dequeue s (snd (m ! i)))]"
  define i' where "i' = (if Suc i = length m then 0 else Suc i)"
  have i': "i' < length m'" "i' = Suc i mod length m" "length m' = length m"
    using Suc.prems by (auto simp: i'_def m'_def)
  have step: "register_loop s (Suc n) i m = register_loop s n i' m'" by (simp add: i'_def m'_def Let_def)
  have set: "(\<lambda>d. (i + d) mod length m) ` {..<Suc n} = insert i ((\<lambda>d. (i' + d) mod length m) ` {..<n})"
    using Suc.prems by (simp add: lessThan_Suc_eq_insert_0 image_image i'(2) mod_add_left_eq)
  have new: "i \<notin> (\<lambda>d. (i' + d) mod length m) ` {..<n}"
  proof
    assume "i \<in> (\<lambda>d. (i' + d) mod length m) ` {..<n}"
    then obtain d where d: "d < n" "i = (Suc i + d) mod length m" by (auto simp: i'(2) mod_add_left_eq)
    have "(Suc i + d) mod length m = (if Suc i + d < length m then Suc i + d else Suc i + d - length m)"
      using d(1) Suc.prems by (simp add: mod_if)
    then show False using d Suc.prems by (simp split: if_splits)
  qed
  from Suc.IH [of i' m'] show ?case
    using i' Suc.prems new unfolding step set by (auto simp: m'_def nth_list_update)
qed simp

lemma register_loop_all:
  assumes "i < length m"
  shows "register_loop s (length m) i m = map (\<lambda>(k, h). (k, register_dequeue s h)) m"
proof (rule nth_equalityI)
  show "length (register_loop s (length m) i m) = length (map (\<lambda>(k, h). (k, register_dequeue s h)) m)"
    using register_loop_nth [OF assms order_refl] by simp
  fix j assume "j < length (register_loop s (length m) i m)"
  then have j: "j < length m" using register_loop_nth [OF assms order_refl] by simp
  have "j = (i + (if i \<le> j then j - i else j + length m - i)) mod length m" using j assms by (auto simp: mod_if)
  moreover have "(if i \<le> j then j - i else j + length m - i) < length m" using j assms by auto
  ultimately have "j \<in> (\<lambda>d. (i + d) mod length m) ` {..<length m}" by blast
  then show "register_loop s (length m) i m ! j = map (\<lambda>(k, h). (k, register_dequeue s h)) m ! j"
    using register_loop_nth [OF assms order_refl] j by (simp add: case_prod_beta)
qed

lemma index_of_map_of:
  "map_of m k \<noteq> None \<Longrightarrow> \<exists>i. index_of k m = Some i \<and> i < length m"
  by (induction m) auto

section \<open>Steps\<close>

text \<open>What the callers, the reactor, the handler and the controller do.\<close>

datatype rr_action =
    Connect ConnectionType u16 "outgoing_packet list"
  | Disconnect u16
  | Prioritize u16 bool
  | Produce u16 outgoing_packet
  | DequeueReady u16
  | EnqueueReady
  | RunPosted
  | Completed u16 u16

definition pending :: "round_robin \<Rightarrow> packet_fragment multiset" where
  "pending s = mset (items (fragments_to_send s))"

text \<open>When they do it: the reactor calls the callbacks that are registered, \<open>buffer_packet\<close> only for a queue that holds a packet,
  and the controller reports as completed at most the packets it was given. A packet has too few fragments for the counter
  of 16 bits to wrap around.\<close>

fun rr_enabled :: "rr_action \<Rightarrow> round_robin \<Rightarrow> bool" where
  "rr_enabled (Connect t k queue) s \<longleftrightarrow> map_of (acl_queue_handlers s) k = None"
| "rr_enabled (Disconnect k) s \<longleftrightarrow> map_of (acl_queue_handlers s) k \<noteq> None"
| "rr_enabled (Prioritize k hp) s \<longleftrightarrow> True"
| "rr_enabled (Produce k packet) s \<longleftrightarrow> map_of (acl_queue_handlers s) k \<noteq> None"
| "rr_enabled (DequeueReady k) s \<longleftrightarrow>
     (case map_of (acl_queue_handlers s) k of
        None \<Rightarrow> False
      | Some h \<Rightarrow> dequeue_is_registered h \<and>
          (case handler_queue h of
             [] \<Rightarrow> False
           | packet # _ \<Rightarrow> uint (number_of_sent_packets h) + 1
               + int (length (op_bytes packet) div (if connection_type h = CLASSIC then hci_mtu s else le_hci_mtu s)) < 65536))"
| "rr_enabled EnqueueReady s \<longleftrightarrow> rr_enqueue_registered s"
| "rr_enabled RunPosted s \<longleftrightarrow> 0 < posted_round_robins s"
| "rr_enabled (Completed k c) s \<longleftrightarrow>
     (case map_of (acl_queue_handlers s) k of
        None \<Rightarrow> True
      | Some h \<Rightarrow> unat c + size (of_handle k (pending s)) \<le> unat (number_of_sent_packets h))"

fun rr_do :: "rr_action \<Rightarrow> round_robin \<Rightarrow> round_robin option" where
  "rr_do (Connect t k queue) s = Register t k queue s"
| "rr_do (Disconnect k) s = Unregister k s"
| "rr_do (Prioritize k hp) s = Some (SetLinkPriority k hp s)"
| "rr_do (Produce k packet) s =
     Some (s\<lparr>acl_queue_handlers := map_modify k (\<lambda>h. h\<lparr>handler_queue := handler_queue h @ [packet]\<rparr>) (acl_queue_handlers s)\<rparr>)"
| "rr_do (DequeueReady k) s = buffer_packet k s"
| "rr_do EnqueueReady s = map_option snd (handle_enqueue_next_fragment s)"
| "rr_do RunPosted s = start_round_robin (s\<lparr>posted_round_robins := posted_round_robins s - 1\<rparr>)"
| "rr_do (Completed k c) s = incoming_acl_credits k c s"

inductive rr_step :: "round_robin \<Rightarrow> round_robin \<Rightarrow> bool" where
  act: "rr_enabled a s \<Longrightarrow> rr_do a s = Some s' \<Longrightarrow> rr_step s s'"

inductive rr_reachable :: "controller_buffers \<Rightarrow> round_robin \<Rightarrow> bool" for c where
  start: "rr_reachable c (new_RoundRobinScheduler c)"
| step: "rr_reachable c s \<Longrightarrow> rr_step s s' \<Longrightarrow> rr_reachable c s'"

inductive_cases rr_stepE: "rr_step s s'"

section \<open>Invariant\<close>

definition credits_of :: "round_robin \<Rightarrow> ConnectionType \<Rightarrow> u16" where
  "credits_of s t = (case t of CLASSIC \<Rightarrow> acl_packet_credits s | LE \<Rightarrow> le_acl_packet_credits s)"

definition buffers_of :: "round_robin \<Rightarrow> ConnectionType \<Rightarrow> u16" where
  "buffers_of s t = (case t of CLASSIC \<Rightarrow> max_acl_packet_credits s | LE \<Rightarrow> le_max_acl_packet_credits s)"

text \<open>The packets of a connection that are in the controller: those counted as sent less those that still wait.\<close>

definition outstanding :: "packet_fragment multiset \<Rightarrow> ConnectionType \<Rightarrow> u16 \<times> acl_queue_handler \<Rightarrow> nat" where
  "outstanding P t = (\<lambda>(k, h). if connection_type h = t then unat (number_of_sent_packets h) - size (of_handle k P) else 0)"

definition in_controller :: "handler_map \<Rightarrow> packet_fragment multiset \<Rightarrow> ConnectionType \<Rightarrow> nat" where
  "in_controller m P t = sum_list (map (outstanding P t) m)"

definition fragments_ok :: "handler_map \<Rightarrow> packet_fragment multiset \<Rightarrow> bool" where
  "fragments_ok m P \<longleftrightarrow>
     (\<forall>f \<in># P. pf_priority f < 2 \<and> (\<exists>h. map_of m (pf_handle f) = Some h \<and> connection_type h = pf_connection_type f))
     \<and> (\<forall>f \<in># P. \<forall>g \<in># P. pf_handle f = pf_handle g)
     \<and> (\<forall>k h. map_of m k = Some h \<longrightarrow> size (of_handle k P) \<le> unat (number_of_sent_packets h))"

definition rr_core :: "round_robin \<Rightarrow> bool" where
  "rr_core s \<longleftrightarrow>
     distinct (map fst (acl_queue_handlers s)) \<and> mpq_wf (fragments_to_send s)
     \<and> 0 < hci_mtu s \<and> 0 < le_hci_mtu s \<and> (\<exists>t. buffers_of s t \<noteq> 0)
     \<and> fragments_ok (acl_queue_handlers s) (pending s)
     \<and> (\<forall>t. unat (credits_of s t) + in_controller (acl_queue_handlers s) (pending s) t = unat (buffers_of s t))"

definition rr_registered :: "round_robin \<Rightarrow> bool" where
  "rr_registered s \<longleftrightarrow>
     (\<forall>k h. map_of (acl_queue_handlers s) k = Some h \<longrightarrow> dequeue_is_registered h
        \<longrightarrow> pending s = {#} \<and> credits_of s (connection_type h) \<noteq> 0)
     \<and> (rr_enqueue_registered s \<longrightarrow> pending s \<noteq> {#} \<and> (\<forall>f \<in># pending s. credits_of s (pf_connection_type f) \<noteq> 0))"

definition rr_started :: "round_robin \<Rightarrow> bool" where
  "rr_started s \<longleftrightarrow>
     (case starting_point s of
        Singular \<Rightarrow> acl_queue_handlers s = []
      | At k \<Rightarrow> map_of (acl_queue_handlers s) k \<noteq> None
      | End \<Rightarrow> True)"

definition rr_inv :: "round_robin \<Rightarrow> bool" where
  "rr_inv s \<longleftrightarrow> rr_core s \<and> rr_registered s \<and> rr_started s"

lemma buffer_full_credits:
  "buffer_full s t \<longleftrightarrow> credits_of s t = 0"
  by (cases t) (auto simp: buffer_full_def credits_of_def)

lemma pending_empty:
  "mpq_wf (fragments_to_send s) \<Longrightarrow> mpq_empty (fragments_to_send s) \<longleftrightarrow> pending s = {#}"
  by (simp add: mpq_empty_items pending_def)

lemma pending_front:
  assumes "mpq_wf (fragments_to_send s)" "pending s \<noteq> {#}"
  obtains f where "mpq_front (fragments_to_send s) = Some f" "f \<in># pending s"
    "mpq_wf (mpq_pop (fragments_to_send s))" "pending s = add_mset f (mset (items (mpq_pop (fragments_to_send s))))"
proof -
  obtain f fs where f: "items (fragments_to_send s) = f # fs" using assms(2) by (cases "items (fragments_to_send s)") (auto simp: pending_def)
  show thesis using that [of f] f mpq_front_items [OF assms(1)] mpq_pop_items [OF assms(1)] by (simp add: pending_def)
qed

text \<open>All waiting fragments are of one connection, hence of one type.\<close>

lemma fragments_same_type:
  assumes "fragments_ok m P" "f \<in># P" "g \<in># P"
  shows "pf_handle f = pf_handle g" "pf_connection_type f = pf_connection_type g"
proof -
  show same: "pf_handle f = pf_handle g" using assms unfolding fragments_ok_def by blast
  obtain h h' where "map_of m (pf_handle f) = Some h" "connection_type h = pf_connection_type f"
    "map_of m (pf_handle g) = Some h'" "connection_type h' = pf_connection_type g"
    using assms unfolding fragments_ok_def by blast
  then show "pf_connection_type f = pf_connection_type g" using same by simp
qed

lemma in_controller_at:
  assumes "distinct (map fst m)" "map_of m k = Some h"
  shows "in_controller m P t = outstanding P t (k, h) + in_controller (map_erase k m) P t"
  using sum_handlers_at [OF assms] by (simp add: in_controller_def)

text \<open>The accounting only depends on types and counts: registrations, priorities and the queues do not matter.\<close>

definition counts :: "handler_map \<Rightarrow> (u16 \<times> ConnectionType \<times> u16) list" where
  "counts m = map (\<lambda>(k, h). (k, connection_type h, number_of_sent_packets h)) m"

lemma counts_keys:
  "counts m = counts m' \<Longrightarrow> map fst m = map fst m'"
  by (drule arg_cong [where f = "map fst"]) (simp add: counts_def comp_def case_prod_beta)

lemma counts_map_of:
  "map_of (counts m) k = map_option (\<lambda>h. (connection_type h, number_of_sent_packets h)) (map_of m k)"
  by (induction m) (auto simp: counts_def)

lemma counts_in_controller:
  assumes "counts m = counts m'"
  shows "in_controller m P t = in_controller m' P t"
proof -
  have "outstanding P t = (\<lambda>(k, ct, n). if ct = t then unat n - size (of_handle k P) else 0)
      \<circ> (\<lambda>(k, h). (k, connection_type h, number_of_sent_packets h))"
    by (auto simp: outstanding_def fun_eq_iff)
  then have "in_controller m P t = sum_list (map (\<lambda>(k, ct, n). if ct = t then unat n - size (of_handle k P) else 0) (counts m))" for m
    by (simp add: in_controller_def counts_def)
  then show ?thesis using assms by simp
qed

lemma fragments_ok_counts:
  "fragments_ok m P \<longleftrightarrow>
     (\<forall>f \<in># P. pf_priority f < 2 \<and> (\<exists>n. map_of (counts m) (pf_handle f) = Some (pf_connection_type f, n)))
     \<and> (\<forall>f \<in># P. \<forall>g \<in># P. pf_handle f = pf_handle g)
     \<and> (\<forall>k t n. map_of (counts m) k = Some (t, n) \<longrightarrow> size (of_handle k P) \<le> unat n)"
proof -
  have types: "(\<exists>h. map_of m (pf_handle f) = Some h \<and> connection_type h = pf_connection_type f)
      \<longleftrightarrow> (\<exists>n. map_of (counts m) (pf_handle f) = Some (pf_connection_type f, n))" for f
    by (auto simp: counts_map_of)
  have sizes: "(\<forall>h. map_of m k = Some h \<longrightarrow> size (of_handle k P) \<le> unat (number_of_sent_packets h))
      \<longleftrightarrow> (\<forall>t n. map_of (counts m) k = Some (t, n) \<longrightarrow> size (of_handle k P) \<le> unat n)" for k
    by (auto simp: counts_map_of)
  show ?thesis by (simp only: fragments_ok_def types sizes)
qed

lemma counts_fragments_ok:
  "counts m = counts m' \<Longrightarrow> fragments_ok m P \<Longrightarrow> fragments_ok m' P"
  by (simp only: fragments_ok_counts)

lemma counts_flags:
  assumes "\<And>h. connection_type (g h) = connection_type h" "\<And>h. number_of_sent_packets (g h) = number_of_sent_packets h"
  shows "counts (map (\<lambda>(k, h). (k, g h)) m) = counts m"
  using assms by (simp add: counts_def comp_def case_prod_beta)

lemma counts_modify:
  assumes "\<And>h. connection_type (g h) = connection_type h" "\<And>h. number_of_sent_packets (g h) = number_of_sent_packets h"
  shows "counts (map_modify k g m) = counts m"
  using assms by (auto simp: counts_def map_modify_def)

lemma rr_core_cong:
  assumes "rr_core s" "counts (acl_queue_handlers s') = counts (acl_queue_handlers s)" "fragments_to_send s' = fragments_to_send s"
    "hci_mtu s' = hci_mtu s" "le_hci_mtu s' = le_hci_mtu s" "credits_of s' = credits_of s" "buffers_of s' = buffers_of s"
  shows "rr_core s'"
proof -
  have P: "pending s' = pending s" using assms(3) by (simp add: pending_def)
  have "distinct (map fst (acl_queue_handlers s'))"
    using assms(1) counts_keys [OF assms(2)] by (simp add: rr_core_def)
  moreover have "fragments_ok (acl_queue_handlers s') (pending s')"
    using assms(1) counts_fragments_ok [OF assms(2) [symmetric]] P by (simp add: rr_core_def)
  ultimately show ?thesis using assms P counts_in_controller [OF assms(2)] by (simp add: rr_core_def)
qed

section \<open>Starting the round\<close>

lemma register_dequeue_simps [simp]:
  "connection_type (register_dequeue s h) = connection_type h"
  "number_of_sent_packets (register_dequeue s h) = number_of_sent_packets h"
  "handler_queue (register_dequeue s h) = handler_queue h"
  "dequeue_is_registered (register_dequeue s h) \<longleftrightarrow> dequeue_is_registered h \<or> credits_of s (connection_type h) \<noteq> 0"
  by (simp_all add: register_dequeue_def buffer_full_credits)

definition register_all :: "round_robin \<Rightarrow> handler_map" where
  "register_all s = map (\<lambda>(k, h). (k, register_dequeue s h)) (acl_queue_handlers s)"

lemma register_all_none:
  assumes "\<And>t. credits_of s t = 0"
  shows "register_all s = acl_queue_handlers s"
  using assms by (auto simp: register_all_def register_dequeue_def buffer_full_credits map_idI)

lemma register_all_map_of:
  "map_of (register_all s) k = map_option (register_dequeue s) (map_of (acl_queue_handlers s) k)"
  by (simp add: register_all_def map_flags_of)

definition restarted :: "round_robin \<Rightarrow> map_iterator \<Rightarrow> round_robin" where
  "restarted s x = s\<lparr>acl_queue_handlers := (if pending s = {#} then register_all s else acl_queue_handlers s),
     rr_enqueue_registered := rr_enqueue_registered s \<or> (pending s \<noteq> {#} \<and> (\<forall>f \<in># pending s. credits_of s (pf_connection_type f) \<noteq> 0)),
     starting_point := x\<rparr>"

lemma credits_zero:
  "acl_packet_credits s = 0 \<and> le_acl_packet_credits s = 0 \<longleftrightarrow> (\<forall>t. credits_of s t = 0)"
  by (metis (full_types) ConnectionType.exhaust ConnectionType.simps(3,4) credits_of_def)

lemma start_round_robin_zero:
  assumes "\<forall>t. credits_of s t = 0"
  shows "start_round_robin s = Some (restarted s (starting_point s))"
proof -
  have "register_all s = acl_queue_handlers s" using assms by (simp add: register_all_none)
  moreover have "start_round_robin s = Some s" using assms credits_zero [of s] by (simp add: start_round_robin_def)
  moreover have none: "(pending s \<noteq> {#} \<and> (\<forall>f \<in># pending s. credits_of s (pf_connection_type f) \<noteq> 0)) = False"
    using assms by (auto dest: multi_nonempty_split)
  ultimately show ?thesis unfolding restarted_def none by simp
qed

lemma start_round_robin_pending:
  assumes "rr_core s" "pending s \<noteq> {#}"
  shows "start_round_robin s = Some (restarted s (starting_point s))"
proof (cases "\<forall>t. credits_of s t = 0")
  case True
  then show ?thesis by (rule start_round_robin_zero)
next
  case False
  have wf: "mpq_wf (fragments_to_send s)" "fragments_ok (acl_queue_handlers s) (pending s)" using assms(1) by (simp_all add: rr_core_def)
  obtain f where f: "mpq_front (fragments_to_send s) = Some f" "f \<in># pending s" using pending_front [OF wf(1) assms(2)] .
  have all: "(\<forall>g \<in># pending s. credits_of s (pf_connection_type g) \<noteq> 0) \<longleftrightarrow> credits_of s (pf_connection_type f) \<noteq> 0"
    using f(2) fragments_same_type(2) [OF wf(2) f(2)] by metis
  show ?thesis using False f(1) assms(2) credits_zero [of s] pending_empty [OF wf(1)]
    by (simp add: start_round_robin_def restarted_def all buffer_full_credits send_next_fragment_def)
qed

lemma start_round_robin_idle:
  assumes "rr_core s" "pending s = {#}" "rr_started s \<or> length (acl_queue_handlers s) = 1" "\<exists>t. credits_of s t \<noteq> 0"
  obtains x where "start_round_robin s = Some (restarted s x)" "rr_started (restarted s x)"
proof (cases "acl_queue_handlers s = []")
  case True
  then have "start_round_robin s = Some (restarted s (starting_point s))"
    using assms pending_empty [of s] credits_zero [of s] by (auto simp: start_round_robin_def restarted_def register_all_def rr_core_def)
  moreover have "rr_started (restarted s (starting_point s))"
    using True assms(2,3) by (auto simp: restarted_def rr_started_def register_all_def split: map_iterator.splits)
  ultimately show ?thesis by (rule that)
next
  case False
  define st where "st = (if length (acl_queue_handlers s) = 1 \<or> starting_point s = End then map_begin (acl_queue_handlers s) else starting_point s)"
  have "\<exists>k. st = At k \<and> map_of (acl_queue_handlers s) k \<noteq> None"
    using assms(3) False by (cases "acl_queue_handlers s")
      (auto simp: st_def map_begin_def rr_started_def split: map_iterator.splits if_splits)
  then obtain k i where k: "st = At k" "index_of k (acl_queue_handlers s) = Some i" "i < length (acl_queue_handlers s)"
    using index_of_map_of by blast
  define x where "x = map_begin (drop (Suc i) (register_all s))"
  have guards: "\<not> (acl_packet_credits s = 0 \<and> le_acl_packet_credits s = 0)" "mpq_empty (fragments_to_send s)"
    using assms pending_empty [of s] credits_zero [of s] by (auto simp: rr_core_def)
  have "start_round_robin s = Some (s\<lparr>acl_queue_handlers := register_all s, starting_point := x\<rparr>)"
    unfolding start_round_robin_def st_def [symmetric] Let_def k(1) if_not_P [OF guards(1)] if_not_P [OF False]
    by (simp add: guards(2) k(2) register_loop_all [OF k(3)] register_all_def x_def)
  then have "start_round_robin s = Some (restarted s x)" using assms(2) by (simp add: restarted_def)
  moreover have "rr_started (restarted s x)"
  proof (cases "drop (Suc i) (register_all s)")
    case Nil
    then show ?thesis by (simp add: rr_started_def restarted_def x_def map_begin_def)
  next
    case (Cons p rest)
    then have "p \<in> set (register_all s)" by (metis in_set_dropD list.set_intros(1))
    then have "map_of (register_all s) (fst p) \<noteq> None" by (metis map_of_eq_None_iff image_eqI)
    then show ?thesis using Cons assms(2) by (cases p) (simp add: rr_started_def restarted_def x_def map_begin_def)
  qed
  ultimately show ?thesis by (rule that)
qed

end
