(* ===== verification/Round_Robin_Steps.thy ===== *)
theory Round_Robin_Steps
  imports Round_Robin_Inv
begin

text \<open>
  Every operation of the round-robin scheduler keeps the invariant of its credit accounting and fails no assertion, when it is
  called as the reactor, the handler and the controller call it.
\<close>

section \<open>Credits and counts after an update\<close>

definition with_credits :: "round_robin \<Rightarrow> ConnectionType \<Rightarrow> u16 \<Rightarrow> round_robin" where
  "with_credits s t c = (case t of CLASSIC \<Rightarrow> s\<lparr>acl_packet_credits := c\<rparr> | LE \<Rightarrow> s\<lparr>le_acl_packet_credits := c\<rparr>)"

lemma with_credits_simps [simp]:
  "credits_of (with_credits s t c) t' = (if t' = t then c else credits_of s t')"
  "buffers_of (with_credits s t c) = buffers_of s"
  "acl_queue_handlers (with_credits s t c) = acl_queue_handlers s"
  "fragments_to_send (with_credits s t c) = fragments_to_send s"
  "pending (with_credits s t c) = pending s"
  "hci_mtu (with_credits s t c) = hci_mtu s"
  "le_hci_mtu (with_credits s t c) = le_hci_mtu s"
  "starting_point (with_credits s t c) = starting_point s"
  "rr_enqueue_registered (with_credits s t c) = rr_enqueue_registered s"
  "posted_round_robins (with_credits s t c) = posted_round_robins s"
  by (cases t; cases t'; simp add: with_credits_def credits_of_def buffers_of_def pending_def fun_eq_iff split: ConnectionType.splits)+

lemma state_simps [simp]:
  "credits_of (s\<lparr>acl_queue_handlers := m\<rparr>) = credits_of s"
  "credits_of (s\<lparr>fragments_to_send := q\<rparr>) = credits_of s"
  "credits_of (s\<lparr>rr_enqueue_registered := e\<rparr>) = credits_of s"
  "credits_of (s\<lparr>starting_point := x\<rparr>) = credits_of s"
  "credits_of (s\<lparr>posted_round_robins := n\<rparr>) = credits_of s"
  "buffers_of (s\<lparr>acl_queue_handlers := m\<rparr>) = buffers_of s"
  "buffers_of (s\<lparr>fragments_to_send := q\<rparr>) = buffers_of s"
  "buffers_of (s\<lparr>rr_enqueue_registered := e\<rparr>) = buffers_of s"
  "buffers_of (s\<lparr>starting_point := x\<rparr>) = buffers_of s"
  "buffers_of (s\<lparr>posted_round_robins := n\<rparr>) = buffers_of s"
  "pending (s\<lparr>acl_queue_handlers := m\<rparr>) = pending s"
  "pending (s\<lparr>rr_enqueue_registered := e\<rparr>) = pending s"
  "pending (s\<lparr>starting_point := x\<rparr>) = pending s"
  "pending (s\<lparr>posted_round_robins := n\<rparr>) = pending s"
  "pending (s\<lparr>fragments_to_send := q\<rparr>) = mset (items q)"
  by (simp_all add: credits_of_def buffers_of_def pending_def fun_eq_iff split: ConnectionType.splits)

lemma in_controller_modify:
  assumes "distinct (map fst m)" "map_of m k = Some h"
  shows "in_controller (map_modify k g m) P t = outstanding P t (k, g h) + in_controller (map_erase k m) P t"
  using in_controller_at [of "map_modify k g m" k "g h" P t] assms by (simp add: map_modify_map_of)

lemma in_controller_erase_cong:
  assumes "\<And>k'. k' \<noteq> k \<Longrightarrow> of_handle k' P' = of_handle k' P"
  shows "in_controller (map_erase k m) P' t = in_controller (map_erase k m) P t"
  unfolding in_controller_def map_erase_def
  by (intro arg_cong [where f = sum_list] map_cong) (auto simp: outstanding_def assms)

lemma of_handle_other:
  "\<forall>f \<in># P. pf_handle f \<noteq> k \<Longrightarrow> of_handle k P = {#}"
  by (induction P) simp_all

lemma fragments_okI:
  assumes "\<And>f. f \<in># P \<Longrightarrow> pf_priority f < 2"
    "\<And>f. f \<in># P \<Longrightarrow> \<exists>h. map_of m (pf_handle f) = Some h \<and> connection_type h = pf_connection_type f"
    "\<And>f g. f \<in># P \<Longrightarrow> g \<in># P \<Longrightarrow> pf_handle f = pf_handle g"
    "\<And>k h. map_of m k = Some h \<Longrightarrow> size (of_handle k P) \<le> unat (number_of_sent_packets h)"
  shows "fragments_ok m P"
  unfolding fragments_ok_def using assms by blast

lemma fragments_okD:
  assumes "fragments_ok m P"
  shows "f \<in># P \<Longrightarrow> pf_priority f < 2"
    "f \<in># P \<Longrightarrow> \<exists>h. map_of m (pf_handle f) = Some h \<and> connection_type h = pf_connection_type f"
    "map_of m k = Some h \<Longrightarrow> size (of_handle k P) \<le> unat (number_of_sent_packets h)"
  using assms unfolding fragments_ok_def by blast+

lemma rr_coreD:
  assumes "rr_core s"
  shows "distinct (map fst (acl_queue_handlers s))" "mpq_wf (fragments_to_send s)" "0 < hci_mtu s" "0 < le_hci_mtu s"
    "\<exists>t. buffers_of s t \<noteq> 0" "fragments_ok (acl_queue_handlers s) (pending s)"
    "unat (credits_of s t) + in_controller (acl_queue_handlers s) (pending s) t = unat (buffers_of s t)"
  using assms unfolding rr_core_def by blast+

section \<open>Starting the round\<close>

lemma restarted_core:
  assumes "rr_core s"
  shows "rr_core (restarted s x)"
proof (rule rr_core_cong [OF assms])
  have "counts (register_all s) = counts (acl_queue_handlers s)" unfolding register_all_def by (rule counts_flags) simp_all
  then show "counts (acl_queue_handlers (restarted s x)) = counts (acl_queue_handlers s)" by (simp add: restarted_def)
qed (simp_all add: restarted_def credits_of_def buffers_of_def fun_eq_iff split: ConnectionType.splits)

lemma restarted_simps:
  "pending (restarted s x) = pending s"
  "credits_of (restarted s x) = credits_of s"
  by (simp_all add: restarted_def)

lemma restarted_registered:
  assumes "rr_registered s"
  shows "rr_registered (restarted s x)"
  unfolding rr_registered_def restarted_simps
proof (intro conjI allI impI)
  fix k h assume k: "map_of (acl_queue_handlers (restarted s x)) k = Some h" "dequeue_is_registered h"
  show "pending s = {#}" "credits_of s (connection_type h) \<noteq> 0"
    using k assms by (auto simp: restarted_def register_all_map_of rr_registered_def split: if_splits)
next
  assume "rr_enqueue_registered (restarted s x)"
  then have "pending s \<noteq> {#} \<and> (\<forall>f \<in># pending s. credits_of s (pf_connection_type f) \<noteq> 0)"
    using assms by (auto simp: restarted_def rr_registered_def)
  then show "pending s \<noteq> {#}" "\<forall>f \<in># pending s. credits_of s (pf_connection_type f) \<noteq> 0" by simp_all
qed

lemma restarted_started:
  "rr_started s \<Longrightarrow> rr_started (restarted s (starting_point s))"
  by (auto simp: rr_started_def restarted_def register_all_map_of split: map_iterator.splits) (simp add: register_all_def)

lemma start_round_robin_inv:
  assumes "rr_core s" "rr_registered s"
    "rr_started s \<or> length (acl_queue_handlers s) = 1 \<and> pending s = {#} \<and> (\<exists>t. credits_of s t \<noteq> 0)"
  obtains x where "start_round_robin s = Some (restarted s x)" "rr_inv (restarted s x)"
proof -
  have "\<exists>x. start_round_robin s = Some (restarted s x) \<and> rr_started (restarted s x)"
  proof (cases "(\<forall>t. credits_of s t = 0) \<or> pending s \<noteq> {#}")
    case True
    then have "rr_started s" using assms(3) by auto
    then show ?thesis using True start_round_robin_zero [of s] start_round_robin_pending [OF assms(1)] restarted_started [of s] by blast
  next
    case False
    then show ?thesis using start_round_robin_idle [OF assms(1)] assms(3) by metis
  qed
  then show thesis using that restarted_core [OF assms(1)] restarted_registered [OF assms(2)] by (auto simp: rr_inv_def)
qed

text \<open>The scheduler does not idle: fragments that wait are being sent or wait for a credit, and when there are none, a round is
  posted or every connection with a credit is asked for packets.\<close>

definition rr_busy :: "round_robin \<Rightarrow> bool" where
  "rr_busy s \<longleftrightarrow>
     (pending s \<noteq> {#} \<longrightarrow> rr_enqueue_registered s \<or> (\<exists>f \<in># pending s. credits_of s (pf_connection_type f) = 0))
     \<and> (pending s = {#} \<longrightarrow> 0 < posted_round_robins s
         \<or> (\<forall>k h. map_of (acl_queue_handlers s) k = Some h \<longrightarrow> credits_of s (connection_type h) \<noteq> 0 \<longrightarrow> dequeue_is_registered h))"

lemma restarted_busy:
  "rr_busy (restarted s x)"
  unfolding rr_busy_def restarted_simps by (auto simp: restarted_def register_all_map_of)

section \<open>Connections\<close>

lemma map_insert_keys:
  assumes "map_of m k = None" "distinct (map fst m)"
  shows "distinct (map fst (map_insert k h m))"
proof -
  have "mset (map fst (map_insert k h m)) = mset (k # map fst m)" by (simp add: map_insert_mset)
  then have "distinct (map fst (map_insert k h m)) = distinct (k # map fst m)" by (metis mset_eq_imp_distinct_iff)
  then show ?thesis using assms by (simp add: map_of_eq_None_iff)
qed

lemma in_controller_insert:
  "in_controller (map_insert k h m) P t = outstanding P t (k, h) + in_controller m P t"
proof -
  have "sum_mset (mset (map (outstanding P t) (map_insert k h m))) = sum_mset (mset (map (outstanding P t) ((k, h) # m)))"
    by (simp add: map_insert_mset)
  then show ?thesis unfolding sum_mset_sum_list by (simp add: in_controller_def)
qed

lemma insert_core:
  assumes "rr_core s" "map_of (acl_queue_handlers s) k = None" "number_of_sent_packets h = 0"
  shows "rr_core (s\<lparr>acl_queue_handlers := map_insert k h (acl_queue_handlers s)\<rparr>)"
proof -
  have ok: "fragments_ok (acl_queue_handlers s) (pending s)" "distinct (map fst (acl_queue_handlers s))"
    using assms(1) by (simp_all add: rr_core_def)
  have other: "pf_handle f \<noteq> k" if "f \<in># pending s" for f
    using fragments_okD(2) [OF ok(1) that] assms(2) by auto
  then have none: "of_handle k (pending s) = {#}" by (intro of_handle_other) blast
  have "fragments_ok (map_insert k h (acl_queue_handlers s)) (pending s)"
  proof (rule fragments_okI)
    fix f assume f: "f \<in># pending s"
    show "pf_priority f < 2" using fragments_okD(1) [OF ok(1) f] .
    show "\<exists>h'. map_of (map_insert k h (acl_queue_handlers s)) (pf_handle f) = Some h' \<and> connection_type h' = pf_connection_type f"
      using fragments_okD(2) [OF ok(1) f] other [OF f] by (simp add: map_insert_map_of [OF assms(2)])
  next
    fix f g assume "f \<in># pending s" "g \<in># pending s"
    then show "pf_handle f = pf_handle g" by (rule fragments_same_type(1) [OF ok(1)])
  next
    fix k' h' assume "map_of (map_insert k h (acl_queue_handlers s)) k' = Some h'"
    then show "size (of_handle k' (pending s)) \<le> unat (number_of_sent_packets h')"
      using fragments_okD(3) [OF ok(1)] none by (auto simp: map_insert_map_of [OF assms(2)] split: if_splits)
  qed
  moreover have "in_controller (map_insert k h (acl_queue_handlers s)) (pending s) t = in_controller (acl_queue_handlers s) (pending s) t" for t
    using assms(3) by (simp add: in_controller_insert outstanding_def)
  ultimately show ?thesis using assms(1) map_insert_keys [OF assms(2) ok(2)] by (simp add: rr_core_def)
qed

lemma no_handlers_credits:
  assumes "rr_core s" "acl_queue_handlers s = []"
  shows "pending s = {#}" "\<exists>t. credits_of s t \<noteq> 0"
proof -
  have "f \<notin># pending s" for f using assms by (auto simp: rr_core_def fragments_ok_def)
  then show "pending s = {#}" by (meson multiset_nonemptyE)
  obtain t where t: "buffers_of s t \<noteq> 0" using assms(1) by (auto simp: rr_core_def)
  have "unat (credits_of s t) = unat (buffers_of s t)"
    using assms unfolding rr_core_def in_controller_def by (metis add.right_neutral list.simps(8) sum_list.Nil)
  then show "\<exists>t. credits_of s t \<noteq> 0" using t by (metis unat_eq_zero)
qed

lemma Register_inv:
  assumes "rr_inv s" "map_of (acl_queue_handlers s) k = None"
  obtains s' where "Register t k queue s = Some s'" "rr_inv s'" "rr_busy s \<Longrightarrow> rr_busy s'"
proof -
  define h where "h = \<lparr>connection_type = t, handler_queue = queue, dequeue_is_registered = False, number_of_sent_packets = 0,
                    high_priority = False\<rparr>"
  define s1 where "s1 = s\<lparr>acl_queue_handlers := map_insert k h (acl_queue_handlers s)\<rparr>"
  have core: "rr_core s1" unfolding s1_def using assms by (intro insert_core) (simp_all add: rr_inv_def h_def)
  have reg: "rr_registered s1"
    using assms unfolding rr_inv_def rr_registered_def s1_def by (auto simp: map_insert_map_of [OF assms(2)] h_def split: if_splits)
  have started: "rr_started s1" if "acl_queue_handlers s \<noteq> []"
    using assms that by (auto simp: rr_inv_def rr_started_def s1_def map_insert_map_of [OF assms(2)] split: map_iterator.splits)
  have first: "length (acl_queue_handlers s1) = 1 \<and> pending s1 = {#} \<and> (\<exists>t. credits_of s1 t \<noteq> 0)" if "acl_queue_handlers s = []"
    using no_handlers_credits [of s] assms(1) that by (simp add: s1_def rr_inv_def)
  obtain x where x: "start_round_robin s1 = Some (restarted s1 x)" "rr_inv (restarted s1 x)"
    using start_round_robin_inv [OF core reg] started first by blast
  have size: "mpq_size (fragments_to_send s1) = 0 \<longleftrightarrow> pending s1 = {#}"
    using core by (simp add: rr_core_def mpq_size_items pending_def)
  have do: "Register t k queue s = (if pending s1 = {#} then start_round_robin s1 else Some s1)"
    unfolding Register_def h_def [symmetric] s1_def [symmetric] Let_def using assms(2) size by simp
  show thesis
  proof (cases "pending s1 = {#}")
    case True
    then show thesis using that do x restarted_busy by simp
  next
    case False
    then have "acl_queue_handlers s \<noteq> []" using first by blast
    moreover have "rr_busy s \<Longrightarrow> rr_busy s1" using False by (simp add: rr_busy_def s1_def)
    ultimately show thesis using that do False core reg started by (simp add: rr_inv_def)
  qed
qed

lemma map_modify_same:
  assumes "distinct (map fst m)" "map_of m k = Some h" "f h = h"
  shows "map_modify k f m = m"
proof -
  have "v = h" if "(k, v) \<in> set m" for v using map_of_is_SomeI [OF assms(1) that] assms(2) by simp
  then show ?thesis unfolding map_modify_def using assms(3) by (intro map_idI) auto
qed

text \<open>What \<open>Unregister\<close> leaves before it may start the round.\<close>

lemma drop_packet_fragments_eq:
  assumes "rr_core s" "map_of (acl_queue_handlers s) k = Some h"
  obtains q n where
    "drop_packet_fragments k s = Some (s\<lparr>acl_queue_handlers := map_modify k (\<lambda>h. h\<lparr>number_of_sent_packets := n\<rparr>) (acl_queue_handlers s),
       rr_enqueue_registered := rr_enqueue_registered s \<and> (pending s = {#} \<or> mset (items q) \<noteq> {#}), fragments_to_send := q\<rparr>)"
    "mpq_wf q" "mset (items q) = filter_mset (\<lambda>f. pf_handle f \<noteq> k) (pending s)"
    "unat n = unat (number_of_sent_packets h) - size (of_handle k (pending s))"
proof -
  have core: "mpq_wf (fragments_to_send s)" "fragments_ok (acl_queue_handlers s) (pending s)"
    "distinct (map fst (acl_queue_handlers s))" using rr_coreD [OF assms(1)] by blast+
  show thesis
  proof (cases "pending s = {#}")
    case True
    have "map_modify k (\<lambda>h'. h'\<lparr>number_of_sent_packets := number_of_sent_packets h\<rparr>) (acl_queue_handlers s) = acl_queue_handlers s"
      by (rule map_modify_same [OF core(3) assms(2)]) simp
    then have "drop_packet_fragments k s = Some (s\<lparr>acl_queue_handlers := map_modify k (\<lambda>h'. h'\<lparr>number_of_sent_packets := number_of_sent_packets h\<rparr>) (acl_queue_handlers s),
       rr_enqueue_registered := rr_enqueue_registered s \<and> (pending s = {#} \<or> mset (items (fragments_to_send s)) \<noteq> {#}),
       fragments_to_send := fragments_to_send s\<rparr>)"
      using True pending_empty [OF core(1)] by (simp add: drop_packet_fragments_def)
    then show ?thesis using core(1) by (rule that) (use True in \<open>simp_all add: pending_def\<close>)
  next
    case False
    have prio: "\<forall>f \<in> set (items (fragments_to_send s)). pf_priority f < 2"
      using fragments_okD(1) [OF core(2)] by (simp add: pending_def)
    have sent: "size (of_handle k (mset (items (fragments_to_send s)))) \<le> unat (number_of_sent_packets h)"
      using fragments_okD(3) [OF core(2) assms(2)] by (simp add: pending_def)
    from drop_loop_mset [OF core(1) mpq_new(1) refl prio sent]
    obtain q n where q: "drop_loop k (fragments_to_send s) (new_MultiPriorityQueue 2) (number_of_sent_packets h) = Some (q, n)"
      "mpq_wf q" "mset (items q) = filter_mset (\<lambda>f. pf_handle f \<noteq> k) (pending s)"
      "unat n = unat (number_of_sent_packets h) - size (of_handle k (pending s))"
      unfolding mpq_new(2) mset.simps(1) add_0 pending_def [symmetric] by blast
    have "drop_packet_fragments k s = Some (s\<lparr>acl_queue_handlers := map_modify k (\<lambda>h. h\<lparr>number_of_sent_packets := n\<rparr>) (acl_queue_handlers s),
       rr_enqueue_registered := rr_enqueue_registered s \<and> (pending s = {#} \<or> mset (items q) \<noteq> {#}), fragments_to_send := q\<rparr>)"
      unfolding drop_packet_fragments_def assms(2) pending_empty [OF core(1)] if_not_P [OF False] option.case q(1) prod.case
        mpq_empty_items [OF q(2)] using False by simp
    then show ?thesis using q(2-4) by (rule that)
  qed
qed

lemma of_handle_filter_other:
  "k' \<noteq> k \<Longrightarrow> of_handle k' (filter_mset (\<lambda>f. pf_handle f \<noteq> k) P) = of_handle k' P"
  by (induction P) auto

lemma erase_fragments_ok:
  assumes "fragments_ok m P"
  shows "fragments_ok (map_erase k m) (filter_mset (\<lambda>f. pf_handle f \<noteq> k) P)"
proof (rule fragments_okI)
  fix f assume f: "f \<in># filter_mset (\<lambda>f. pf_handle f \<noteq> k) P"
  show "pf_priority f < 2" using fragments_okD(1) [OF assms] f by simp
  show "\<exists>h. map_of (map_erase k m) (pf_handle f) = Some h \<and> connection_type h = pf_connection_type f"
    using fragments_okD(2) [OF assms, of f] f by (simp add: map_erase_map_of)
next
  fix f g assume "f \<in># filter_mset (\<lambda>f. pf_handle f \<noteq> k) P" "g \<in># filter_mset (\<lambda>f. pf_handle f \<noteq> k) P"
  then show "pf_handle f = pf_handle g" using fragments_same_type(1) [OF assms, of f g] by simp
next
  fix k' h assume "map_of (map_erase k m) k' = Some h"
  then show "size (of_handle k' (filter_mset (\<lambda>f. pf_handle f \<noteq> k) P)) \<le> unat (number_of_sent_packets h)"
    using fragments_okD(3) [OF assms, of k' h] by (simp add: map_erase_map_of of_handle_filter_other split: if_splits)
qed

lemma unat_add_no_wrap:
  fixes a b :: u16
  assumes "unat a + unat b + n = unat (c :: u16)"
  shows "unat (a + b) = unat a + unat b"
proof (rule unat_add_lem [THEN iffD1])
  have "unat c < 2 ^ LENGTH(16)" by (rule unsigned_less)
  then show "unat a + unat b < 2 ^ LENGTH(16)" using assms by linarith
qed

text \<open>The state behind \<open>Unregister\<close> before the round may start: the buffers of the connection are free again.\<close>

lemma erase_inv:
  assumes "rr_inv s" "map_of (acl_queue_handlers s) k = Some h" "mpq_wf q"
    "mset (items q) = filter_mset (\<lambda>f. pf_handle f \<noteq> k) (pending s)"
    "unat n = unat (number_of_sent_packets h) - size (of_handle k (pending s))"
    "e \<longrightarrow> rr_enqueue_registered s \<and> mset (items q) \<noteq> {#}"
  shows "rr_inv ((with_credits s (connection_type h) (credits_of s (connection_type h) + n))
    \<lparr>rr_enqueue_registered := e, fragments_to_send := q, acl_queue_handlers := map_erase k (acl_queue_handlers s),
     starting_point := map_begin (map_erase k (acl_queue_handlers s))\<rparr>)" (is "rr_inv ?s")
    and "credits_of s t' \<noteq> 0 \<Longrightarrow> credits_of (with_credits s (connection_type h) (credits_of s (connection_type h) + n)) t' \<noteq> 0"
proof -
  define m where "m = acl_queue_handlers s"
  define P where "P = pending s"
  define t where "t = connection_type h"
  have core: "rr_core s" using assms(1) by (simp add: rr_inv_def)
  then have dist: "distinct (map fst m)" and ok: "fragments_ok m P"
    unfolding m_def P_def by (rule rr_coreD)+
  have bal: "unat (credits_of s t') + (outstanding P t' (k, h) + in_controller (map_erase k m) P t') = unat (buffers_of s t')" for t'
  proof -
    have "unat (credits_of s t') + in_controller m P t' = unat (buffers_of s t')" unfolding m_def P_def by (rule rr_coreD(7) [OF core])
    then show ?thesis using in_controller_at [OF dist, of k h P t'] assms(2) by (simp add: m_def)
  qed
  have same: "in_controller (map_erase k m) (mset (items q)) t' = in_controller (map_erase k m) P t'" for t'
    using assms(4) by (intro in_controller_erase_cong) (simp add: of_handle_filter_other P_def)
  have n: "outstanding P t' (k, h) = (if t' = t then unat n else 0)" for t'
    using assms(5) by (simp add: outstanding_def P_def t_def)
  have sum: "unat (credits_of s t + n) = unat (credits_of s t) + unat n"
    using bal [of t] n [of t] by (intro unat_add_no_wrap [of _ _ "in_controller (map_erase k m) P t" "buffers_of s t"]) simp
  have "unat (if t' = t then credits_of s t + n else credits_of s t') + in_controller (map_erase k m) (mset (items q)) t'
      = unat (buffers_of s t')" for t'
    using bal [of t'] same [of t'] n [of t'] sum by (cases "t' = t") simp_all
  then have "rr_core ?s"
    using core dist assms(3) erase_fragments_ok [OF ok, of k]
    by (simp add: rr_core_def map_erase_distinct m_def [symmetric] assms(4) P_def [symmetric] t_def [symmetric])
  moreover have more: "credits_of ?s t' \<noteq> 0" if "credits_of s t' \<noteq> 0" for t'
    using that sum by (auto simp: t_def unat_eq_zero [symmetric])
  have "rr_registered ?s"
    unfolding rr_registered_def
  proof (intro conjI allI impI)
    fix k' h' assume a: "map_of (acl_queue_handlers ?s) k' = Some h'" "dequeue_is_registered h'"
    then have "map_of (acl_queue_handlers s) k' = Some h'" by (simp add: map_erase_map_of split: if_splits)
    then have "P = {#}" "credits_of s (connection_type h') \<noteq> 0"
      using a(2) assms(1) by (auto simp: rr_inv_def rr_registered_def P_def)
    then show "pending ?s = {#}" "credits_of ?s (connection_type h') \<noteq> 0" using assms(4) more by (simp_all add: P_def)
  next
    assume "rr_enqueue_registered ?s"
    then have e: "rr_enqueue_registered s" "mset (items q) \<noteq> {#}" using assms(6) by simp_all
    then show "pending ?s \<noteq> {#}" by simp
    have "\<forall>f \<in># P. credits_of s (pf_connection_type f) \<noteq> 0" using e assms(1) by (simp add: rr_inv_def rr_registered_def P_def)
    then show "\<forall>f \<in># pending ?s. credits_of ?s (pf_connection_type f) \<noteq> 0" using more assms(4) by (simp add: P_def)
  qed
  moreover have "rr_started ?s"
    by (cases "map_erase k (acl_queue_handlers s)") (auto simp: rr_started_def map_begin_def)
  ultimately show "rr_inv ?s" by (simp add: rr_inv_def)
  show "credits_of (with_credits s (connection_type h) (credits_of s (connection_type h) + n)) t' \<noteq> 0" if "credits_of s t' \<noteq> 0"
    using more [OF that] by simp
qed

lemma reclaim_credits_eq:
  "reclaim_credits h s = (with_credits s (connection_type h) (credits_of s (connection_type h) + number_of_sent_packets h),
     0 < number_of_sent_packets h \<and> credits_of s (connection_type h) = 0)"
  by (cases "connection_type h") (simp_all add: reclaim_credits_def with_credits_def credits_of_def Let_def)

lemma with_credits_update:
  "with_credits (s\<lparr>acl_queue_handlers := m, rr_enqueue_registered := e, fragments_to_send := q\<rparr>) t c
     = (with_credits s t c)\<lparr>acl_queue_handlers := m, rr_enqueue_registered := e, fragments_to_send := q\<rparr>"
  by (cases t) (simp_all add: with_credits_def)

definition unregistered :: "u16 \<Rightarrow> ConnectionType \<Rightarrow> u16 \<Rightarrow> bool \<Rightarrow> packet_fragment multi_priority_queue \<Rightarrow> round_robin \<Rightarrow> round_robin" where
  "unregistered k t n e q s = (with_credits s t (credits_of s t + n))
    \<lparr>rr_enqueue_registered := e, fragments_to_send := q, acl_queue_handlers := map_erase k (acl_queue_handlers s),
     starting_point := map_begin (map_erase k (acl_queue_handlers s))\<rparr>"

lemma Unregister_eq:
  assumes "rr_inv s" "map_of (acl_queue_handlers s) k = Some h"
  obtains n e q where
    "Unregister k s = (if 0 < n \<and> credits_of s (connection_type h) = 0 then start_round_robin (unregistered k (connection_type h) n e q s)
                       else Some (unregistered k (connection_type h) n e q s))"
    "mset (items q) = filter_mset (\<lambda>f. pf_handle f \<noteq> k) (pending s)" "e \<longrightarrow> mset (items q) \<noteq> {#}"
    "rr_inv (unregistered k (connection_type h) n e q s)"
    "\<forall>t. credits_of s t \<noteq> 0 \<longrightarrow> credits_of (unregistered k (connection_type h) n e q s) t \<noteq> 0"
proof -
  have core: "rr_core s" using assms(1) by (simp add: rr_inv_def)
  obtain q n where q: "drop_packet_fragments k s = Some (s\<lparr>acl_queue_handlers := map_modify k (\<lambda>h. h\<lparr>number_of_sent_packets := n\<rparr>) (acl_queue_handlers s),
       rr_enqueue_registered := rr_enqueue_registered s \<and> (pending s = {#} \<or> mset (items q) \<noteq> {#}), fragments_to_send := q\<rparr>)"
    "mpq_wf q" "mset (items q) = filter_mset (\<lambda>f. pf_handle f \<noteq> k) (pending s)"
    "unat n = unat (number_of_sent_packets h) - size (of_handle k (pending s))"
    using drop_packet_fragments_eq [OF core assms(2)] .
  define e where "e = (rr_enqueue_registered s \<and> (pending s = {#} \<or> mset (items q) \<noteq> {#}))"
  have e: "e \<longrightarrow> rr_enqueue_registered s \<and> mset (items q) \<noteq> {#}" using assms(1) by (auto simp: e_def rr_inv_def rr_registered_def)
  have "rr_inv (unregistered k (connection_type h) n e q s)" unfolding unregistered_def by (rule erase_inv(1) [OF assms q(2-4) e])
  moreover have "credits_of (unregistered k (connection_type h) n e q s) t \<noteq> 0" if "credits_of s t \<noteq> 0" for t
    using erase_inv(2) [OF assms q(2-4) e that] by (simp add: unregistered_def)
  moreover have "Unregister k s = (if 0 < n \<and> credits_of s (connection_type h) = 0 then start_round_robin (unregistered k (connection_type h) n e q s)
                       else Some (unregistered k (connection_type h) n e q s))"
    unfolding Unregister_def q(1) assms(2) e_def [symmetric]
    by (simp add: assms(2) map_modify_map_of reclaim_credits_eq with_credits_update unregistered_def Let_def)
  ultimately show thesis using that q(3) e by blast
qed

lemma Unregister_inv:
  assumes "rr_inv s" "map_of (acl_queue_handlers s) k = Some h"
  obtains s' where "Unregister k s = Some s'" "rr_inv s'"
proof -
  obtain n e q where do: "Unregister k s = (if 0 < n \<and> credits_of s (connection_type h) = 0 then start_round_robin (unregistered k (connection_type h) n e q s)
                       else Some (unregistered k (connection_type h) n e q s))"
    and inv: "rr_inv (unregistered k (connection_type h) n e q s)"
    using Unregister_eq [OF assms] .
  moreover obtain x where "start_round_robin (unregistered k (connection_type h) n e q s) = Some (restarted (unregistered k (connection_type h) n e q s) x)"
      "rr_inv (restarted (unregistered k (connection_type h) n e q s) x)"
    using start_round_robin_inv inv unfolding rr_inv_def by blast
  ultimately show thesis using that by (cases "0 < n \<and> credits_of s (connection_type h) = 0") auto
qed

section \<open>Priorities and packets of the upper layer\<close>

lemma modify_inv:
  assumes "rr_inv s" "\<And>h. connection_type (g h) = connection_type h" "\<And>h. number_of_sent_packets (g h) = number_of_sent_packets h"
    "\<And>h. dequeue_is_registered (g h) = dequeue_is_registered h"
  shows "rr_inv (s\<lparr>acl_queue_handlers := map_modify k g (acl_queue_handlers s)\<rparr>)" (is "rr_inv ?s")
proof -
  have core: "rr_core s" using assms(1) by (simp add: rr_inv_def)
  have "rr_core ?s"
    by (rule rr_core_cong [OF core]) (simp_all add: counts_modify [OF assms(2,3)])
  moreover have "rr_registered ?s"
    using assms(1,2,4) unfolding rr_inv_def rr_registered_def by (auto simp: map_modify_map_of split: if_splits)
  moreover have "rr_started ?s"
    using assms(1) by (auto simp: rr_inv_def rr_started_def map_modify_map_of split: map_iterator.splits) (simp add: map_modify_def)
  ultimately show ?thesis by (simp add: rr_inv_def)
qed

lemma modify_busy:
  assumes "rr_busy s" "\<And>h. connection_type (g h) = connection_type h" "\<And>h. dequeue_is_registered (g h) = dequeue_is_registered h"
  shows "rr_busy (s\<lparr>acl_queue_handlers := map_modify k g (acl_queue_handlers s)\<rparr>)"
  using assms unfolding rr_busy_def by (auto simp: map_modify_map_of split: if_splits)

lemma SetLinkPriority_inv:
  "rr_inv s \<Longrightarrow> rr_inv (SetLinkPriority k hp s)" "rr_busy s \<Longrightarrow> rr_busy (SetLinkPriority k hp s)"
  by (simp_all add: SetLinkPriority_def modify_inv modify_busy)

lemma map_modify_cong:
  assumes "distinct (map fst m)" "map_of m k = Some h" "f h = g h"
  shows "map_modify k f m = map_modify k g m"
proof -
  have "v = h" if "(k, v) \<in> set m" for v using map_of_is_SomeI [OF assms(1) that] assms(2) by simp
  then show ?thesis unfolding map_modify_def using assms(3) by (intro map_cong) auto
qed

section \<open>Packets for the controller\<close>

lemma chunk_count:
  fixes fs :: "'a list list"
  assumes "0 < mtu" "list_all (\<lambda>x. length x = mtu) (butlast fs)"
  shows "length fs \<le> Suc (length (concat fs) div mtu)"
proof (cases "fs = []")
  case False
  have "length (concat xs) = length xs * mtu" if "list_all (\<lambda>x. length x = mtu) xs" for xs :: "'a list list"
    using that by (induction xs) simp_all
  from this [OF assms(2)] have "(length fs - 1) * mtu = length (concat (butlast fs))" by simp
  also have "\<dots> \<le> length (concat (butlast fs @ [last fs]))" by simp
  also have "\<dots> = length (concat fs)" using False by simp
  finally have "length fs - 1 \<le> length (concat fs) div mtu" using assms(1) by (simp add: less_eq_div_iff_mult_less_eq)
  then show ?thesis by simp
qed simp

definition packet_fragments :: "nat \<Rightarrow> u8 list \<Rightarrow> u8 list list option" where
  "packet_fragments mtu bs = (if length bs \<le> mtu then Some [bs] else map_option (map payload) (GetFragments mtu bs))"

lemma packet_fragments_some:
  assumes "0 < mtu"
  obtains fs where "packet_fragments mtu bs = Some fs" "fs \<noteq> []" "length fs \<le> Suc (length bs div mtu)"
proof (cases "length bs \<le> mtu")
  case True
  then show ?thesis using that [of "[bs]"] by (simp add: packet_fragments_def)
next
  case False
  obtain frags where frags: "GetFragments mtu bs = Some frags" "concat (map payload frags) = bs"
    "list_all (\<lambda>f. length (payload f) = mtu) (butlast frags)"
    using GetFragments_chunks [OF assms, of bs] .
  have "list_all (\<lambda>x. length x = mtu) (butlast (map payload frags))"
    using frags(3) by (simp add: map_butlast [symmetric] list_all_iff)
  from chunk_count [OF assms this] have "length (map payload frags) \<le> Suc (length bs div mtu)" using frags(2) by simp
  moreover have "map payload frags \<noteq> []" using frags(2) False by auto
  ultimately show ?thesis using that [of "map payload frags"] frags(1) False by (simp add: packet_fragments_def)
qed

text \<open>The handlers and the fragments behind \<open>buffer_packet\<close>.\<close>

definition unregister_dequeue :: "acl_queue_handler \<Rightarrow> acl_queue_handler" where
  "unregister_dequeue h = (if dequeue_is_registered h then h\<lparr>dequeue_is_registered := False\<rparr> else h)"

lemma unregister_dequeue_simps [simp]:
  "connection_type (unregister_dequeue h) = connection_type h"
  "number_of_sent_packets (unregister_dequeue h) = number_of_sent_packets h"
  "\<not> dequeue_is_registered (unregister_dequeue h)"
  by (simp_all add: unregister_dequeue_def)

definition unregister_all :: "handler_map \<Rightarrow> handler_map" where
  "unregister_all m = map (\<lambda>(k, h). (k, unregister_dequeue h)) m"

lemma unregister_all_simps:
  "map_of (unregister_all m) k = map_option unregister_dequeue (map_of m k)"
  "counts (unregister_all m) = counts m"
  "map fst (unregister_all m) = map fst m"
proof -
  show "map_of (unregister_all m) k = map_option unregister_dequeue (map_of m k)" by (simp add: unregister_all_def map_flags_of)
  show c: "counts (unregister_all m) = counts m" unfolding unregister_all_def by (rule counts_flags) simp_all
  show "map fst (unregister_all m) = map fst m" by (rule counts_keys [OF c])
qed

lemma buffered_inv:
  assumes "rr_inv s" "map_of (acl_queue_handlers s) k = Some h" "pending s = {#}" "credits_of s (connection_type h) \<noteq> 0"
    "mpq_wf q" "mset (items q) = g" "g \<noteq> {#}"
    "\<forall>f \<in># g. pf_handle f = k \<and> pf_connection_type f = connection_type h \<and> pf_priority f < 2"
    "unat n = unat (number_of_sent_packets h) + size g"
  shows "rr_inv (s\<lparr>fragments_to_send := q,
    acl_queue_handlers := map_modify k (\<lambda>h. h\<lparr>handler_queue := rest, number_of_sent_packets := n\<rparr>) (unregister_all (acl_queue_handlers s)),
    rr_enqueue_registered := True\<rparr>)" (is "rr_inv ?s")
proof -
  define upd where "upd = (\<lambda>h :: acl_queue_handler. h\<lparr>handler_queue := rest, number_of_sent_packets := n\<rparr>)"
  define m where "m = acl_queue_handlers s"
  define m' where "m' = map_modify k upd (unregister_all m)"
  have core: "rr_core s" using assms(1) by (simp add: rr_inv_def)
  have dist: "distinct (map fst m)" "distinct (map fst (unregister_all m))" "distinct (map fst m')"
    using rr_coreD(1) [OF core] by (simp_all add: m_def m'_def unregister_all_simps)
  have k: "map_of m k = Some h" "map_of (unregister_all m) k = Some (unregister_dequeue h)"
    using assms(2) by (simp_all add: m_def unregister_all_simps)
  have m': "map_of m' k' = (if k' = k then Some (upd (unregister_dequeue h)) else map_option unregister_dequeue (map_of m k'))" for k'
    using k by (simp add: m'_def map_modify_map_of unregister_all_simps)
  have only: "of_handle k g = g" "k' \<noteq> k \<Longrightarrow> of_handle k' g = {#}" for k'
    using assms(8) by (simp add: of_handle_def filter_mset_eq_conv, intro of_handle_other) auto
  have ok: "fragments_ok m' g"
  proof (rule fragments_okI)
    fix f assume f: "f \<in># g"
    show "pf_priority f < 2" using assms(8) f by blast
    show "\<exists>h. map_of m' (pf_handle f) = Some h \<and> connection_type h = pf_connection_type f"
      using assms(8) f by (simp add: m' upd_def)
  next
    fix f f' assume "f \<in># g" "f' \<in># g"
    then show "pf_handle f = pf_handle f'" using assms(8) by simp
  next
    fix k' h' assume "map_of m' k' = Some h'"
    then show "size (of_handle k' g) \<le> unat (number_of_sent_packets h')"
      using only assms(9) by (auto simp: m' upd_def split: if_splits)
  qed
  have "in_controller m' g t = in_controller m {#} t" for t
  proof -
    have "in_controller m' g t = outstanding g t (k, upd (unregister_dequeue h)) + in_controller (map_erase k (unregister_all m)) g t"
      unfolding m'_def by (rule in_controller_modify [OF dist(2) k(2)])
    also have "outstanding g t (k, upd (unregister_dequeue h)) = outstanding {#} t (k, unregister_dequeue h)"
      using only(1) assms(9) by (simp add: outstanding_def upd_def)
    also have "in_controller (map_erase k (unregister_all m)) g t = in_controller (map_erase k (unregister_all m)) {#} t"
      by (rule in_controller_erase_cong) (simp add: only)
    also have "outstanding {#} t (k, unregister_dequeue h) + in_controller (map_erase k (unregister_all m)) {#} t = in_controller (unregister_all m) {#} t"
      by (rule in_controller_at [OF dist(2) k(2), symmetric])
    also have "\<dots> = in_controller m {#} t" by (rule counts_in_controller) (simp add: unregister_all_simps)
    finally show ?thesis .
  qed
  then have "unat (credits_of s t) + in_controller m' g t = unat (buffers_of s t)" for t
    using rr_coreD(7) [OF core, of t] by (simp add: assms(3) m_def)
  then have "rr_core ?s"
    using rr_coreD(3-5) [OF core] dist(3) ok assms(5,6) unfolding rr_core_def m_def [symmetric] upd_def [symmetric] m'_def [symmetric]
    by simp
  moreover have "rr_registered ?s"
    unfolding rr_registered_def m_def [symmetric] upd_def [symmetric] m'_def [symmetric]
    using assms(4,6,7,8) by (auto simp: m' m'_def [symmetric] upd_def split: if_splits)
  moreover have "rr_started ?s"
    using assms(1) unfolding rr_inv_def rr_started_def m_def [symmetric] upd_def [symmetric] m'_def [symmetric]
    by (auto simp: m' m_def [symmetric] split: map_iterator.splits) (simp add: m'_def map_modify_def unregister_all_def)
  ultimately show ?thesis by (simp add: rr_inv_def)
qed

lemma unat_plus_of_nat:
  fixes a :: u16
  assumes "unat a + n < 2 ^ 16"
  shows "unat (a + of_nat n) = unat a + n"
proof -
  have "a + of_nat n = of_nat (unat a + n)" by simp
  then show ?thesis using assms by (simp only: unsigned_of_nat) (simp add: take_bit_nat_eq_self)
qed

lemma buffer_packet_inv:
  assumes "rr_inv s" "rr_enabled (DequeueReady k) s"
  obtains s' where "buffer_packet k s = Some s'" "rr_inv s'" "rr_busy s'"
proof -
  obtain h packet rest where h: "map_of (acl_queue_handlers s) k = Some h" "dequeue_is_registered h" "handler_queue h = packet # rest"
    using assms(2) by (auto split: option.splits list.splits)
  define mtu where "mtu = (if connection_type h = CLASSIC then hci_mtu s else le_hci_mtu s)"
  define flag where "flag = (if IsFlushable packet then FIRST_AUTOMATICALLY_FLUSHABLE else FIRST_NON_AUTOMATICALLY_FLUSHABLE)"
  define prio :: nat where "prio = (if high_priority h then 1 else 0)"
  define mk where "mk = (\<lambda>flag bs. \<lparr>pf_connection_type = connection_type h, pf_handle = k, pf_priority = prio,
                           pf_packet = \<lparr>ab_handle = k, ab_packet_boundary_flag = flag,
                                        ab_broadcast_flag = POINT_TO_POINT, ab_payload = bs\<rparr>\<rparr>)"
  have core: "rr_core s" using assms(1) by (simp add: rr_inv_def)
  have idle: "pending s = {#}" "credits_of s (connection_type h) \<noteq> 0"
    using assms(1) h unfolding rr_inv_def rr_registered_def by blast+
  have mtu: "0 < mtu" using rr_coreD(3,4) [OF core] by (simp add: mtu_def)
  obtain fs where fs: "packet_fragments mtu (op_bytes packet) = Some fs" "fs \<noteq> []" "length fs \<le> Suc (length (op_bytes packet) div mtu)"
    using packet_fragments_some [OF mtu] .
  have room: "unat (number_of_sent_packets h) + Suc (length (op_bytes packet) div mtu) < 2 ^ 16"
  proof -
    have "uint (number_of_sent_packets h) + 1 + int (length (op_bytes packet) div mtu) < 65536" using assms(2) h by (simp add: mtu_def)
    moreover have "uint (number_of_sent_packets h) = int (unat (number_of_sent_packets h))" by simp
    ultimately have "unat (number_of_sent_packets h) + Suc (length (op_bytes packet) div mtu) < 65536" by linarith
    then show ?thesis by simp
  qed
  define q where "q = push_fragments mk prio flag fs (fragments_to_send s)"
  have prio: "prio < 2" by (simp add: prio_def)
  define g where "g = mset (items q)"
  have g: "mpq_wf q" "size g = length fs" "\<forall>f \<in># g. \<exists>flag bs. f = mk flag bs" "mset (items q) = g"
    using push_fragments_mset [OF rr_coreD(2) [OF core] prio, of mk flag fs] idle(1) by (auto simp: g_def q_def pending_def)
  have all: "\<forall>f \<in># g. pf_handle f = k \<and> pf_connection_type f = connection_type h \<and> pf_priority f < 2"
    using g(3) prio by (auto simp: mk_def)
  have ne: "g \<noteq> {#}" using g(2) fs(2) by auto
  have size: "mpq_size q = size g" using mpq_size_items [OF g(1)] g(4) by (metis size_mset)
  have n: "unat (number_of_sent_packets h + of_nat (mpq_size q)) = unat (number_of_sent_packets h) + size g"
    unfolding size by (rule unat_plus_of_nat) (use room fs(3) g(2) in linarith)
  define upd where "upd = (\<lambda>h' :: acl_queue_handler. h'\<lparr>handler_queue := rest,
      number_of_sent_packets := number_of_sent_packets h' + of_nat (mpq_size q)\<rparr>)"
  have same: "map_modify k upd (unregister_all (acl_queue_handlers s))
      = map_modify k (\<lambda>h'. h'\<lparr>handler_queue := rest, number_of_sent_packets := number_of_sent_packets h + of_nat (mpq_size q)\<rparr>) (unregister_all (acl_queue_handlers s))"
    by (rule map_modify_cong [where h = "unregister_dequeue h"]) (simp_all add: rr_coreD(1) [OF core] h(1) unregister_all_simps upd_def)
  have pos: "0 < mpq_size q" using size ne by (simp add: nonempty_has_size)
  have all_off: "unregister_all_connections s' = s'\<lparr>acl_queue_handlers := unregister_all (acl_queue_handlers s')\<rparr>" for s'
    by (simp add: unregister_all_connections_def unregister_all_def unregister_dequeue_def)
  have "buffer_packet k s = Some (s\<lparr>fragments_to_send := q,
    acl_queue_handlers := map_modify k upd (unregister_all (acl_queue_handlers s)), rr_enqueue_registered := True\<rparr>)"
    unfolding buffer_packet_def h(1) option.case h(3) list.case Let_def mtu_def [symmetric] flag_def [symmetric] prio_def [symmetric]
      mk_def [symmetric] packet_fragments_def [symmetric] fs(1) q_def [symmetric] upd_def [symmetric]
    using pos by (simp add: all_off send_next_fragment_def)
  moreover have "rr_inv (s\<lparr>fragments_to_send := q,
    acl_queue_handlers := map_modify k upd (unregister_all (acl_queue_handlers s)), rr_enqueue_registered := True\<rparr>)"
    unfolding same by (rule buffered_inv [OF assms(1) h(1) idle g(1,4) ne all n])
  ultimately show thesis by (rule that) (simp add: rr_busy_def g(4) ne)
qed

lemma take_credit_eq:
  "credits_of s t \<noteq> 0 \<Longrightarrow> take_credit t s = Some (with_credits s t (credits_of s t - 1))"
  by (cases t) (auto simp: take_credit_def with_credits_def credits_of_def word_gt_0)

lemma fragment_sent_core:
  assumes "rr_core s" "pending s = add_mset f P" "credits_of s (pf_connection_type f) \<noteq> 0" "mpq_wf q" "mset (items q) = P"
  shows "rr_core ((with_credits s (pf_connection_type f) (credits_of s (pf_connection_type f) - 1))\<lparr>fragments_to_send := q\<rparr>)"
proof -
  define m where "m = acl_queue_handlers s"
  define t where "t = pf_connection_type f"
  define k where "k = pf_handle f"
  have ok: "fragments_ok m (add_mset f P)" unfolding m_def assms(2) [symmetric] by (rule rr_coreD(6) [OF assms(1)])
  have dist: "distinct (map fst m)" unfolding m_def by (rule rr_coreD(1) [OF assms(1)])
  obtain h where h: "map_of m k = Some h" "connection_type h = t"
    using fragments_okD(2) [OF ok, of f] by (auto simp: k_def t_def)
  have "fragments_ok m P"
  proof (rule fragments_okI)
    fix g assume "g \<in># P"
    then have g: "g \<in># add_mset f P" by simp
    show "pf_priority g < 2" by (rule fragments_okD(1) [OF ok g])
    show "\<exists>h. map_of m (pf_handle g) = Some h \<and> connection_type h = pf_connection_type g" by (rule fragments_okD(2) [OF ok g])
  next
    fix g g' assume "g \<in># P" "g' \<in># P"
    then have "g \<in># add_mset f P" "g' \<in># add_mset f P" by simp_all
    then show "pf_handle g = pf_handle g'" by (rule fragments_same_type(1) [OF ok])
  next
    fix k' h' assume "map_of m k' = Some h'"
    from fragments_okD(3) [OF ok this] show "size (of_handle k' P) \<le> unat (number_of_sent_packets h')" by (simp split: if_splits)
  qed
  moreover have "in_controller m P t' = in_controller m (add_mset f P) t' + (if t' = t then 1 else 0)" for t'
  proof -
    have "size (of_handle k (add_mset f P)) \<le> unat (number_of_sent_packets h)" by (rule fragments_okD(3) [OF ok h(1)])
    then have "outstanding P t' (k, h) = outstanding (add_mset f P) t' (k, h) + (if t' = t then 1 else 0)"
      using h(2) by (simp add: outstanding_def k_def Suc_diff_Suc)
    moreover have "in_controller (map_erase k m) P t' = in_controller (map_erase k m) (add_mset f P) t'"
      by (rule in_controller_erase_cong) (simp add: k_def)
    ultimately show ?thesis unfolding in_controller_at [OF dist h(1)] by simp
  qed
  moreover have "unat (credits_of s t - 1) = unat (credits_of s t) - 1" "0 < unat (credits_of s t)"
    using assms(3) by (simp_all add: t_def unat_minus_one unat_gt_0)
  ultimately have "unat (if t' = t then credits_of s t - 1 else credits_of s t') + in_controller m P t' = unat (buffers_of s t')" for t'
    using rr_coreD(7) [OF assms(1), of t'] by (auto simp: m_def assms(2))
  then have "\<forall>t'. unat (if t' = t then credits_of s t - 1 else credits_of s t') + in_controller m P t' = unat (buffers_of s t')"
    by blast
  then show ?thesis using rr_coreD(3-5) [OF assms(1)] dist \<open>fragments_ok m P\<close> assms(4,5)
    by (simp add: rr_core_def m_def [symmetric] t_def [symmetric])
qed

lemma rr_invD:
  assumes "rr_inv s"
  shows "rr_core s" "rr_started s" "rr_enqueue_registered s \<Longrightarrow> pending s \<noteq> {#}"
    "rr_enqueue_registered s \<Longrightarrow> f \<in># pending s \<Longrightarrow> credits_of s (pf_connection_type f) \<noteq> 0"
    "map_of (acl_queue_handlers s) k = Some h \<Longrightarrow> dequeue_is_registered h \<Longrightarrow> pending s = {#}"
    "map_of (acl_queue_handlers s) k = Some h \<Longrightarrow> dequeue_is_registered h \<Longrightarrow> credits_of s (connection_type h) \<noteq> 0"
  using assms by (simp_all add: rr_inv_def rr_registered_def)

lemma rr_inv_quietI:
  assumes "rr_core s" "\<And>k h. map_of (acl_queue_handlers s) k = Some h \<Longrightarrow> \<not> dequeue_is_registered h" "rr_started s"
    "rr_enqueue_registered s \<Longrightarrow> pending s \<noteq> {#} \<and> (\<forall>f \<in># pending s. credits_of s (pf_connection_type f) \<noteq> 0)"
  shows "rr_inv s"
  unfolding rr_inv_def rr_registered_def using assms by blast

lemma rr_started_cong:
  "acl_queue_handlers s' = acl_queue_handlers s \<Longrightarrow> starting_point s' = starting_point s \<Longrightarrow> rr_started s' = rr_started s"
  by (simp only: rr_started_def)

lemma unregistered_inv:
  assumes "rr_core s" "\<And>k h. map_of (acl_queue_handlers s) k = Some h \<Longrightarrow> \<not> dequeue_is_registered h" "rr_started s"
  shows "rr_inv (s\<lparr>rr_enqueue_registered := False, posted_round_robins := n\<rparr>)" (is "rr_inv ?s")
proof (rule rr_inv_quietI)
  show "rr_core ?s" by (rule rr_core_cong [OF assms(1)]) simp_all
  show "rr_started ?s" using assms(3) rr_started_cong [of ?s s] by simp
  show "\<not> dequeue_is_registered h" if "map_of (acl_queue_handlers ?s) k = Some h" for k h using assms(2) that by simp
qed simp

lemma handle_enqueue_next_fragment_inv:
  assumes "rr_inv s" "rr_enqueue_registered s"
  obtains packet s' where "handle_enqueue_next_fragment s = Some (packet, s')" "rr_inv s'" "rr_busy s'"
proof -
  note core = rr_invD(1) [OF assms(1)] and started = rr_invD(2) [OF assms(1)] and ne = rr_invD(3) [OF assms]
    and credit = rr_invD(4) [OF assms]
  have off: "\<not> dequeue_is_registered h" if "map_of (acl_queue_handlers s) k = Some h" for k h
    using rr_invD(5) [OF assms(1) that] ne by blast
  define q where "q = mpq_pop (fragments_to_send s)"
  obtain f where f: "mpq_front (fragments_to_send s) = Some f" "f \<in># pending s" "mpq_wf q" "pending s = add_mset f (mset (items q))"
    using pending_front [OF rr_coreD(2) [OF core] ne] unfolding q_def .
  define t where "t = pf_connection_type f"
  define s1 where "s1 = (with_credits s t (credits_of s t - 1))\<lparr>fragments_to_send := q\<rparr>"
  have core1: "rr_core s1" unfolding s1_def t_def using core f credit by (intro fragment_sent_core) simp_all
  have P1: "pending s1 = mset (items q)" by (simp add: s1_def)
  have type: "pf_connection_type f' = t" if "f' \<in># pending s1" for f'
    using fragments_same_type(2) [OF rr_coreD(6) [OF core], of f' f] f(2,4) that by (simp add: P1 t_def)
  have enq1: "rr_enqueue_registered s1" "acl_queue_handlers s1 = acl_queue_handlers s" "starting_point s1 = starting_point s"
    using assms(2) by (simp_all add: s1_def)
  have started1: "rr_started s1" using started rr_started_cong [OF enq1(2,3)] by simp
  have off1: "\<not> dequeue_is_registered h" if "map_of (acl_queue_handlers s1) k = Some h" for k h using off that enq1(2) by simp
  have quiet: "rr_inv (s1\<lparr>rr_enqueue_registered := False, posted_round_robins := n\<rparr>)" for n
    by (rule unregistered_inv [OF core1 _ started1]) (rule off1)
  have quiet1: "rr_inv (s1\<lparr>rr_enqueue_registered := False\<rparr>)" using quiet [of "posted_round_robins s1"] by simp
  have fs1: "fragments_to_send s1 = q" by (simp add: s1_def)
  have do: "handle_enqueue_next_fragment s =
      (if mpq_empty q then Some (pf_packet f, s1\<lparr>rr_enqueue_registered := False, posted_round_robins := Suc (posted_round_robins s1)\<rparr>)
       else case mpq_front q of None \<Rightarrow> None
            | Some nxt \<Rightarrow> if buffer_full s1 (pf_connection_type nxt) then Some (pf_packet f, s1\<lparr>rr_enqueue_registered := False\<rparr>)
                          else Some (pf_packet f, s1))"
    unfolding handle_enqueue_next_fragment_def f(1) option.case t_def [symmetric]
    unfolding take_credit_eq [OF credit [OF f(2)], folded t_def] option.case Let_def with_credits_simps(4) q_def [symmetric]
    unfolding s1_def [symmetric] fs1 ..
  show thesis
  proof (cases "pending s1 = {#}")
    case True
    then have "mpq_empty q" using mpq_empty_items [OF f(3)] P1 by simp
    moreover have "rr_busy (s1\<lparr>rr_enqueue_registered := False, posted_round_robins := Suc n\<rparr>)" for n using True by (simp add: rr_busy_def)
    ultimately show thesis using do that quiet by simp
  next
    case False
    then obtain g where g: "mpq_front q = Some g" "g \<in># pending s1"
      using pending_front [of s1] f(3) by (auto simp: s1_def)
    have ne: "\<not> mpq_empty q" using False mpq_empty_items [OF f(3)] P1 by simp
    show thesis
    proof (cases "credits_of s1 t = 0")
      case True
      then have "rr_busy (s1\<lparr>rr_enqueue_registered := False\<rparr>)" using g(2) type [OF g(2)] by (auto simp: rr_busy_def)
      then show thesis using True do that ne g type quiet1 by (simp add: buffer_full_credits)
    next
      case full: False
      have "\<forall>f' \<in># pending s1. credits_of s1 (pf_connection_type f') \<noteq> 0" using full type by simp
      then have "rr_inv s1" using False by (intro rr_inv_quietI [OF core1 _ started1] conjI) (rule off1)
      moreover have "rr_busy s1" using enq1(1) False by (simp add: rr_busy_def)
      ultimately show thesis using do that ne g type full by (simp add: buffer_full_credits)
    qed
  qed
qed

section \<open>Completed packets\<close>

lemma incoming_acl_credits_eq:
  assumes "map_of (acl_queue_handlers s) k = Some h" "c \<le> number_of_sent_packets h"
    "\<not> buffers_of s (connection_type h) < credits_of s (connection_type h) + c"
  shows "incoming_acl_credits k c s =
    (let s1 = with_credits (s\<lparr>acl_queue_handlers := map_modify k (\<lambda>h'. h'\<lparr>number_of_sent_packets := number_of_sent_packets h - c\<rparr>) (acl_queue_handlers s)\<rparr>)
                (connection_type h) (credits_of s (connection_type h) + c)
     in if credits_of s (connection_type h) = 0 then start_round_robin s1 else Some s1)"
  using assms by (cases "connection_type h") (auto simp: incoming_acl_credits_def with_credits_def credits_of_def buffers_of_def Let_def)

lemma completed_inv:
  assumes "rr_inv s" "map_of (acl_queue_handlers s) k = Some h" "unat c + size (of_handle k (pending s)) \<le> unat (number_of_sent_packets h)"
  shows "rr_inv (with_credits (s\<lparr>acl_queue_handlers := map_modify k (\<lambda>h'. h'\<lparr>number_of_sent_packets := number_of_sent_packets h - c\<rparr>) (acl_queue_handlers s)\<rparr>)
                (connection_type h) (credits_of s (connection_type h) + c))" (is "rr_inv ?s")
    and "\<not> buffers_of s (connection_type h) < credits_of s (connection_type h) + c"
    and "credits_of s t' \<noteq> 0 \<Longrightarrow> credits_of (with_credits s (connection_type h) (credits_of s (connection_type h) + c)) t' \<noteq> 0"
proof -
  define upd where "upd = (\<lambda>h' :: acl_queue_handler. h'\<lparr>number_of_sent_packets := number_of_sent_packets h - c\<rparr>)"
  define m where "m = acl_queue_handlers s"
  define P where "P = pending s"
  define t where "t = connection_type h"
  have core: "rr_core s" by (rule rr_invD(1) [OF assms(1)])
  have dist: "distinct (map fst m)" unfolding m_def by (rule rr_coreD(1) [OF core])
  have ok: "fragments_ok m P" unfolding m_def P_def by (rule rr_coreD(6) [OF core])
  have k: "map_of m k = Some h" using assms(2) by (simp add: m_def)
  have le: "c \<le> number_of_sent_packets h" using assms(3) by (simp add: word_le_nat_alt)
  have sub: "unat (number_of_sent_packets h - c) = unat (number_of_sent_packets h) - unat c" using le by (rule unat_sub)
  have bal: "unat (credits_of s t') + (outstanding P t' (k, h) + in_controller (map_erase k m) P t') = unat (buffers_of s t')" for t'
    using rr_coreD(7) [OF core, of t'] in_controller_at [OF dist k, of P t'] by (simp add: m_def P_def)
  have out: "outstanding P t' (k, h) = outstanding P t' (k, upd h) + (if t' = t then unat c else 0)" for t'
    using sub assms(3) by (simp add: outstanding_def upd_def t_def P_def)
  have sum: "unat (credits_of s t + c) = unat (credits_of s t) + unat c"
    using bal [of t] out [of t]
    by (intro unat_add_no_wrap [of _ _ "outstanding P t (k, upd h) + in_controller (map_erase k m) P t" "buffers_of s t"]) simp
  show "\<not> buffers_of s (connection_type h) < credits_of s (connection_type h) + c"
    using sum bal [of t] out [of t] by (simp add: word_less_nat_alt t_def)
  have "fragments_ok (map_modify k upd m) P"
  proof (rule fragments_okI)
    fix f assume f: "f \<in># P"
    show "pf_priority f < 2" by (rule fragments_okD(1) [OF ok f])
    show "\<exists>h. map_of (map_modify k upd m) (pf_handle f) = Some h \<and> connection_type h = pf_connection_type f"
      using fragments_okD(2) [OF ok f] by (auto simp: map_modify_map_of upd_def)
  next
    fix f g assume "f \<in># P" "g \<in># P"
    then show "pf_handle f = pf_handle g" by (rule fragments_same_type(1) [OF ok])
  next
    fix k' h' assume "map_of (map_modify k upd m) k' = Some h'"
    then show "size (of_handle k' P) \<le> unat (number_of_sent_packets h')"
      using fragments_okD(3) [OF ok, of k' h'] sub assms(3) k by (auto simp: map_modify_map_of upd_def P_def split: if_splits)
  qed
  moreover have "unat (credits_of ?s t') + in_controller (map_modify k upd m) P t' = unat (buffers_of s t')" for t'
    using bal [of t'] out [of t'] sum unfolding in_controller_modify [OF dist k] t_def by (cases "t' = connection_type h") simp_all
  ultimately have core': "rr_core ?s" using rr_coreD(2-5) [OF core] dist unfolding rr_core_def
    by (simp only: with_credits_simps state_simps m_def [symmetric] P_def [symmetric] upd_def [symmetric]) simp
  have more: "credits_of ?s t' \<noteq> 0" if "credits_of s t' \<noteq> 0" for t'
    using that sum by (auto simp: t_def unat_eq_zero [symmetric])
  have "rr_registered ?s" unfolding rr_registered_def
  proof (intro conjI allI impI)
    fix k' h' assume "map_of (acl_queue_handlers ?s) k' = Some h'" "dequeue_is_registered h'"
    then obtain h0 where "map_of (acl_queue_handlers s) k' = Some h0" "dequeue_is_registered h0" "connection_type h' = connection_type h0"
      by (auto simp: map_modify_map_of split: if_splits)
    then show "pending ?s = {#}" "credits_of ?s (connection_type h') \<noteq> 0"
      using rr_invD(5,6) [OF assms(1)] more by simp_all
  next
    assume "rr_enqueue_registered ?s"
    then have e: "rr_enqueue_registered s" by simp
    show "pending ?s \<noteq> {#}" using rr_invD(3) [OF assms(1) e] by simp
    show "\<forall>f \<in># pending ?s. credits_of ?s (pf_connection_type f) \<noteq> 0" using rr_invD(4) [OF assms(1) e] more by simp
  qed
  moreover have "rr_started ?s"
    using rr_invD(2) [OF assms(1)] by (auto simp: rr_started_def map_modify_map_of split: map_iterator.splits) (simp add: map_modify_def)
  ultimately show "rr_inv ?s" using core' by (simp add: rr_inv_def)
  show "credits_of (with_credits s (connection_type h) (credits_of s (connection_type h) + c)) t' \<noteq> 0" if "credits_of s t' \<noteq> 0"
    using more [OF that] by (cases "t' = connection_type h") simp_all
qed

lemma completed_busy:
  assumes "rr_busy s" "credits_of s t \<noteq> 0" "map_of (acl_queue_handlers s) k = Some h" "connection_type h = t"
  shows "rr_busy (with_credits (s\<lparr>acl_queue_handlers := map_modify k (\<lambda>h'. h'\<lparr>number_of_sent_packets := n\<rparr>) (acl_queue_handlers s)\<rparr>) t c)"
    (is "rr_busy ?s")
proof -
  have "rr_enqueue_registered s \<or> (\<exists>f \<in># pending s. credits_of ?s (pf_connection_type f) = 0)" if "pending s \<noteq> {#}"
    using assms(1,2) that unfolding rr_busy_def by (metis state_simps(1) with_credits_simps(1))
  moreover have "0 < posted_round_robins s
         \<or> (\<forall>k h. map_of (acl_queue_handlers ?s) k = Some h \<longrightarrow> credits_of ?s (connection_type h) \<noteq> 0 \<longrightarrow> dequeue_is_registered h)"
    if "pending s = {#}"
    using assms that unfolding rr_busy_def by (auto simp: map_modify_map_of split: if_splits)
  ultimately show ?thesis by (simp add: rr_busy_def)
qed

lemma incoming_acl_credits_inv:
  assumes "rr_inv s" "rr_enabled (Completed k c) s"
  obtains s' where "incoming_acl_credits k c s = Some s'" "rr_inv s'" "rr_busy s \<Longrightarrow> rr_busy s'"
proof (cases "map_of (acl_queue_handlers s) k")
  case None
  then show ?thesis using that assms(1) by (simp add: incoming_acl_credits_def)
next
  case (Some h)
  have room: "unat c + size (of_handle k (pending s)) \<le> unat (number_of_sent_packets h)" using assms(2) Some by simp
  note inv = completed_inv [OF assms(1) Some room]
  define s1 where "s1 = with_credits (s\<lparr>acl_queue_handlers := map_modify k (\<lambda>h'. h'\<lparr>number_of_sent_packets := number_of_sent_packets h - c\<rparr>) (acl_queue_handlers s)\<rparr>)
                (connection_type h) (credits_of s (connection_type h) + c)"
  have inv1: "rr_inv s1" unfolding s1_def by (rule inv(1))
  have "c \<le> number_of_sent_packets h" using room by (simp add: word_le_nat_alt)
  from incoming_acl_credits_eq [OF Some this inv(2), folded s1_def]
  have "incoming_acl_credits k c s = (if credits_of s (connection_type h) = 0 then start_round_robin s1 else Some s1)" by (simp add: Let_def)
  moreover obtain x where "start_round_robin s1 = Some (restarted s1 x)" "rr_inv (restarted s1 x)"
    using start_round_robin_inv [OF rr_invD(1) [OF inv1]] inv1 by (auto simp: rr_inv_def)
  moreover have "rr_busy s1" if "rr_busy s" "credits_of s (connection_type h) \<noteq> 0"
    unfolding s1_def using that Some by (intro completed_busy) simp_all
  ultimately show ?thesis using that inv1 restarted_busy by (cases "credits_of s (connection_type h) = 0") auto
qed

section \<open>Every step\<close>

lemma rr_inv_new:
  assumes "num_acl_packet_buffers c \<noteq> 0 \<or> total_num_le_packets c \<noteq> 0" "0 < acl_packet_length c" "0 < le_data_packet_length c"
  shows "rr_inv (new_RoundRobinScheduler c)" (is "rr_inv ?s")
proof -
  have "\<exists>t. buffers_of ?s t \<noteq> 0"
    using assms(1) by (metis ConnectionType.simps(3,4) buffers_of_def new_RoundRobinScheduler_def round_robin.select_convs(3,5))
  moreover have "pending ?s = {#}" by (simp add: new_RoundRobinScheduler_def pending_def mpq_new)
  moreover have "credits_of ?s t = buffers_of ?s t" for t
    by (cases t) (simp_all add: new_RoundRobinScheduler_def credits_of_def buffers_of_def)
  ultimately show ?thesis using assms(2,3)
    by (simp add: rr_inv_def rr_core_def rr_registered_def rr_started_def fragments_ok_def in_controller_def)
      (simp add: new_RoundRobinScheduler_def mpq_new)
qed

lemma rr_do_inv:
  assumes "rr_inv s" "rr_enabled a s"
  obtains s' where "rr_do a s = Some s'" "rr_inv s'" "rr_busy s \<Longrightarrow> \<forall>k. a \<noteq> Disconnect k \<Longrightarrow> rr_busy s'"
proof (cases a)
  case (Connect t k queue)
  then show ?thesis using Register_inv [of s k t queue] assms that by auto
next
  case (Disconnect k)
  then show ?thesis using Unregister_inv [OF assms(1)] assms(2) that by auto
next
  case (Prioritize k hp)
  then show ?thesis using SetLinkPriority_inv [of s] assms(1) that by simp
next
  case (Produce k packet)
  have "rr_inv (s\<lparr>acl_queue_handlers := map_modify k (\<lambda>h. h\<lparr>handler_queue := handler_queue h @ [packet]\<rparr>) (acl_queue_handlers s)\<rparr>)"
    by (rule modify_inv [OF assms(1)]) simp_all
  then show ?thesis using that Produce modify_busy [of s] by simp
next
  case (DequeueReady k)
  then show ?thesis using buffer_packet_inv [OF assms(1), of k] assms(2) that by auto
next
  case EnqueueReady
  then have "rr_enqueue_registered s" using assms(2) by simp
  from handle_enqueue_next_fragment_inv [OF assms(1) this] show ?thesis using that EnqueueReady by (metis option.simps(9) rr_do.simps(6) snd_conv)
next
  case RunPosted
  have core: "rr_core (s\<lparr>posted_round_robins := n\<rparr>)" for n by (rule rr_core_cong [OF rr_invD(1) [OF assms(1)]]) simp_all
  have "rr_registered (s\<lparr>posted_round_robins := n\<rparr>)" "rr_started (s\<lparr>posted_round_robins := n\<rparr>)" for n
    using assms(1) rr_started_cong [of "s\<lparr>posted_round_robins := n\<rparr>" s] by (simp_all add: rr_inv_def rr_registered_def)
  from start_round_robin_inv [OF core this(1)] this(2) show ?thesis using that RunPosted restarted_busy by (metis rr_do.simps(7))
next
  case (Completed k c)
  then show ?thesis using incoming_acl_credits_inv [OF assms(1), of k c] assms(2) that by auto
qed

lemma reachable_inv:
  assumes "rr_reachable c s" "num_acl_packet_buffers c \<noteq> 0 \<or> total_num_le_packets c \<noteq> 0"
    "0 < acl_packet_length c" "0 < le_data_packet_length c"
  shows "rr_inv s"
  using assms(1)
proof induction
  case start
  show ?case by (rule rr_inv_new [OF assms(2-4)])
next
  case (step s s')
  then show ?case using rr_do_inv by (metis option.inject rr_stepE)
qed

text \<open>A run of given actions, each one possible when it happens.\<close>

fun rr_run :: "rr_action list \<Rightarrow> round_robin \<Rightarrow> round_robin option" where
  "rr_run [] s = Some s"
| "rr_run (a # as) s = (if rr_enabled a s then Option.bind (rr_do a s) (rr_run as) else None)"

fun keeps_connections :: "rr_action \<Rightarrow> bool" where
  "keeps_connections (Connect t k queue) = False"
| "keeps_connections (Disconnect k) = False"
| "keeps_connections _ = True"

lemma rr_run_inv:
  assumes "rr_inv s" "rr_run as s = Some s'"
  shows "rr_inv s'"
  using assms
proof (induction as arbitrary: s)
  case (Cons a as)
  from Cons.prems(2) obtain s1 where "rr_enabled a s" "rr_do a s = Some s1" "rr_run as s1 = Some s'"
    by (auto split: if_splits bind_splits)
  then show ?case using rr_do_inv [OF Cons.prems(1), of a] Cons.IH by (metis option.inject)
qed simp

lemma rr_run_busy:
  assumes "rr_inv s" "rr_busy s" "rr_run as s = Some s'" "\<forall>k. Disconnect k \<notin> set as"
  shows "rr_busy s'"
  using assms
proof (induction as arbitrary: s)
  case (Cons a as)
  from Cons.prems(3) obtain s1 where s1: "rr_enabled a s" "rr_do a s = Some s1" "rr_run as s1 = Some s'"
    by (auto split: if_splits bind_splits)
  have "\<forall>k. a \<noteq> Disconnect k" using Cons.prems(4) by auto
  then have "rr_inv s1" "rr_busy s1" using rr_do_inv [OF Cons.prems(1) s1(1)] s1(2) Cons.prems(2) by (metis option.inject)+
  then show ?case using Cons.IH s1(3) Cons.prems(4) by simp
qed simp

section \<open>Stalled schedulers\<close>

text \<open>Free buffers and nothing to send, yet no connection is asked for packets and no round is posted.\<close>

definition rr_stalled :: "round_robin \<Rightarrow> bool" where
  "rr_stalled s \<longleftrightarrow>
     pending s = {#} \<and> \<not> rr_enqueue_registered s \<and> posted_round_robins s = 0
     \<and> (\<forall>k h. map_of (acl_queue_handlers s) k = Some h \<longrightarrow> \<not> dequeue_is_registered h) \<and> (\<forall>t. credits_of s t \<noteq> 0)"

end
