(* ===== verification/Round_Robin_Properties.thy ===== *)
theory Round_Robin_Properties
  imports Round_Robin_Steps
begin

text \<open>
  What the round-robin scheduler guarantees: its credit accounting, when its assertions fail, that it asks for packets according
  to its credits while the connections stay, and how a disconnection stalls the other connections.
\<close>

section \<open>Lemmas\<close>

lemma new_RoundRobinScheduler_busy:
  "rr_busy (new_RoundRobinScheduler c)"
  by (simp add: rr_busy_def new_RoundRobinScheduler_def pending_def mpq_new)

lemma disconnect_stalls:
  assumes "rr_inv s" "f \<in># pending s" "\<And>t. credits_of s t \<noteq> 0" "posted_round_robins s = 0" "Unregister (pf_handle f) s = Some s'"
  shows "rr_stalled s'"
proof -
  define k where "k = pf_handle f"
  have ok: "fragments_ok (acl_queue_handlers s) (pending s)" by (rule rr_coreD(6) [OF rr_invD(1) [OF assms(1)]])
  obtain h where h: "map_of (acl_queue_handlers s) k = Some h" using fragments_okD(2) [OF ok assms(2)] by (auto simp: k_def)
  obtain n e q where u: "Unregister k s = (if 0 < n \<and> credits_of s (connection_type h) = 0 then start_round_robin (unregistered k (connection_type h) n e q s)
                       else Some (unregistered k (connection_type h) n e q s))"
    and q: "mset (items q) = filter_mset (\<lambda>f. pf_handle f \<noteq> k) (pending s)" "e \<longrightarrow> mset (items q) \<noteq> {#}"
    and "rr_inv (unregistered k (connection_type h) n e q s)"
    and more: "\<forall>t. credits_of s t \<noteq> 0 \<longrightarrow> credits_of (unregistered k (connection_type h) n e q s) t \<noteq> 0"
    using Unregister_eq [OF assms(1) h] .
  have s': "s' = unregistered k (connection_type h) n e q s" using u assms(3,5) by (simp add: k_def)
  have "\<forall>g \<in># pending s. pf_handle g = k" using fragments_same_type(1) [OF ok _ assms(2)] by (simp add: k_def)
  then have none: "mset (items q) = {#}" unfolding q(1) by (induction "pending s") auto
  then have "\<not> e" using q(2) by blast
  have reg: "\<not> dequeue_is_registered h'" if "map_of (acl_queue_handlers s) k' = Some h'" for k' h'
    using rr_invD(5) [OF assms(1) that] assms(2) by auto
  have "pending s' = {#}" "\<not> rr_enqueue_registered s'" "posted_round_robins s' = 0"
    "\<And>k' h'. map_of (acl_queue_handlers s') k' = Some h' \<Longrightarrow> \<not> dequeue_is_registered h'"
    using none \<open>\<not> e\<close> reg assms(4) by (auto simp: s' unregistered_def map_erase_map_of split: if_splits)
  then show ?thesis unfolding rr_stalled_def using more assms(3) s' by blast
qed

lemma stalled_step:
  assumes "rr_inv s" "rr_stalled s" "rr_enabled a s" "keeps_connections a" "rr_do a s = Some s'"
  shows "rr_stalled s'"
proof (cases a)
  case (Completed k c)
  show ?thesis
  proof (cases "map_of (acl_queue_handlers s) k")
    case None
    then show ?thesis using assms(2,5) Completed by (simp add: incoming_acl_credits_def)
  next
    case (Some h)
    have room: "unat c + size (of_handle k (pending s)) \<le> unat (number_of_sent_packets h)" using assms(3) Some Completed by simp
    have le: "c \<le> number_of_sent_packets h" using room by (simp add: word_le_nat_alt)
    have zero: "credits_of s t \<noteq> 0" for t using assms(2) by (simp add: rr_stalled_def)
    have s': "s' = with_credits (s\<lparr>acl_queue_handlers := map_modify k (\<lambda>h'. h'\<lparr>number_of_sent_packets := number_of_sent_packets h - c\<rparr>) (acl_queue_handlers s)\<rparr>)
        (connection_type h) (credits_of s (connection_type h) + c)"
      using incoming_acl_credits_eq [OF Some le completed_inv(2) [OF assms(1) Some room]] assms(5) Completed zero by (simp add: Let_def)
    have "credits_of s' t \<noteq> 0" for t using completed_inv(3) [OF assms(1) Some room zero, of t] by (cases "t = connection_type h") (simp_all add: s')
    then show ?thesis using assms(2) unfolding rr_stalled_def by (auto simp: s' map_modify_map_of split: if_splits)
  qed
next
  case (Prioritize k hp)
  then show ?thesis using assms(2,5) by (auto simp: rr_stalled_def SetLinkPriority_def map_modify_map_of split: if_splits)
next
  case (Produce k packet)
  then show ?thesis using assms(2,5) by (auto simp: rr_stalled_def map_modify_map_of split: if_splits)
qed (use assms in \<open>auto simp: rr_stalled_def split: option.splits\<close>)

lemma stalled_run:
  assumes "rr_inv s" "rr_stalled s" "list_all keeps_connections as" "rr_run as s = Some s'"
  shows "rr_stalled s'"
  using assms
proof (induction as arbitrary: s)
  case (Cons a as)
  from Cons.prems(4) obtain s1 where s1: "rr_enabled a s" "rr_do a s = Some s1" "rr_run as s1 = Some s'"
    by (auto split: if_splits bind_splits)
  have "rr_stalled s1" using stalled_step [OF Cons.prems(1,2) s1(1) _ s1(2)] Cons.prems(3) by simp
  moreover have "rr_inv s1" using rr_do_inv [OF Cons.prems(1) s1(1)] s1(2) by (metis option.inject)
  ultimately show ?case using Cons.IH s1(3) Cons.prems(3) by simp
qed simp

text \<open>A controller with four buffers of each kind, and a packet that takes two of them.\<close>

definition demo_buffers :: controller_buffers where
  "demo_buffers = \<lparr>num_acl_packet_buffers = 4, acl_packet_length = 4, total_num_le_packets = 4, le_data_packet_length = 4\<rparr>"

definition demo_packet :: outgoing_packet where
  "demo_packet = \<lparr>op_bytes = [2, 0, 64, 0, 1, 2], IsFlushable = True\<rparr>"

lemma rr_run_reachable:
  "rr_run as (new_RoundRobinScheduler c) = Some s \<Longrightarrow> rr_reachable c s"
proof -
  have "rr_reachable c s0 \<Longrightarrow> rr_run as s0 = Some s \<Longrightarrow> rr_reachable c s" for s0
  proof (induction as arbitrary: s0)
    case (Cons a as)
    from Cons.prems(2) obtain s1 where s1: "rr_enabled a s0" "rr_do a s0 = Some s1" "rr_run as s1 = Some s"
      by (auto split: if_splits bind_splits)
    show ?case by (rule Cons.IH [OF rr_reachable.step [OF Cons.prems(1) rr_step.act [OF s1(1,2)]] s1(3)])
  qed simp
  from this [OF rr_reachable.start] show "rr_run as (new_RoundRobinScheduler c) = Some s \<Longrightarrow> rr_reachable c s" .
qed

section \<open>Failed assertions\<close>

text \<open>What makes the scheduler abort: to register a handle twice, to unregister one that is unknown, to call the callback of a
  connection whose queue is empty, and to call the callback of the HCI queue when nothing waits or there is no credit.\<close>

fun aborts :: "rr_action \<Rightarrow> round_robin \<Rightarrow> bool" where
  "aborts (Connect t k queue) s \<longleftrightarrow> IsRegistered k s"
| "aborts (Disconnect k) s \<longleftrightarrow> \<not> IsRegistered k s"
| "aborts (DequeueReady k) s \<longleftrightarrow> (case map_of (acl_queue_handlers s) k of None \<Rightarrow> False | Some h \<Rightarrow> handler_queue h = [])"
| "aborts EnqueueReady s \<longleftrightarrow> pending s = {#} \<or> (\<exists>f \<in># pending s. credits_of s (pf_connection_type f) = 0)"
| "aborts _ s \<longleftrightarrow> False"

lemma start_round_robin_total:
  assumes "mpq_wf (fragments_to_send s)" "rr_started s"
  shows "start_round_robin s \<noteq> None"
proof -
  have front: "mpq_empty (fragments_to_send s) \<or> (\<exists>f. mpq_front (fragments_to_send s) = Some f)"
    using mpq_front_items [OF assms(1)] mpq_empty_items [OF assms(1)] by (auto split: list.splits)
  have start: "\<exists>k i. (if length (acl_queue_handlers s) = 1 \<or> starting_point s = End then map_begin (acl_queue_handlers s) else starting_point s) = At k
      \<and> index_of k (acl_queue_handlers s) = Some i" if ne: "acl_queue_handlers s \<noteq> []"
  proof (cases "length (acl_queue_handlers s) = 1 \<or> starting_point s = End")
    case True
    then show ?thesis using ne by (cases "acl_queue_handlers s") (auto simp: map_begin_def)
  next
    case False
    then obtain k where "starting_point s = At k" "map_of (acl_queue_handlers s) k \<noteq> None"
      using assms(2) ne by (auto simp: rr_started_def split: map_iterator.splits)
    then show ?thesis using index_of_map_of [of "acl_queue_handlers s" k] False by auto
  qed
  show ?thesis
  proof (cases "acl_queue_handlers s = []")
    case True
    then show ?thesis using front by (auto simp: start_round_robin_def)
  next
    case False
    then obtain k i where "(if length (acl_queue_handlers s) = 1 \<or> starting_point s = End then map_begin (acl_queue_handlers s) else starting_point s) = At k"
      "index_of k (acl_queue_handlers s) = Some i" using start by blast
    then show ?thesis using front unfolding start_round_robin_def Let_def by auto
  qed
qed

lemma incoming_acl_credits_total:
  assumes "rr_inv s"
  shows "incoming_acl_credits k c s \<noteq> None"
proof (cases "map_of (acl_queue_handlers s) k")
  case None
  then show ?thesis by (simp add: incoming_acl_credits_def)
next
  case (Some h)
  define g where "g = (\<lambda>h :: acl_queue_handler. h\<lparr>number_of_sent_packets :=
    (if c \<le> number_of_sent_packets (the (map_of (acl_queue_handlers s) k)) then number_of_sent_packets (the (map_of (acl_queue_handlers s) k)) - c else 0)\<rparr>)"
  have "rr_started (s\<lparr>acl_queue_handlers := map_modify k g (acl_queue_handlers s)\<rparr>)"
    using rr_invD(2) [OF assms] by (auto simp: rr_started_def map_modify_map_of split: map_iterator.splits) (simp add: map_modify_def)
  then have *: "start_round_robin (with_credits (s\<lparr>acl_queue_handlers := map_modify k g (acl_queue_handlers s)\<rparr>) t n) \<noteq> None" for t n
    using rr_coreD(2) [OF rr_invD(1) [OF assms]] rr_started_cong [of "with_credits s' t n" s' for s']
    by (intro start_round_robin_total) simp_all
  show ?thesis
    using * [of CLASSIC] * [of LE] Some
    by (cases "connection_type h") (auto simp: incoming_acl_credits_def Let_def with_credits_def g_def)
qed

lemma buffer_packet_total:
  assumes "rr_inv s" "map_of (acl_queue_handlers s) k = Some h" "handler_queue h = packet # rest"
  shows "buffer_packet k s \<noteq> None"
proof -
  define mtu where "mtu = (if connection_type h = CLASSIC then hci_mtu s else le_hci_mtu s)"
  define prio :: nat where "prio = (if high_priority h then 1 else 0)"
  have core: "rr_core s" by (rule rr_invD(1) [OF assms(1)])
  have mtu: "0 < mtu" using rr_coreD(3,4) [OF core] by (simp add: mtu_def)
  obtain fs where fs: "packet_fragments mtu (op_bytes packet) = Some fs" "fs \<noteq> []"
    using packet_fragments_some [OF mtu] by metis
  have prio: "prio < 2" by (simp add: prio_def)
  have "0 < mpq_size (push_fragments mk prio flag fs (fragments_to_send s))" for mk flag
  proof -
    obtain g where g: "mpq_wf (push_fragments mk prio flag fs (fragments_to_send s))" "size g = length fs"
      "mset (items (push_fragments mk prio flag fs (fragments_to_send s))) = mset (items (fragments_to_send s)) + g"
      using push_fragments_mset [OF rr_coreD(2) [OF core] prio, of mk flag fs] by blast
    have "length (items (push_fragments mk prio flag fs (fragments_to_send s))) = length (items (fragments_to_send s)) + size g"
      using g(3) by (metis size_mset size_union)
    then show ?thesis using fs(2) g(2) mpq_size_items [OF g(1)] by simp
  qed
  then show ?thesis
    unfolding buffer_packet_def assms(2) option.case assms(3) list.case Let_def mtu_def [symmetric] prio_def [symmetric]
      packet_fragments_def [symmetric] fs(1) by simp
qed

lemma handle_enqueue_next_fragment_fails:
  assumes "rr_inv s"
  shows "handle_enqueue_next_fragment s = None \<longleftrightarrow> pending s = {#} \<or> (\<exists>f \<in># pending s. credits_of s (pf_connection_type f) = 0)"
proof (cases "pending s = {#}")
  case True
  then have "mpq_front (fragments_to_send s) = None"
    using mpq_front_items [OF rr_coreD(2) [OF rr_invD(1) [OF assms]]] by (simp add: pending_def)
  then show ?thesis using True by (simp add: handle_enqueue_next_fragment_def)
next
  case False
  note core = rr_invD(1) [OF assms]
  obtain f where f: "mpq_front (fragments_to_send s) = Some f" "f \<in># pending s" "mpq_wf (mpq_pop (fragments_to_send s))"
    using pending_front [OF rr_coreD(2) [OF core] False] .
  have type: "pf_connection_type g = pf_connection_type f" if "g \<in># pending s" for g
    by (rule fragments_same_type(2) [OF rr_coreD(6) [OF core] that f(2)])
  have nxt: "mpq_empty (mpq_pop (fragments_to_send s)) \<or> (\<exists>g. mpq_front (mpq_pop (fragments_to_send s)) = Some g)"
    using mpq_front_items [OF f(3)] mpq_empty_items [OF f(3)] by (auto split: list.splits)
  show ?thesis
  proof (cases "credits_of s (pf_connection_type f) = 0")
    case True
    then have "take_credit (pf_connection_type f) s = None" by (cases "pf_connection_type f") (auto simp: take_credit_def credits_of_def)
    then show ?thesis using True f by (auto simp: handle_enqueue_next_fragment_def)
  next
    case credit: False
    have "handle_enqueue_next_fragment s \<noteq> None"
      using nxt by (auto simp: handle_enqueue_next_fragment_def f(1) take_credit_eq [OF credit] Let_def split: option.splits)
    moreover have "\<not> (\<exists>g \<in># pending s. credits_of s (pf_connection_type g) = 0)" using type credit by auto
    ultimately show ?thesis using False by blast
  qed
qed

lemma rr_do_aborts:
  assumes "rr_inv s"
  shows "rr_do a s = None \<longleftrightarrow> aborts a s"
proof (cases a)
  case (Connect t k queue)
  have "Register t k queue s \<noteq> None" if "map_of (acl_queue_handlers s) k = None"
    using Register_inv [OF assms that, of t queue] by (metis option.distinct(1))
  then show ?thesis using Connect by (auto simp: IsRegistered_def Register_def)
next
  case (Disconnect k)
  have "Unregister k s \<noteq> None" if "map_of (acl_queue_handlers s) k \<noteq> None"
    using rr_do_inv [OF assms, of "Disconnect k"] that by (metis option.distinct(1) rr_do.simps(2) rr_enabled.simps(2))
  then show ?thesis using Disconnect by (auto simp: IsRegistered_def Unregister_def)
next
  case (DequeueReady k)
  show ?thesis
  proof (cases "map_of (acl_queue_handlers s) k")
    case None
    then show ?thesis using DequeueReady by (simp add: buffer_packet_def)
  next
    case (Some h)
    then show ?thesis using DequeueReady buffer_packet_total [OF assms Some] by (cases "handler_queue h") (auto simp: buffer_packet_def)
  qed
next
  case EnqueueReady
  then show ?thesis using handle_enqueue_next_fragment_fails [OF assms] by simp
next
  case RunPosted
  have "start_round_robin (s\<lparr>posted_round_robins := posted_round_robins s - 1\<rparr>) \<noteq> None"
    using rr_coreD(2) [OF rr_invD(1) [OF assms]] rr_invD(2) [OF assms]
      rr_started_cong [of "s\<lparr>posted_round_robins := posted_round_robins s - 1\<rparr>" s] by (intro start_round_robin_total) simp_all
  then show ?thesis using RunPosted by simp
next
  case (Completed k c)
  then show ?thesis using incoming_acl_credits_total [OF assms] by simp
qed simp_all

lemma busy_registrations:
  assumes "rr_inv s" "rr_busy s"
  shows "f \<in># pending s \<Longrightarrow> rr_enqueue_registered s \<longleftrightarrow> credits_of s (pf_connection_type f) \<noteq> 0"
    "pending s = {#} \<Longrightarrow> posted_round_robins s = 0 \<Longrightarrow> map_of (acl_queue_handlers s) k = Some h
      \<Longrightarrow> dequeue_is_registered h \<longleftrightarrow> credits_of s (connection_type h) \<noteq> 0"
proof -
  show "rr_enqueue_registered s \<longleftrightarrow> credits_of s (pf_connection_type f) \<noteq> 0" if f: "f \<in># pending s"
  proof
    show "credits_of s (pf_connection_type f) \<noteq> 0" if "rr_enqueue_registered s" by (rule rr_invD(4) [OF assms(1) that f])
  next
    assume free: "credits_of s (pf_connection_type f) \<noteq> 0"
    have "pending s \<noteq> {#}" using f by auto
    then have "rr_enqueue_registered s \<or> (\<exists>g \<in># pending s. credits_of s (pf_connection_type g) = 0)" using assms(2) by (simp add: rr_busy_def)
    moreover have "credits_of s (pf_connection_type g) \<noteq> 0" if "g \<in># pending s" for g
      using fragments_same_type(2) [OF rr_coreD(6) [OF rr_invD(1) [OF assms(1)]] that f] free by simp
    ultimately show "rr_enqueue_registered s" by blast
  qed
  show "dequeue_is_registered h \<longleftrightarrow> credits_of s (connection_type h) \<noteq> 0"
    if "pending s = {#}" "posted_round_robins s = 0" "map_of (acl_queue_handlers s) k = Some h"
    using rr_invD(6) [OF assms(1) that(3)] assms(2) that unfolding rr_busy_def by auto
qed

section \<open>Properties\<close>

text \<open>C3: in every state that registrations, the callbacks of the reactor, posted rounds and completion reports of the controller
  lead to, the free buffers and the packets in the controller add up to the buffers of the controller, for classic and LE
  apart. A connection is only asked for packets when nothing is being sent and it has a credit, and the HCI queue is only
  served while every fragment that waits has a credit.\<close>

theorem credit_accounting:
  assumes "rr_reachable c s" "num_acl_packet_buffers c \<noteq> 0 \<or> total_num_le_packets c \<noteq> 0"
    "0 < acl_packet_length c" "0 < le_data_packet_length c"
  shows "unat (credits_of s t) + in_controller (acl_queue_handlers s) (pending s) t = unat (buffers_of s t)
    \<and> (\<forall>k h. map_of (acl_queue_handlers s) k = Some h \<longrightarrow> dequeue_is_registered h
          \<longrightarrow> pending s = {#} \<and> credits_of s (connection_type h) \<noteq> 0)
    \<and> (rr_enqueue_registered s \<longrightarrow> pending s \<noteq> {#} \<and> (\<forall>f \<in># pending s. credits_of s (pf_connection_type f) \<noteq> 0))"
proof -
  have inv: "rr_inv s" by (rule reachable_inv [OF assms])
  have "rr_registered s" using inv by (simp add: rr_inv_def)
  then show ?thesis using rr_coreD(7) [OF rr_invD(1) [OF inv]] unfolding rr_registered_def by blast
qed

theorem credit_accounting_witness:
  "\<exists>s. rr_run [Connect CLASSIC 1 [demo_packet], DequeueReady 1, EnqueueReady] (new_RoundRobinScheduler demo_buffers) = Some s
     \<and> unat (credits_of s CLASSIC) + in_controller (acl_queue_handlers s) (pending s) CLASSIC = unat (buffers_of s CLASSIC)
     \<and> credits_of s CLASSIC = 3"
proof -
  have "map_option acl_packet_credits (rr_run [Connect CLASSIC 1 [demo_packet], DequeueReady 1, EnqueueReady] (new_RoundRobinScheduler demo_buffers)) = Some 3"
    by code_simp
  then obtain s where s: "rr_run [Connect CLASSIC 1 [demo_packet], DequeueReady 1, EnqueueReady] (new_RoundRobinScheduler demo_buffers) = Some s"
    "acl_packet_credits s = 3" by (cases "rr_run [Connect CLASSIC 1 [demo_packet], DequeueReady 1, EnqueueReady] (new_RoundRobinScheduler demo_buffers)") simp_all
  have "unat (credits_of s CLASSIC) + in_controller (acl_queue_handlers s) (pending s) CLASSIC = unat (buffers_of s CLASSIC)"
    using credit_accounting [OF rr_run_reachable [OF s(1)], of CLASSIC] by (simp add: demo_buffers_def)
  then show ?thesis using s by (auto simp: credits_of_def)
qed

text \<open>C19: in every such state an operation or a callback fails an assertion, reads from an empty queue or uses an iterator that
  points nowhere exactly in these cases: a handle is registered twice, a handle that is not registered is unregistered, the
  callback of a connection is called while its queue is empty, or the callback of the HCI queue is called while no fragment
  waits or there is no credit for one that does. The last case does not occur while that callback is registered. A posted round
  and a completion report never fail, whatever number of packets the controller reports.\<close>

theorem assertions_fail_exactly:
  assumes "rr_reachable c s" "num_acl_packet_buffers c \<noteq> 0 \<or> total_num_le_packets c \<noteq> 0"
    "0 < acl_packet_length c" "0 < le_data_packet_length c"
  shows "(rr_do a s = None \<longleftrightarrow> aborts a s) \<and> (rr_enqueue_registered s \<longrightarrow> \<not> aborts EnqueueReady s)"
proof -
  have inv: "rr_inv s" by (rule reachable_inv [OF assms])
  have "\<not> aborts EnqueueReady s" if "rr_enqueue_registered s"
    using rr_invD(3) [OF inv that] rr_invD(4) [OF inv that] by auto
  then show ?thesis using rr_do_aborts [OF inv] by blast
qed

theorem assertions_fail_exactly_witness:
  "\<exists>s. rr_run [Connect LE 7 [demo_packet], DequeueReady 7] (new_RoundRobinScheduler demo_buffers) = Some s
     \<and> rr_do EnqueueReady s \<noteq> None \<and> rr_do (Completed 7 1000) s \<noteq> None \<and> rr_do (Connect LE 7 []) s = None"
proof -
  have "map_option (\<lambda>s. (rr_enqueue_registered s, IsRegistered 7 s)) (rr_run [Connect LE 7 [demo_packet], DequeueReady 7] (new_RoundRobinScheduler demo_buffers)) = Some (True, True)"
    by code_simp
  then obtain s where s: "rr_run [Connect LE 7 [demo_packet], DequeueReady 7] (new_RoundRobinScheduler demo_buffers) = Some s"
    "rr_enqueue_registered s" "IsRegistered 7 s" by (cases "rr_run [Connect LE 7 [demo_packet], DequeueReady 7] (new_RoundRobinScheduler demo_buffers)") simp_all
  have "(rr_do a s = None \<longleftrightarrow> aborts a s) \<and> (rr_enqueue_registered s \<longrightarrow> \<not> aborts EnqueueReady s)" for a
    by (rule assertions_fail_exactly [OF rr_run_reachable [OF s(1)]]) (simp_all add: demo_buffers_def)
  from this [of EnqueueReady] this [of "Completed 7 1000"] this [of "Connect LE 7 []"] show ?thesis
    using s by (auto simp del: rr_do.simps)
qed

text \<open>C20: as long as no connection goes away the registrations follow the credits. While fragments wait, the callback of the HCI
  queue is registered exactly if there is a free buffer of their type, and no connection is asked for packets, not even one
  that uses the other buffers. When no fragment waits and no round is posted, exactly the connections with a free buffer of
  their type are asked.\<close>

theorem registrations_follow_credits:
  assumes "num_acl_packet_buffers c \<noteq> 0 \<or> total_num_le_packets c \<noteq> 0" "0 < acl_packet_length c" "0 < le_data_packet_length c"
    "rr_run as (new_RoundRobinScheduler c) = Some s" "\<forall>k. Disconnect k \<notin> set as"
  shows "(\<forall>f \<in># pending s. rr_enqueue_registered s \<longleftrightarrow> credits_of s (pf_connection_type f) \<noteq> 0)
    \<and> (pending s \<noteq> {#} \<longrightarrow> (\<forall>k h. map_of (acl_queue_handlers s) k = Some h \<longrightarrow> \<not> dequeue_is_registered h))
    \<and> (pending s = {#} \<longrightarrow> posted_round_robins s = 0 \<longrightarrow>
        (\<forall>k h. map_of (acl_queue_handlers s) k = Some h \<longrightarrow> (dequeue_is_registered h \<longleftrightarrow> credits_of s (connection_type h) \<noteq> 0)))"
proof -
  have inv: "rr_inv s" by (rule rr_run_inv [OF rr_inv_new [OF assms(1-3)] assms(4)])
  have busy: "rr_busy s" by (rule rr_run_busy [OF rr_inv_new [OF assms(1-3)] new_RoundRobinScheduler_busy assms(4,5)])
  show ?thesis using busy_registrations [OF inv busy] rr_invD(5) [OF inv] by blast
qed

theorem registrations_follow_credits_witness:
  "\<exists>s h. rr_run [Connect CLASSIC 1 [demo_packet], Connect CLASSIC 2 [demo_packet], DequeueReady 1, EnqueueReady, EnqueueReady, RunPosted]
       (new_RoundRobinScheduler demo_buffers) = Some s
     \<and> map_of (acl_queue_handlers s) 2 = Some h \<and> credits_of s (connection_type h) = 2 \<and> dequeue_is_registered h"
proof -
  let ?run = "[Connect CLASSIC 1 [demo_packet], Connect CLASSIC 2 [demo_packet], DequeueReady 1, EnqueueReady, EnqueueReady, RunPosted]"
  have "map_option (\<lambda>s. (posted_round_robins s, items (fragments_to_send s), acl_packet_credits s, map_option connection_type (map_of (acl_queue_handlers s) 2)))
    (rr_run ?run (new_RoundRobinScheduler demo_buffers)) = Some (0, [], 2, Some CLASSIC)" by code_simp
  then obtain s h where s: "rr_run ?run (new_RoundRobinScheduler demo_buffers) = Some s" "posted_round_robins s = 0" "pending s = {#}"
    "map_of (acl_queue_handlers s) 2 = Some h" "credits_of s (connection_type h) = 2"
    by (cases "rr_run ?run (new_RoundRobinScheduler demo_buffers)") (auto simp: pending_def credits_of_def simp del: rr_run.simps)
  have "pending s = {#} \<longrightarrow> posted_round_robins s = 0 \<longrightarrow>
      (\<forall>k h. map_of (acl_queue_handlers s) k = Some h \<longrightarrow> (dequeue_is_registered h \<longleftrightarrow> credits_of s (connection_type h) \<noteq> 0))"
    by (rule conjunct2 [OF conjunct2 [OF registrations_follow_credits [OF _ _ _ s(1)]]]) (simp_all add: demo_buffers_def)
  then have "dequeue_is_registered h" using s(2-5) by simp
  then show ?thesis using s by blast
qed

text \<open>C30: when a connection is unregistered while its fragments wait, buffers are free and no round is posted, the fragments are
  dropped and nothing restarts the round: from then on no connection is asked for packets, whatever the upper layers enqueue
  and the controller completes, until a connection is registered or unregistered.\<close>

theorem disconnect_stalls_scheduler:
  assumes "rr_reachable c s" "num_acl_packet_buffers c \<noteq> 0 \<or> total_num_le_packets c \<noteq> 0"
    "0 < acl_packet_length c" "0 < le_data_packet_length c"
    "\<exists>f \<in># pending s. pf_handle f = k" "credits_of s CLASSIC \<noteq> 0" "credits_of s LE \<noteq> 0" "posted_round_robins s = 0"
    "rr_run (Disconnect k # as) s = Some s'" "list_all keeps_connections as"
  shows "rr_stalled s'"
proof -
  have inv: "rr_inv s" by (rule reachable_inv [OF assms(1-4)])
  obtain s1 where s1: "rr_enabled (Disconnect k) s" "Unregister k s = Some s1" "rr_run as s1 = Some s'"
    using assms(9) by (auto split: if_splits bind_splits)
  have credits: "credits_of s t \<noteq> 0" for t using assms(6,7) by (cases t) simp_all
  have "rr_stalled s1" using disconnect_stalls [OF inv _ credits assms(8)] assms(5) s1(2) by blast
  moreover have "rr_inv s1" using rr_do_inv [OF inv s1(1)] s1(2) by (metis option.inject rr_do.simps(2))
  ultimately show ?thesis using stalled_run [OF _ _ assms(10) s1(3)] by blast
qed

theorem disconnect_stalls_scheduler_witness:
  "\<exists>s s'. rr_run [Connect CLASSIC 1 [demo_packet], Connect CLASSIC 2 [demo_packet], DequeueReady 1] (new_RoundRobinScheduler demo_buffers) = Some s
     \<and> rr_run [Disconnect 1, Produce 2 demo_packet] s = Some s' \<and> rr_stalled s'
     \<and> map_option (length \<circ> handler_queue) (map_of (acl_queue_handlers s') 2) = Some 2"
proof -
  let ?run = "[Connect CLASSIC 1 [demo_packet], Connect CLASSIC 2 [demo_packet], DequeueReady 1]"
  let ?rest = "[Disconnect 1, Produce 2 demo_packet]"
  have "map_option (\<lambda>s. (list_ex (\<lambda>f. pf_handle f = 1) (items (fragments_to_send s)), acl_packet_credits s, le_acl_packet_credits s,
      posted_round_robins s, map_option (\<lambda>s'. map_option (length \<circ> handler_queue) (map_of (acl_queue_handlers s') 2)) (rr_run ?rest s)))
    (rr_run ?run (new_RoundRobinScheduler demo_buffers)) = Some (True, 4, 4, 0, Some (Some 2))" by code_simp
  then obtain s s' where s: "rr_run ?run (new_RoundRobinScheduler demo_buffers) = Some s"
    "list_ex (\<lambda>f. pf_handle f = 1) (items (fragments_to_send s))" "acl_packet_credits s = 4" "le_acl_packet_credits s = 4"
    "posted_round_robins s = 0" "rr_run ?rest s = Some s'" "map_option (length \<circ> handler_queue) (map_of (acl_queue_handlers s') 2) = Some 2"
    by (cases "rr_run ?run (new_RoundRobinScheduler demo_buffers)") (simp_all del: rr_run.simps, blast)
  have waits: "\<exists>f \<in># pending s. pf_handle f = 1" using s(2) by (simp add: pending_def list_ex_iff)
  have "rr_stalled s'"
    by (rule disconnect_stalls_scheduler [OF rr_run_reachable [OF s(1)] _ _ _ waits _ _ s(5,6)]) (simp_all add: demo_buffers_def credits_of_def s(3,4))
  then show ?thesis using s(1,6,7) by blast
qed

end
