(* ===== verification/Le_Reassembler.thy ===== *)
theory Le_Reassembler
  imports Address
begin

unbundle bit_operations_syntax

text \<open>
  The reassembly of LE advertising reports, \<open>gd/hci/le_scanning_reassembler.cc\<close>: fragments of extended advertising data are
  joined per advertiser, advertising data with its scan response, and the result is trimmed to its significant entries. The
  flag \<open>support_passive_scanning\<close> is a parameter.
\<close>

section \<open>State\<close>

type_synonym advertising_key = "(hci_address \<times> u8) option \<times> u8 option"

record advertising_fragment =
  af_key :: advertising_key
  af_event_type :: u16
  af_data :: "u8 list"

record periodic_fragment =
  pa_sync_handle :: u16
  pa_data :: "u8 list"

record reassembler =
  ignore_scan_responses :: bool
  adv_cache :: "advertising_fragment list"
  periodic_cache :: "periodic_fragment list"

definition new_reassembler :: reassembler where
  "new_reassembler = \<lparr>ignore_scan_responses = False, adv_cache = [], periodic_cache = []\<rparr>"

definition SetIgnoreScanResponses :: "bool \<Rightarrow> reassembler \<Rightarrow> reassembler" where
  "SetIgnoreScanResponses ignore r = r\<lparr>ignore_scan_responses := ignore\<rparr>"

definition kConnectableBit :: nat where "kConnectableBit = 0"
definition kScannableBit :: nat where "kScannableBit = 1"
definition kScanResponseBit :: nat where "kScanResponseBit = 3"
definition kLegacyBit :: nat where "kLegacyBit = 4"
definition kDataStatusBits :: nat where "kDataStatusBits = 5"

definition kMaximumCacheSize :: nat where
  "kMaximumCacheSize = 16"

definition kMaximumPeriodicCacheSize :: nat where
  "kMaximumPeriodicCacheSize = 16"

datatype DataStatus = COMPLETE | CONTINUING | TRUNCATED | RESERVED

definition DataStatus_of :: "u16 \<Rightarrow> DataStatus" where
  "DataStatus_of w = (if w = 0 then COMPLETE else if w = 1 then CONTINUING else if w = 2 then TRUNCATED else RESERVED)"

definition NO_ADDRESS_PROVIDED :: u8 where
  "NO_ADDRESS_PROVIDED = 0xFF"

section \<open>Operations\<close>

definition AdvertisingKey :: "hci_address \<Rightarrow> u8 \<Rightarrow> u8 \<Rightarrow> advertising_key" where
  "AdvertisingKey address address_type sid =
     (if address_type \<noteq> NO_ADDRESS_PROVIDED then Some (address, address_type) else None, if sid \<noteq> 0xff then Some sid else None)"

text \<open>The entries of the advertising data, from an offset on: a length, and as many bytes.\<close>

function TrimAdvertisingData :: "u8 list \<Rightarrow> u8 list" where
  "TrimAdvertisingData [] = []"
| "TrimAdvertisingData (entry_size # rest) =
     (if entry_size \<noteq> 0 \<and> unat entry_size < Suc (length rest) then entry_size # take (unat entry_size) rest else [])
     @ TrimAdvertisingData (drop (unat entry_size) rest)"
  by pat_completeness auto

termination TrimAdvertisingData
  by (relation "measure length") auto

fun find_fragment :: "advertising_key \<Rightarrow> advertising_fragment list \<Rightarrow> nat option" where
  "find_fragment key [] = None"
| "find_fragment key (f # fs) = (if af_key f = key then Some 0 else map_option Suc (find_fragment key fs))"

definition FindFragment :: "advertising_key \<Rightarrow> reassembler \<Rightarrow> nat option" where
  "FindFragment key r = find_fragment key (adv_cache r)"

definition ContainsFragment :: "advertising_key \<Rightarrow> reassembler \<Rightarrow> bool" where
  "ContainsFragment key r \<longleftrightarrow> FindFragment key r \<noteq> None"

definition erase_at :: "nat \<Rightarrow> 'a list \<Rightarrow> 'a list" where
  "erase_at i xs = take i xs @ drop (Suc i) xs"

definition RemoveFragment :: "advertising_key \<Rightarrow> reassembler \<Rightarrow> reassembler" where
  "RemoveFragment key r =
     (case FindFragment key r of None \<Rightarrow> r | Some i \<Rightarrow> r\<lparr>adv_cache := erase_at i (adv_cache r)\<rparr>)"

text \<open>The iterator that is returned is the index of the entry.\<close>

definition AppendFragment :: "advertising_key \<Rightarrow> u16 \<Rightarrow> u8 list \<Rightarrow> reassembler \<Rightarrow> reassembler \<times> nat" where
  "AppendFragment key extended_event_type data r =
     (case FindFragment key r of
        Some i \<Rightarrow>
          let f = adv_cache r ! i;
              event_type = (if bit extended_event_type kLegacyBit \<and> bit extended_event_type kScanResponseBit
                            then extended_event_type OR (af_event_type f AND push_bit kConnectableBit 1) else extended_event_type)
          in (r\<lparr>adv_cache := (adv_cache r)[i := f\<lparr>af_event_type := event_type, af_data := af_data f @ data\<rparr>]\<rparr>, i)
      | None \<Rightarrow>
          let cache = (if kMaximumCacheSize < length (adv_cache r) then butlast (adv_cache r) else adv_cache r)
          in (r\<lparr>adv_cache := \<lparr>af_key = key, af_event_type = extended_event_type, af_data = data\<rparr> # cache\<rparr>, 0))"

record complete_advertising_data =
  cad_event_type :: u16
  cad_data :: "u8 list"

definition ProcessAdvertisingReport :: "bool \<Rightarrow> u16 \<Rightarrow> u8 \<Rightarrow> hci_address \<Rightarrow> u8 \<Rightarrow> u8 list \<Rightarrow> reassembler
    \<Rightarrow> reassembler \<times> complete_advertising_data option" where
  "ProcessAdvertisingReport support_passive_scanning event_type address_type address advertising_sid advertising_data r =
     (let is_scannable = bit event_type kScannableBit;
          is_scan_response = bit event_type kScanResponseBit;
          is_legacy = bit event_type kLegacyBit;
          data_status = DataStatus_of (drop_bit kDataStatusBits event_type AND 0x3)
      in if address_type \<noteq> NO_ADDRESS_PROVIDED \<and> address = address_kEmpty then (r, None)
         else let key = AdvertisingKey address address_type advertising_sid
              in if is_scan_response \<and> (ignore_scan_responses r \<or> \<not> ContainsFragment key r) then (r, None)
                 else let r = (if is_legacy \<and> \<not> is_scan_response then RemoveFragment key r else r);
                          (r, i) = AppendFragment key event_type advertising_data r;
                          r = (if data_status \<noteq> CONTINUING
                               then r\<lparr>adv_cache := (adv_cache r)[i := (adv_cache r ! i)\<lparr>af_data := TrimAdvertisingData (af_data (adv_cache r ! i))\<rparr>]\<rparr>
                               else r);
                          expect_scan_response = (is_scannable \<and> \<not> is_scan_response \<and> \<not> ignore_scan_responses r)
                      in if data_status = CONTINUING \<or> (expect_scan_response \<and> \<not> support_passive_scanning) then (r, None)
                         else let result = \<lparr>cad_event_type = af_event_type (adv_cache r ! i), cad_data = af_data (adv_cache r ! i)\<rparr>
                              in if expect_scan_response then (r, Some result)
                                 else (r\<lparr>adv_cache := erase_at i (adv_cache r)\<rparr>, Some result))"

fun find_periodic :: "u16 \<Rightarrow> periodic_fragment list \<Rightarrow> nat option" where
  "find_periodic sync_handle [] = None"
| "find_periodic sync_handle (f # fs) = (if pa_sync_handle f = sync_handle then Some 0 else map_option Suc (find_periodic sync_handle fs))"

definition FindPeriodicFragment :: "u16 \<Rightarrow> reassembler \<Rightarrow> nat option" where
  "FindPeriodicFragment sync_handle r = find_periodic sync_handle (periodic_cache r)"

definition AppendPeriodicFragment :: "u16 \<Rightarrow> u8 list \<Rightarrow> reassembler \<Rightarrow> reassembler \<times> nat" where
  "AppendPeriodicFragment sync_handle data r =
     (case FindPeriodicFragment sync_handle r of
        Some i \<Rightarrow>
          (r\<lparr>periodic_cache := (periodic_cache r)[i := (periodic_cache r ! i)\<lparr>pa_data := pa_data (periodic_cache r ! i) @ data\<rparr>]\<rparr>, i)
      | None \<Rightarrow>
          let cache = (if kMaximumPeriodicCacheSize < length (periodic_cache r) then butlast (periodic_cache r) else periodic_cache r)
          in (r\<lparr>periodic_cache := \<lparr>pa_sync_handle = sync_handle, pa_data = data\<rparr> # cache\<rparr>, 0))"

definition ProcessPeriodicAdvertisingReport :: "u16 \<Rightarrow> DataStatus \<Rightarrow> u8 list \<Rightarrow> reassembler \<Rightarrow> reassembler \<times> u8 list option" where
  "ProcessPeriodicAdvertisingReport sync_handle data_status advertising_data r =
     (let (r, i) = AppendPeriodicFragment sync_handle advertising_data r
      in if data_status = CONTINUING then (r, None)
         else (r\<lparr>periodic_cache := erase_at i (periodic_cache r)\<rparr>, Some (TrimAdvertisingData (pa_data (periodic_cache r ! i)))))"

section \<open>Trimming\<close>

text \<open>What trimming leaves is a sequence of entries that are neither empty nor cut off.\<close>

fun ad_entries :: "u8 list list \<Rightarrow> u8 list" where
  "ad_entries [] = []"
| "ad_entries (e # es) = of_nat (length e) # e @ ad_entries es"

definition ad_entry :: "u8 list \<Rightarrow> bool" where
  "ad_entry e \<longleftrightarrow> e \<noteq> [] \<and> length e < 256"

lemma unat_entry_size:
  "ad_entry e \<Longrightarrow> unat (of_nat (length e) :: u8) = length e"
  by (simp add: ad_entry_def unsigned_of_nat take_bit_nat_eq_self)

lemma ad_entry_size_nonzero:
  assumes "ad_entry e"
  shows "(of_nat (length e) :: u8) \<noteq> 0"
proof
  assume "(of_nat (length e) :: u8) = 0"
  then have "unat (of_nat (length e) :: u8) = 0" by simp
  then show False using unat_entry_size [OF assms] assms by (simp add: ad_entry_def)
qed

lemma Trim_entries_append:
  "list_all ad_entry es \<Longrightarrow> TrimAdvertisingData (ad_entries es @ rest) = ad_entries es @ TrimAdvertisingData rest"
  by (induction es) (simp_all add: unat_entry_size ad_entry_size_nonzero)

lemma Trim_entries:
  "\<exists>es. TrimAdvertisingData data = ad_entries es \<and> list_all ad_entry es"
proof (induction data rule: TrimAdvertisingData.induct)
  case 1
  show ?case by (rule exI [of _ "[]"]) simp
next
  case (2 n rest)
  then obtain es where es: "TrimAdvertisingData (drop (unat n) rest) = ad_entries es" "list_all ad_entry es" by blast
  show ?case
  proof (cases "n \<noteq> 0 \<and> unat n < Suc (length rest)")
    case True
    define e where "e = take (unat n) rest"
    have len: "length e = unat n" using True by (simp add: e_def)
    have "unat n < 2 ^ LENGTH(8)" by (rule unsigned_less)
    then have "ad_entry e" using True len by (auto simp: ad_entry_def unat_eq_zero)
    then show ?thesis using es True len by (intro exI [of _ "e # es"]) (simp add: e_def [symmetric])
  next
    case False
    then show ?thesis using es by auto
  qed
qed

lemma Trim_idem:
  "TrimAdvertisingData (TrimAdvertisingData data) = TrimAdvertisingData data"
proof -
  obtain es where "TrimAdvertisingData data = ad_entries es" "list_all ad_entry es" using Trim_entries by blast
  then show ?thesis using Trim_entries_append [of es "[]"] by simp
qed

section \<open>Reassembly\<close>

text \<open>Reports of one advertiser, with the results.\<close>

fun process_reports :: "bool \<Rightarrow> u8 \<Rightarrow> hci_address \<Rightarrow> u8 \<Rightarrow> (u16 \<times> u8 list) list \<Rightarrow> reassembler
    \<Rightarrow> reassembler \<times> complete_advertising_data option list" where
  "process_reports passive address_type address sid [] r = (r, [])"
| "process_reports passive address_type address sid ((event_type, data) # reports) r =
     (let (r, result) = ProcessAdvertisingReport passive event_type address_type address sid data r;
          (r, results) = process_reports passive address_type address sid reports r
      in (r, result # results))"

definition data_status :: "u16 \<Rightarrow> DataStatus" where
  "data_status event_type = DataStatus_of (drop_bit kDataStatusBits event_type AND 0x3)"

text \<open>Extended advertising, scannable or not: neither legacy advertising nor a scan response.\<close>

definition extended_event :: "u16 \<Rightarrow> bool" where
  "extended_event event_type \<longleftrightarrow> \<not> bit event_type kScanResponseBit \<and> \<not> bit event_type kLegacyBit"

text \<open>The cache once there is room for another entry, and the data it holds of an advertiser.\<close>

definition with_room :: "advertising_fragment list \<Rightarrow> advertising_fragment list" where
  "with_room cache = (if kMaximumCacheSize < length cache then butlast cache else cache)"

definition cached :: "advertising_key \<Rightarrow> advertising_fragment list \<Rightarrow> u8 list option" where
  "cached key cache = map_of (map (\<lambda>f. (af_key f, af_data f)) cache) key"

lemma find_fragment_at:
  "key \<notin> af_key ` set pre \<Longrightarrow> af_key f = key \<Longrightarrow> find_fragment key (pre @ f # post) = Some (length pre)"
  by (induction pre) auto

lemma find_fragment_None:
  "find_fragment key cache = None \<longleftrightarrow> key \<notin> af_key ` set cache"
  by (induction cache) auto

lemma cached_None:
  "cached key cache = None \<longleftrightarrow> key \<notin> af_key ` set cache"
  by (auto simp: cached_def map_of_eq_None_iff image_image)

lemma cached_Some:
  assumes "cached key cache = Some d0"
  obtains pre ev0 post where "cache = pre @ \<lparr>af_key = key, af_event_type = ev0, af_data = d0\<rparr> # post" "key \<notin> af_key ` set pre"
  using assms
proof (induction cache arbitrary: thesis)
  case (Cons f cache)
  show ?case
  proof (cases "af_key f = key")
    case True
    then have "f = \<lparr>af_key = key, af_event_type = af_event_type f, af_data = d0\<rparr>" using Cons.prems(2) by (simp add: cached_def)
    then show ?thesis using Cons.prems(1) [of "[]"] by simp
  next
    case False
    then have "cached key cache = Some d0" using Cons.prems(2) by (simp add: cached_def)
    then obtain pre ev0 post where "cache = pre @ \<lparr>af_key = key, af_event_type = ev0, af_data = d0\<rparr> # post" "key \<notin> af_key ` set pre"
      using Cons.IH by blast
    then show ?thesis using Cons.prems(1) [of "f # pre"] False by simp
  qed
qed (simp add: cached_def)

lemma cached_append:
  "k \<notin> af_key ` set pre \<Longrightarrow> cached k (pre @ f # post) = (if af_key f = k then Some (af_data f) else cached k post)"
  "k \<noteq> af_key f \<Longrightarrow> cached k (pre @ f # post) = cached k (pre @ post)"
  by (induction pre) (auto simp: cached_def)

lemma AppendFragment_known:
  assumes "adv_cache r = pre @ \<lparr>af_key = key, af_event_type = ev0, af_data = d0\<rparr> # post" "key \<notin> af_key ` set pre" "extended_event ev"
  shows "AppendFragment key ev d r =
    (r\<lparr>adv_cache := pre @ \<lparr>af_key = key, af_event_type = ev, af_data = d0 @ d\<rparr> # post\<rparr>, length pre)"
  using assms by (simp add: AppendFragment_def FindFragment_def find_fragment_at extended_event_def)

lemma AppendFragment_new:
  assumes "\<not> ContainsFragment key r"
  shows "AppendFragment key ev d r = (r\<lparr>adv_cache := \<lparr>af_key = key, af_event_type = ev, af_data = d\<rparr> # with_room (adv_cache r)\<rparr>, 0)"
  using assms by (simp add: AppendFragment_def ContainsFragment_def with_room_def)

text \<open>One report, with the entry of the advertiser at its place in the cache.\<close>

lemma extended_report:
  assumes "\<not> (address_type \<noteq> NO_ADDRESS_PROVIDED \<and> address = address_kEmpty)" "extended_event ev"
    "AppendFragment (AdvertisingKey address address_type sid) ev d r =
      (r\<lparr>adv_cache := pre @ \<lparr>af_key = k, af_event_type = ev, af_data = data\<rparr> # post\<rparr>, length pre)"
  shows "ProcessAdvertisingReport passive ev address_type address sid d r =
    (if data_status ev = CONTINUING then (r\<lparr>adv_cache := pre @ \<lparr>af_key = k, af_event_type = ev, af_data = data\<rparr> # post\<rparr>, None)
     else if bit ev kScannableBit \<and> \<not> ignore_scan_responses r
     then (r\<lparr>adv_cache := pre @ \<lparr>af_key = k, af_event_type = ev, af_data = TrimAdvertisingData data\<rparr> # post\<rparr>,
           if passive then Some \<lparr>cad_event_type = ev, cad_data = TrimAdvertisingData data\<rparr> else None)
     else (r\<lparr>adv_cache := pre @ post\<rparr>, Some \<lparr>cad_event_type = ev, cad_data = TrimAdvertisingData data\<rparr>))"
  using assms(2) unfolding ProcessAdvertisingReport_def if_not_P [OF assms(1)]
  by (simp add: assms(3) extended_event_def data_status_def [symmetric] erase_at_def Let_def)

lemma continuing_reports:
  assumes "\<not> (address_type \<noteq> NO_ADDRESS_PROVIDED \<and> address = address_kEmpty)" "key = AdvertisingKey address address_type sid"
    "adv_cache r = pre @ \<lparr>af_key = key, af_event_type = ev0, af_data = d0\<rparr> # post" "key \<notin> af_key ` set pre"
    "list_all (\<lambda>(ev, d). extended_event ev \<and> data_status ev = CONTINUING) frags" "extended_event ev" "data_status ev \<noteq> CONTINUING"
    "data = TrimAdvertisingData (d0 @ concat (map snd frags) @ d)"
  shows "process_reports passive address_type address sid (frags @ [(ev, d)]) r =
    (if bit ev kScannableBit \<and> \<not> ignore_scan_responses r
     then (r\<lparr>adv_cache := pre @ \<lparr>af_key = key, af_event_type = ev, af_data = data\<rparr> # post\<rparr>,
           replicate (length frags) None @ [if passive then Some \<lparr>cad_event_type = ev, cad_data = data\<rparr> else None])
     else (r\<lparr>adv_cache := pre @ post\<rparr>, replicate (length frags) None @ [Some \<lparr>cad_event_type = ev, cad_data = data\<rparr>]))"
  using assms
proof (induction frags arbitrary: r ev0 d0)
  case Nil
  note known = AppendFragment_known [OF Nil.prems(3,4,6), of d, unfolded Nil.prems(2)]
  show ?case using Nil.prems(2,7,8) by (simp add: extended_report [OF Nil.prems(1,6) known])
next
  case (Cons f frags)
  obtain ev1 d1 where f: "f = (ev1, d1)" "extended_event ev1" "data_status ev1 = CONTINUING" using Cons.prems(5) by (cases f) simp
  note step = extended_report [OF Cons.prems(1) f(2) AppendFragment_known [OF Cons.prems(3,4) f(2), of d1, unfolded Cons.prems(2)]]
  define r1 where "r1 = r\<lparr>adv_cache := pre @ \<lparr>af_key = key, af_event_type = ev1, af_data = d0 @ d1\<rparr> # post\<rparr>"
  have first: "ProcessAdvertisingReport passive ev1 address_type address sid d1 r = (r1, None)"
    using step f(3) Cons.prems(2) by (simp add: r1_def)
  have "process_reports passive address_type address sid (frags @ [(ev, d)]) r1 =
    (if bit ev kScannableBit \<and> \<not> ignore_scan_responses r1
     then (r1\<lparr>adv_cache := pre @ \<lparr>af_key = key, af_event_type = ev, af_data = data\<rparr> # post\<rparr>,
           replicate (length frags) None @ [if passive then Some \<lparr>cad_event_type = ev, cad_data = data\<rparr> else None])
     else (r1\<lparr>adv_cache := pre @ post\<rparr>, replicate (length frags) None @ [Some \<lparr>cad_event_type = ev, cad_data = data\<rparr>]))"
    using Cons.prems f(1) by (intro Cons.IH [where ?ev0.0 = ev1 and ?d0.0 = "d0 @ d1"]) (simp_all add: r1_def)
  moreover have "ignore_scan_responses r1 = ignore_scan_responses r" "r1\<lparr>adv_cache := c\<rparr> = r\<lparr>adv_cache := c\<rparr>" for c
    by (simp_all add: r1_def)
  ultimately show ?case using f(1) by (simp add: first)
qed

text \<open>A first report of an advertiser that is not in the cache acts as one of an advertiser whose entry is empty.\<close>

lemma new_advertiser:
  assumes "\<not> (address_type \<noteq> NO_ADDRESS_PROVIDED \<and> address = address_kEmpty)" "key = AdvertisingKey address address_type sid"
    "\<not> ContainsFragment key r" "extended_event ev"
  shows "ProcessAdvertisingReport passive ev address_type address sid d r =
    ProcessAdvertisingReport passive ev address_type address sid d
      (r\<lparr>adv_cache := \<lparr>af_key = key, af_event_type = 0, af_data = []\<rparr> # with_room (adv_cache r)\<rparr>)"
proof -
  let ?r = "r\<lparr>adv_cache := \<lparr>af_key = key, af_event_type = 0, af_data = []\<rparr> # with_room (adv_cache r)\<rparr>"
  have new: "AppendFragment (AdvertisingKey address address_type sid) ev d r =
      (r\<lparr>adv_cache := [] @ \<lparr>af_key = key, af_event_type = ev, af_data = d\<rparr> # with_room (adv_cache r)\<rparr>, length [])"
    using AppendFragment_new [OF assms(3)] assms(2) by simp
  have known: "AppendFragment (AdvertisingKey address address_type sid) ev d ?r =
      (?r\<lparr>adv_cache := [] @ \<lparr>af_key = key, af_event_type = ev, af_data = d\<rparr> # with_room (adv_cache r)\<rparr>, length [])"
    using AppendFragment_known [of ?r "[]" key 0 "[]" "with_room (adv_cache r)" ev d] assms(2,4) by simp
  show ?thesis unfolding extended_report [OF assms(1,4) new] extended_report [OF assms(1,4) known] by simp
qed

text \<open>Advertising data and the scan response to it are joined; the result has the connectable bit of the advertisement.\<close>

lemma scan_response_joined:
  assumes "\<not> (address_type \<noteq> NO_ADDRESS_PROVIDED \<and> address = address_kEmpty)" "\<not> ignore_scan_responses r"
    "\<not> ContainsFragment (AdvertisingKey address address_type sid) r"
    "bit ev kLegacyBit" "bit ev kScannableBit" "\<not> bit ev kScanResponseBit" "data_status ev \<noteq> CONTINUING"
    "bit ev' kLegacyBit" "bit ev' kScanResponseBit" "data_status ev' \<noteq> CONTINUING"
  shows "process_reports passive address_type address sid [(ev, a), (ev', b)] r =
    (r\<lparr>adv_cache := with_room (adv_cache r)\<rparr>,
     [if passive then Some \<lparr>cad_event_type = ev, cad_data = TrimAdvertisingData a\<rparr> else None,
      Some \<lparr>cad_event_type = ev' OR (ev AND 1), cad_data = TrimAdvertisingData (TrimAdvertisingData a @ b)\<rparr>])"
proof -
  define key where "key = AdvertisingKey address address_type sid"
  define r1 where "r1 = r\<lparr>adv_cache := \<lparr>af_key = key, af_event_type = ev, af_data = TrimAdvertisingData a\<rparr> # with_room (adv_cache r)\<rparr>"
  have gone: "RemoveFragment key r = r" using assms(3) by (simp add: RemoveFragment_def ContainsFragment_def key_def)
  have first: "ProcessAdvertisingReport passive ev address_type address sid a r =
      (r1, if passive then Some \<lparr>cad_event_type = ev, cad_data = TrimAdvertisingData a\<rparr> else None)"
    unfolding ProcessAdvertisingReport_def if_not_P [OF assms(1)] key_def [symmetric]
    using assms(2-7) by (simp add: gone AppendFragment_new key_def [symmetric] data_status_def [symmetric] r1_def Let_def)
  have known: "FindFragment key r1 = Some 0" by (simp add: FindFragment_def r1_def)
  have "ProcessAdvertisingReport passive ev' address_type address sid b r1 =
      (r\<lparr>adv_cache := with_room (adv_cache r)\<rparr>,
       Some \<lparr>cad_event_type = ev' OR (ev AND 1), cad_data = TrimAdvertisingData (TrimAdvertisingData a @ b)\<rparr>)"
    unfolding ProcessAdvertisingReport_def if_not_P [OF assms(1)] key_def [symmetric]
    using assms(2,8-10) known
    by (simp add: ContainsFragment_def AppendFragment_def data_status_def [symmetric] erase_at_def kConnectableBit_def Let_def)
      (simp add: r1_def)
  then show ?thesis using first by simp
qed

lemma with_room_keys:
  "distinct (map af_key cache) \<Longrightarrow> distinct (map af_key (with_room cache))" "af_key ` set (with_room cache) \<subseteq> af_key ` set cache"
  by (auto simp: with_room_def map_butlast distinct_butlast dest: in_set_butlastD)

text \<open>No report of any kind makes an advertiser occur twice in the cache.\<close>

lemma erase_at_distinct:
  assumes "distinct (map af_key cache)"
  shows "distinct (map af_key (erase_at i cache))"
proof -
  have "set (take i (map af_key cache)) \<inter> set (drop (Suc i) (map af_key cache)) = {}"
    using assms by (intro set_take_disj_set_drop_if_distinct) simp_all
  then show ?thesis using assms by (simp add: erase_at_def take_map [symmetric] drop_map [symmetric] distinct_take distinct_drop)
qed

lemma update_data_distinct:
  "af_key f = af_key (cache ! i) \<Longrightarrow> map af_key (cache[i := f]) = map af_key cache"
  using list_update_id [of "map af_key cache" i] by (cases "i < length cache") (simp_all add: map_update list_update_beyond)

lemma AppendFragment_distinct:
  assumes "distinct (map af_key (adv_cache r))" "AppendFragment key ev d r = (r', i)"
  shows "distinct (map af_key (adv_cache r'))"
proof (cases "FindFragment key r")
  case None
  then have "key \<notin> af_key ` set (adv_cache r)" by (simp add: FindFragment_def find_fragment_None)
  then have "key \<notin> af_key ` set (with_room (adv_cache r))" using with_room_keys(2) by blast
  moreover have "adv_cache r' = \<lparr>af_key = key, af_event_type = ev, af_data = d\<rparr> # with_room (adv_cache r)"
    using None assms(2) by (auto simp: AppendFragment_def with_room_def)
  ultimately show ?thesis using with_room_keys(1) [OF assms(1)] by simp
next
  case (Some j)
  then have "map af_key (adv_cache r') = map af_key (adv_cache r)"
    using assms(2) by (auto simp: AppendFragment_def Let_def update_data_distinct)
  then show ?thesis using assms(1) by simp
qed

lemma ProcessAdvertisingReport_distinct:
  assumes "distinct (map af_key (adv_cache r))"
  shows "distinct (map af_key (adv_cache (fst (ProcessAdvertisingReport passive ev address_type address sid d r))))"
proof -
  define key where "key = AdvertisingKey address address_type sid"
  define r1 where "r1 = (if bit ev kLegacyBit \<and> \<not> bit ev kScanResponseBit then RemoveFragment key r else r)"
  obtain r2 i where r2: "AppendFragment key ev d r1 = (r2, i)" by (cases "AppendFragment key ev d r1")
  have "distinct (map af_key (adv_cache r1))"
    using assms erase_at_distinct by (auto simp: r1_def RemoveFragment_def split: option.splits)
  then have "distinct (map af_key (adv_cache r2))" using AppendFragment_distinct r2 by blast
  then show ?thesis
    using assms unfolding ProcessAdvertisingReport_def Let_def
    unfolding key_def [symmetric] unfolding r1_def [symmetric] unfolding r2 prod.case
    by (simp add: erase_at_distinct update_data_distinct)
qed

lemma reassembly_start:
  assumes "\<not> (address_type \<noteq> NO_ADDRESS_PROVIDED \<and> address = address_kEmpty)" "distinct (map af_key (adv_cache r))"
    "list_all (\<lambda>(ev, d). extended_event ev \<and> data_status ev = CONTINUING) frags" "extended_event ev"
    and "key = AdvertisingKey address address_type sid"
  obtains r1 pre ev0 d0 post where
    "process_reports passive address_type address sid (frags @ [(ev, d)]) r = process_reports passive address_type address sid (frags @ [(ev, d)]) r1"
    "adv_cache r1 = pre @ \<lparr>af_key = key, af_event_type = ev0, af_data = d0\<rparr> # post" "key \<notin> af_key ` set pre"
    "d0 = (case cached key (adv_cache r) of None \<Rightarrow> [] | Some d0 \<Rightarrow> d0)" "ignore_scan_responses r1 = ignore_scan_responses r"
    "\<forall>k. k \<noteq> key \<longrightarrow> cached k (pre @ post) = cached k (if cached key (adv_cache r) = None then with_room (adv_cache r) else adv_cache r)"
    "distinct (map af_key (adv_cache r1))"
proof (cases "cached key (adv_cache r)")
  case None
  let ?r1 = "r\<lparr>adv_cache := \<lparr>af_key = key, af_event_type = 0, af_data = []\<rparr> # with_room (adv_cache r)\<rparr>"
  have new: "\<not> ContainsFragment key r" "key \<notin> af_key ` set (adv_cache r)"
    using None by (simp_all add: cached_None ContainsFragment_def FindFragment_def find_fragment_None)
  obtain ev1 d1 rest where f: "frags @ [(ev, d)] = (ev1, d1) # rest" "extended_event ev1" using assms(3,4) by (cases frags) auto
  have "process_reports passive address_type address sid (frags @ [(ev, d)]) r = process_reports passive address_type address sid (frags @ [(ev, d)]) ?r1"
    unfolding f(1) process_reports.simps new_advertiser [OF assms(1,5) new(1) f(2)] ..
  then show thesis
    by (rule that [where pre = "[]"]) (use None new(2) with_room_keys [of "adv_cache r"] assms(2) in \<open>auto simp: image_iff\<close>)
next
  case (Some d0)
  obtain pre ev0 post where p: "adv_cache r = pre @ \<lparr>af_key = key, af_event_type = ev0, af_data = d0\<rparr> # post" "key \<notin> af_key ` set pre"
    using cached_Some [OF Some] .
  show thesis by (rule that [OF refl p]) (use Some assms(2) p(1) in \<open>simp_all add: cached_append(2)\<close>)
qed

section \<open>Properties\<close>

text \<open>C25: reports of extended advertising data from one advertiser, which is anonymous or has an address that is not empty, none of
  them legacy advertising or a scan response, give no result while their data is marked as continuing. The last one completes the data: what the cache held of
  the advertiser and the data of all the reports, without empty and overflowing entries, is a sequence of entries that are
  neither empty nor cut off. It is the result, unless the advertiser is scannable, scan responses are not ignored and passive
  scanning is not supported: then there is none. The advertiser leaves the cache, unless a scan response is expected: then its
  entry holds the trimmed data. Of the other advertisers at most the oldest is lost, when a full cache takes a new one.\<close>

theorem advertising_fragments_reassemble:
  assumes "\<not> (address_type \<noteq> NO_ADDRESS_PROVIDED \<and> address = address_kEmpty)" "distinct (map af_key (adv_cache r))"
    "list_all (\<lambda>(ev, d). extended_event ev \<and> data_status ev = CONTINUING) frags" "extended_event ev" "data_status ev \<noteq> CONTINUING"
    and "key = AdvertisingKey address address_type sid"
    and "data = TrimAdvertisingData ((case cached key (adv_cache r) of None \<Rightarrow> [] | Some d0 \<Rightarrow> d0) @ concat (map snd frags) @ d)"
    and "expect_scan_response = (bit ev kScannableBit \<and> \<not> ignore_scan_responses r)"
    and "process_reports passive address_type address sid (frags @ [(ev, d)]) r = (r', results)"
  shows "results = replicate (length frags) None
      @ [if expect_scan_response \<and> \<not> passive then None else Some \<lparr>cad_event_type = ev, cad_data = data\<rparr>]
    \<and> cached key (adv_cache r') = (if expect_scan_response then Some data else None)
    \<and> (\<forall>k. k \<noteq> key \<longrightarrow> cached k (adv_cache r') =
         cached k (if cached key (adv_cache r) = None then with_room (adv_cache r) else adv_cache r))
    \<and> distinct (map af_key (adv_cache r'))
    \<and> (\<exists>es. data = ad_entries es \<and> list_all ad_entry es)"
proof -
  obtain r1 pre ev0 d0 post where
    r1: "process_reports passive address_type address sid (frags @ [(ev, d)]) r = process_reports passive address_type address sid (frags @ [(ev, d)]) r1"
      "adv_cache r1 = pre @ \<lparr>af_key = key, af_event_type = ev0, af_data = d0\<rparr> # post" "key \<notin> af_key ` set pre"
      "d0 = (case cached key (adv_cache r) of None \<Rightarrow> [] | Some d0 \<Rightarrow> d0)" "ignore_scan_responses r1 = ignore_scan_responses r"
    and others: "\<forall>k. k \<noteq> key \<longrightarrow> cached k (pre @ post) = cached k (if cached key (adv_cache r) = None then with_room (adv_cache r) else adv_cache r)"
      "distinct (map af_key (adv_cache r1))"
    using reassembly_start [OF assms(1-4,6)] .
  have fresh: "key \<notin> af_key ` set post" using others(2) r1(2) by auto
  have data: "data = TrimAdvertisingData (d0 @ concat (map snd frags) @ d)" unfolding assms(7) r1(4) ..
  note run = continuing_reports [OF assms(1,6) r1(2,3) assms(3-5) data, unfolded r1(5)]
  have res: "(r', results) = (if expect_scan_response
     then (r1\<lparr>adv_cache := pre @ \<lparr>af_key = key, af_event_type = ev, af_data = data\<rparr> # post\<rparr>,
           replicate (length frags) None @ [if passive then Some \<lparr>cad_event_type = ev, cad_data = data\<rparr> else None])
     else (r1\<lparr>adv_cache := pre @ post\<rparr>, replicate (length frags) None @ [Some \<lparr>cad_event_type = ev, cad_data = data\<rparr>]))"
    using run r1(1) assms(8,9) by simp
  have keys: "distinct (map af_key (pre @ post))" using others(2) r1(2) by simp
  have gone: "cached key (pre @ post) = None" using r1(3) fresh by (simp add: cached_None image_Un)
  have entries: "\<exists>es. data = ad_entries es \<and> list_all ad_entry es" unfolding assms(7) by (rule Trim_entries)
  show ?thesis
  proof (cases expect_scan_response)
    case True
    then show ?thesis using res others r1(2,3) entries by (simp add: cached_append)
  next
    case False
    then show ?thesis using res others(1) keys gone entries by simp
  qed
qed

theorem advertising_fragments_reassemble_witness:
  "\<exists>r'. process_reports False 1 [1, 2, 3, 4, 5, 6] 3 ([(0x20, [2, 1])] @ [(0x00, [6, 0, 9])]) new_reassembler =
     (r', [None, Some \<lparr>cad_event_type = 0, cad_data = [2, 1, 6]\<rparr>]) \<and> adv_cache r' = []"
proof -
  obtain r' results where run: "process_reports False 1 [1, 2, 3, 4, 5, 6] 3 ([(0x20, [2, 1])] @ [(0x00, [6, 0, 9])]) new_reassembler = (r', results)"
    by (rule prod.exhaust)
  have none: "cached k (adv_cache new_reassembler) = None" for k by (simp add: new_reassembler_def cached_def)
  have "results = replicate (length [(0x20 :: u16, [2, 1 :: u8])]) None @ [if False \<and> \<not> False then None else Some \<lparr>cad_event_type = 0, cad_data = [2, 1, 6]\<rparr>]
    \<and> cached (AdvertisingKey [1, 2, 3, 4, 5, 6] 1 3) (adv_cache r') = (if False then Some [2, 1, 6] else None)
    \<and> (\<forall>k. k \<noteq> AdvertisingKey [1, 2, 3, 4, 5, 6] 1 3 \<longrightarrow> cached k (adv_cache r') =
         cached k (if cached (AdvertisingKey [1, 2, 3, 4, 5, 6] 1 3) (adv_cache new_reassembler) = None then with_room (adv_cache new_reassembler)
                   else adv_cache new_reassembler))
    \<and> distinct (map af_key (adv_cache r')) \<and> (\<exists>es. [2, 1, 6] = ad_entries es \<and> list_all ad_entry es)"
  proof (rule advertising_fragments_reassemble [OF _ _ _ _ _ refl _ _ run])
    show "list_all (\<lambda>(ev, d). extended_event ev \<and> data_status ev = CONTINUING) [(0x20, [2, 1])]" "extended_event 0" "data_status 0 \<noteq> CONTINUING"
      by code_simp+
    show "[2, 1, 6] = TrimAdvertisingData ((case cached (AdvertisingKey [1, 2, 3, 4, 5, 6] 1 3) (adv_cache new_reassembler) of None \<Rightarrow> [] | Some d0 \<Rightarrow> d0)
        @ concat (map snd [(0x20 :: u16, [2, 1])]) @ [6, 0, 9])"
      unfolding none option.case by code_simp
  qed (simp_all add: address_kEmpty_def new_reassembler_def kScannableBit_def)
  then have res: "results = [None, Some \<lparr>cad_event_type = 0, cad_data = [2, 1, 6]\<rparr>]"
    and key: "cached (AdvertisingKey [1, 2, 3, 4, 5, 6] 1 3) (adv_cache r') = None"
    and others: "\<forall>k. k \<noteq> AdvertisingKey [1, 2, 3, 4, 5, 6] 1 3 \<longrightarrow> cached k (adv_cache r') = None"
    by (simp_all add: new_reassembler_def with_room_def cached_def)
  have "cached k (adv_cache r') = None" for k
    by (cases "k = AdvertisingKey [1, 2, 3, 4, 5, 6] 1 3") (use key others in \<open>simp_all del: split_paired_All\<close>)
  then have "adv_cache r' = []" using cached_None [of "af_key (hd (adv_cache r'))" "adv_cache r'"] by (cases "adv_cache r'") auto
  then show ?thesis using run res by simp
qed

end
