(* ===== verification/Crc.thy ===== *)
theory Crc
  imports Prelude
begin

unbundle bit_operations_syntax

text \<open>
  The frame check sequences: the 8-bit one of RFCOMM, \<open>rfc_calc_fcs\<close> and \<open>rfc_check_fcs\<close> of \<open>stack/rfcomm/rfc_utils.cc\<close>, and
  the 16-bit one of L2CAP retransmission mode, \<open>l2c_fcr_updcrc\<close> of \<open>stack/l2cap/l2c_fcr.cc\<close>. Both are computed by a table.
  The lemmas show that the tables compute the cyclic redundancy codes bit by bit, and that every change of a byte is detected.
\<close>

section \<open>Tables and routines\<close>

definition rfc_crctable :: "u8 list" where
  "rfc_crctable = [
      0x00, 0x91, 0xE3, 0x72, 0x07, 0x96, 0xE4, 0x75, 0x0E, 0x9F, 0xED, 0x7C, 0x09, 0x98, 0xEA, 0x7B,
      0x1C, 0x8D, 0xFF, 0x6E, 0x1B, 0x8A, 0xF8, 0x69, 0x12, 0x83, 0xF1, 0x60, 0x15, 0x84, 0xF6, 0x67,
      0x38, 0xA9, 0xDB, 0x4A, 0x3F, 0xAE, 0xDC, 0x4D, 0x36, 0xA7, 0xD5, 0x44, 0x31, 0xA0, 0xD2, 0x43,
      0x24, 0xB5, 0xC7, 0x56, 0x23, 0xB2, 0xC0, 0x51, 0x2A, 0xBB, 0xC9, 0x58, 0x2D, 0xBC, 0xCE, 0x5F,
      0x70, 0xE1, 0x93, 0x02, 0x77, 0xE6, 0x94, 0x05, 0x7E, 0xEF, 0x9D, 0x0C, 0x79, 0xE8, 0x9A, 0x0B,
      0x6C, 0xFD, 0x8F, 0x1E, 0x6B, 0xFA, 0x88, 0x19, 0x62, 0xF3, 0x81, 0x10, 0x65, 0xF4, 0x86, 0x17,
      0x48, 0xD9, 0xAB, 0x3A, 0x4F, 0xDE, 0xAC, 0x3D, 0x46, 0xD7, 0xA5, 0x34, 0x41, 0xD0, 0xA2, 0x33,
      0x54, 0xC5, 0xB7, 0x26, 0x53, 0xC2, 0xB0, 0x21, 0x5A, 0xCB, 0xB9, 0x28, 0x5D, 0xCC, 0xBE, 0x2F,
      0xE0, 0x71, 0x03, 0x92, 0xE7, 0x76, 0x04, 0x95, 0xEE, 0x7F, 0x0D, 0x9C, 0xE9, 0x78, 0x0A, 0x9B,
      0xFC, 0x6D, 0x1F, 0x8E, 0xFB, 0x6A, 0x18, 0x89, 0xF2, 0x63, 0x11, 0x80, 0xF5, 0x64, 0x16, 0x87,
      0xD8, 0x49, 0x3B, 0xAA, 0xDF, 0x4E, 0x3C, 0xAD, 0xD6, 0x47, 0x35, 0xA4, 0xD1, 0x40, 0x32, 0xA3,
      0xC4, 0x55, 0x27, 0xB6, 0xC3, 0x52, 0x20, 0xB1, 0xCA, 0x5B, 0x29, 0xB8, 0xCD, 0x5C, 0x2E, 0xBF,
      0x90, 0x01, 0x73, 0xE2, 0x97, 0x06, 0x74, 0xE5, 0x9E, 0x0F, 0x7D, 0xEC, 0x99, 0x08, 0x7A, 0xEB,
      0x8C, 0x1D, 0x6F, 0xFE, 0x8B, 0x1A, 0x68, 0xF9, 0x82, 0x13, 0x61, 0xF0, 0x85, 0x14, 0x66, 0xF7,
      0xA8, 0x39, 0x4B, 0xDA, 0xAF, 0x3E, 0x4C, 0xDD, 0xA6, 0x37, 0x45, 0xD4, 0xA1, 0x30, 0x42, 0xD3,
      0xB4, 0x25, 0x57, 0xC6, 0xB3, 0x22, 0x50, 0xC1, 0xBA, 0x2B, 0x59, 0xC8, 0xBD, 0x2C, 0x5E, 0xCF]"

definition crctab :: "u16 list" where
  "crctab = [
      0x0000, 0xc0c1, 0xc181, 0x0140, 0xc301, 0x03c0, 0x0280, 0xc241, 0xc601, 0x06c0, 0x0780, 0xc741,
      0x0500, 0xc5c1, 0xc481, 0x0440, 0xcc01, 0x0cc0, 0x0d80, 0xcd41, 0x0f00, 0xcfc1, 0xce81, 0x0e40,
      0x0a00, 0xcac1, 0xcb81, 0x0b40, 0xc901, 0x09c0, 0x0880, 0xc841, 0xd801, 0x18c0, 0x1980, 0xd941,
      0x1b00, 0xdbc1, 0xda81, 0x1a40, 0x1e00, 0xdec1, 0xdf81, 0x1f40, 0xdd01, 0x1dc0, 0x1c80, 0xdc41,
      0x1400, 0xd4c1, 0xd581, 0x1540, 0xd701, 0x17c0, 0x1680, 0xd641, 0xd201, 0x12c0, 0x1380, 0xd341,
      0x1100, 0xd1c1, 0xd081, 0x1040, 0xf001, 0x30c0, 0x3180, 0xf141, 0x3300, 0xf3c1, 0xf281, 0x3240,
      0x3600, 0xf6c1, 0xf781, 0x3740, 0xf501, 0x35c0, 0x3480, 0xf441, 0x3c00, 0xfcc1, 0xfd81, 0x3d40,
      0xff01, 0x3fc0, 0x3e80, 0xfe41, 0xfa01, 0x3ac0, 0x3b80, 0xfb41, 0x3900, 0xf9c1, 0xf881, 0x3840,
      0x2800, 0xe8c1, 0xe981, 0x2940, 0xeb01, 0x2bc0, 0x2a80, 0xea41, 0xee01, 0x2ec0, 0x2f80, 0xef41,
      0x2d00, 0xedc1, 0xec81, 0x2c40, 0xe401, 0x24c0, 0x2580, 0xe541, 0x2700, 0xe7c1, 0xe681, 0x2640,
      0x2200, 0xe2c1, 0xe381, 0x2340, 0xe101, 0x21c0, 0x2080, 0xe041, 0xa001, 0x60c0, 0x6180, 0xa141,
      0x6300, 0xa3c1, 0xa281, 0x6240, 0x6600, 0xa6c1, 0xa781, 0x6740, 0xa501, 0x65c0, 0x6480, 0xa441,
      0x6c00, 0xacc1, 0xad81, 0x6d40, 0xaf01, 0x6fc0, 0x6e80, 0xae41, 0xaa01, 0x6ac0, 0x6b80, 0xab41,
      0x6900, 0xa9c1, 0xa881, 0x6840, 0x7800, 0xb8c1, 0xb981, 0x7940, 0xbb01, 0x7bc0, 0x7a80, 0xba41,
      0xbe01, 0x7ec0, 0x7f80, 0xbf41, 0x7d00, 0xbdc1, 0xbc81, 0x7c40, 0xb401, 0x74c0, 0x7580, 0xb541,
      0x7700, 0xb7c1, 0xb681, 0x7640, 0x7200, 0xb2c1, 0xb381, 0x7340, 0xb101, 0x71c0, 0x7080, 0xb041,
      0x5000, 0x90c1, 0x9181, 0x5140, 0x9301, 0x53c0, 0x5280, 0x9241, 0x9601, 0x56c0, 0x5780, 0x9741,
      0x5500, 0x95c1, 0x9481, 0x5440, 0x9c01, 0x5cc0, 0x5d80, 0x9d41, 0x5f00, 0x9fc1, 0x9e81, 0x5e40,
      0x5a00, 0x9ac1, 0x9b81, 0x5b40, 0x9901, 0x59c0, 0x5880, 0x9841, 0x8801, 0x48c0, 0x4980, 0x8941,
      0x4b00, 0x8bc1, 0x8a81, 0x4a40, 0x4e00, 0x8ec1, 0x8f81, 0x4f40, 0x8d01, 0x4dc0, 0x4c80, 0x8c41,
      0x4400, 0x84c1, 0x8581, 0x4540, 0x8701, 0x47c0, 0x4680, 0x8641, 0x8201, 0x42c0, 0x4380, 0x8341,
      0x4100, 0x81c1, 0x8081, 0x4040]"

text \<open>The loop over the bytes of a frame.\<close>

definition rfc_fcs_loop :: "u8 \<Rightarrow> u8 list \<Rightarrow> u8" where
  "rfc_fcs_loop fcs p = foldl (\<lambda>fcs b. rfc_crctable ! unat (fcs XOR b)) fcs p"

definition rfc_calc_fcs :: "nat \<Rightarrow> u8 list \<Rightarrow> u8" where
  "rfc_calc_fcs len p = 0xFF - rfc_fcs_loop 0xFF (take len p)"

definition rfc_check_fcs :: "nat \<Rightarrow> u8 list \<Rightarrow> u8 \<Rightarrow> bool" where
  "rfc_check_fcs len p received_fcs \<longleftrightarrow> rfc_crctable ! unat (rfc_fcs_loop 0xFF (take len p) XOR received_fcs) = 0xCF"

definition l2c_fcr_updcrc :: "u16 \<Rightarrow> u8 list \<Rightarrow> nat \<Rightarrow> u16" where
  "l2c_fcr_updcrc icrc icp icnt =
     foldl (\<lambda>crc c. (drop_bit 8 crc AND 0xff) XOR crctab ! unat ((crc AND 0xff) XOR ucast c)) icrc (take icnt icp)"

definition L2CAP_FCR_INIT_CRC :: u16 where
  "L2CAP_FCR_INIT_CRC = 0"

definition L2CAP_PKT_OVERHEAD :: nat where
  "L2CAP_PKT_OVERHEAD = 4"

text \<open>A buffer: the bytes behind the header, the offset of the data and its length.\<close>

record bt_hdr =
  hdr_offset :: nat
  hdr_len :: nat
  hdr_data :: "u8 list"

definition l2c_fcr_tx_get_fcs :: "bt_hdr \<Rightarrow> u16" where
  "l2c_fcr_tx_get_fcs p_buf = l2c_fcr_updcrc L2CAP_FCR_INIT_CRC (drop (hdr_offset p_buf) (hdr_data p_buf)) (hdr_len p_buf)"

definition l2c_fcr_rx_get_fcs :: "bt_hdr \<Rightarrow> u16" where
  "l2c_fcr_rx_get_fcs p_buf =
     l2c_fcr_updcrc L2CAP_FCR_INIT_CRC (drop (hdr_offset p_buf - L2CAP_PKT_OVERHEAD) (hdr_data p_buf)) (hdr_len p_buf + L2CAP_PKT_OVERHEAD)"

section \<open>The codes bit by bit\<close>

text \<open>A shift register that takes the bits from the least significant end, with the reversed polynomial.\<close>

definition crc_bit :: "'a::len word \<Rightarrow> 'a word \<Rightarrow> 'a word" where
  "crc_bit poly c = (if bit c 0 then drop_bit 1 c XOR poly else drop_bit 1 c)"

fun crc_bits :: "nat \<Rightarrow> 'a::len word \<Rightarrow> 'a word \<Rightarrow> 'a word" where
  "crc_bits 0 poly c = c"
| "crc_bits (Suc n) poly c = crc_bits n poly (crc_bit poly c)"

definition crc :: "'a::len word \<Rightarrow> 'a word \<Rightarrow> u8 list \<Rightarrow> 'a word" where
  "crc poly c bs = foldl (\<lambda>c b. crc_bits 8 poly (c XOR ucast b)) c bs"

text \<open>The polynomials \<open>x^8 + x^2 + x + 1\<close> and \<open>x^16 + x^15 + x^2 + 1\<close>.\<close>

definition rfcomm_poly :: u8 where
  "rfcomm_poly = 0xE0"

definition l2cap_poly :: u16 where
  "l2cap_poly = 0xA001"

text \<open>A table that is linear in its index, from the entries at the powers of two.\<close>

definition linear_table :: "'a::len word list \<Rightarrow> 'a word list" where
  "linear_table gs = foldl (\<lambda>xs g. xs @ map (\<lambda>x. x XOR g) xs) [0] gs"

lemma rfc_crctable_linear:
  "rfc_crctable = linear_table [0x91, 0xE3, 0x07, 0x0E, 0x1C, 0x38, 0x70, 0xE0]"
  by code_simp

lemma crctab_linear:
  "crctab = linear_table [0xc0c1, 0xc181, 0xc301, 0xc601, 0xcc01, 0xd801, 0xf001, 0xa001]"
  by code_simp

lemma rfcomm_generators:
  "map (\<lambda>k. crc_bits 8 rfcomm_poly (push_bit k 1)) [0..<8] = [0x91, 0xE3, 0x07, 0x0E, 0x1C, 0x38, 0x70, 0xE0]"
  by code_simp

lemma l2cap_generators:
  "map (\<lambda>k. crc_bits 8 l2cap_poly (push_bit k 1)) [0..<8] = [0xc0c1, 0xc181, 0xc301, 0xc601, 0xcc01, 0xd801, 0xf001, 0xa001]"
  by code_simp

lemma crc_bit_xor:
  "crc_bit poly (x XOR y) = crc_bit poly x XOR crc_bit poly y"
  by (simp add: crc_bit_def drop_bit_xor bit_xor_iff ac_simps xor.left_commute)

lemma crc_bits_xor:
  "crc_bits n poly (x XOR y) = crc_bits n poly x XOR crc_bits n poly y"
  by (induction n arbitrary: x y) (simp_all add: crc_bit_xor)

lemma crc_bits_0:
  "crc_bits n poly 0 = 0"
  by (induction n) (simp_all add: crc_bit_def)

lemma split_top:
  fixes i n :: nat
  assumes "2 ^ n \<le> i" "i < 2 ^ Suc n"
  shows "(of_nat i :: 'a::len word) = of_nat (i - 2 ^ n) XOR push_bit n 1"
proof -
  define j where "j = i - 2 ^ n"
  have j: "take_bit n j = j" using assms(2) by (simp add: j_def take_bit_nat_eq_self)
  have "j AND 2 ^ n = 0"
  proof (rule bit_eqI)
    fix k
    have "bit j k = (k < n \<and> bit j k)" using bit_take_bit_iff [of n j k] j by simp
    then show "bit (j AND 2 ^ n) k = bit 0 k" by (auto simp: bit_and_iff bit_exp_iff)
  qed
  then have "j + 2 ^ n = j XOR 2 ^ n" by (rule disjunctive_add_eq_xor)
  then have "of_nat i = (of_nat (j XOR 2 ^ n) :: 'a word)" using assms(1) by (simp add: j_def)
  also have "\<dots> = of_nat j XOR of_nat (2 ^ n)" by (rule of_nat_xor_eq)
  finally show ?thesis by (simp add: j_def push_bit_eq_mult)
qed

text \<open>A linear map is tabulated by its values at the powers of two.\<close>

lemma linear_table_nth:
  fixes L :: "'a::len word \<Rightarrow> 'b::len word"
  assumes "\<And>x y. L (x XOR y) = L x XOR L y" "L 0 = 0"
  shows "length (linear_table (map (\<lambda>k. L (push_bit k 1)) [0..<n])) = 2 ^ n
    \<and> (\<forall>i < 2 ^ n. linear_table (map (\<lambda>k. L (push_bit k 1)) [0..<n]) ! i = L (of_nat i))"
proof (induction n)
  case 0
  show ?case using assms(2) by (simp add: linear_table_def)
next
  case (Suc n)
  define xs where "xs = linear_table (map (\<lambda>k. L (push_bit k 1)) [0..<n])"
  have step: "linear_table (map (\<lambda>k. L (push_bit k 1)) [0..<Suc n]) = xs @ map (\<lambda>x. x XOR L (push_bit n 1)) xs"
    by (simp add: linear_table_def xs_def)
  have len: "length xs = 2 ^ n" and nth: "\<And>i. i < 2 ^ n \<Longrightarrow> xs ! i = L (of_nat i)" using Suc.IH by (simp_all add: xs_def)
  have "(xs @ map (\<lambda>x. x XOR L (push_bit n 1)) xs) ! i = L (of_nat i)" if "i < 2 ^ Suc n" for i
  proof (cases "i < 2 ^ n")
    case True
    then show ?thesis by (simp add: nth_append len nth)
  next
    case False
    then have "i - 2 ^ n < 2 ^ n" using that by simp
    then have "(xs @ map (\<lambda>x. x XOR L (push_bit n 1)) xs) ! i = L (of_nat (i - 2 ^ n)) XOR L (push_bit n 1)"
      using False by (simp add: nth_append len nth)
    also have "\<dots> = L (of_nat (i - 2 ^ n) XOR push_bit n 1)" by (simp only: assms(1))
    also have "of_nat (i - 2 ^ n) XOR push_bit n 1 = (of_nat i :: 'a word)"
      by (rule split_top [symmetric]) (use False that in simp_all)
    finally show ?thesis .
  qed
  then show ?case unfolding step using len by simp
qed

lemma crc_table_nth:
  fixes poly :: "'a::len word" and i :: nat
  assumes "i < 256"
  shows "linear_table (map (\<lambda>k. crc_bits 8 poly (push_bit k 1)) [0..<8]) ! i = crc_bits 8 poly (of_nat i)"
  using linear_table_nth [of "crc_bits 8 poly" 8] assms by (simp add: crc_bits_xor crc_bits_0)

lemma unat_octet:
  "unat (b :: u8) < 256"
  using unsigned_less [of b] by simp

lemma rfc_crctable_nth:
  "rfc_crctable ! unat b = crc_bits 8 rfcomm_poly b"
  unfolding rfc_crctable_linear rfcomm_generators [symmetric] crc_table_nth [OF unat_octet] by simp

lemma crctab_nth:
  "unat c < 256 \<Longrightarrow> crctab ! unat c = crc_bits 8 l2cap_poly c"
  unfolding crctab_linear l2cap_generators [symmetric] by (subst crc_table_nth) simp_all

lemma rfc_fcs_loop_crc:
  "rfc_fcs_loop fcs p = crc rfcomm_poly fcs p"
  by (simp add: rfc_fcs_loop_def crc_def rfc_crctable_nth)

text \<open>The upper half of the register passes eight steps unchanged.\<close>

lemma crc_bits_high:
  fixes poly :: u16
  assumes "\<forall>k < n. \<not> bit c k"
  shows "crc_bits n poly c = drop_bit n c"
  using assms
proof (induction n arbitrary: c)
  case (Suc n)
  have "\<not> bit (drop_bit 1 c) k" if "k < n" for k using Suc.prems that by (simp add: bit_drop_bit_eq)
  moreover have "crc_bit poly c = drop_bit 1 c" using Suc.prems by (simp add: crc_bit_def)
  ultimately show ?case using Suc.IH [of "drop_bit 1 c"] by (simp add: drop_bit_drop_bit)
qed simp

lemma mask_octet:
  "(0xff :: u16) = mask 8"
  by (simp add: mask_eq_exp_minus_1)

lemma l2c_step:
  fixes b :: u8
  shows "(drop_bit 8 c AND 0xff) XOR crctab ! unat ((c AND 0xff) XOR ucast b) = crc_bits 8 l2cap_poly (c XOR ucast b)"
proof -
  define low where "low = (c AND 0xff) XOR (ucast b :: u16)"
  define high where "high = push_bit 8 (drop_bit 8 c)"
  have b8: "k < 8" if "bit b k" for k using bit_imp_le_length [OF that] by simp
  have low8: "take_bit 8 low = low" unfolding low_def mask_octet
    by (rule bit_word_eqI) (auto simp: bit_simps dest: b8)
  have "unat low = take_bit 8 (unat low)" using low8 by (metis unsigned_take_bit_eq)
  also have "\<dots> < 2 ^ 8" by (rule take_bit_nat_less_exp)
  finally have "unat low < 256" by simp
  then have tab: "crctab ! unat low = crc_bits 8 l2cap_poly low" by (rule crctab_nth)
  have "crc_bits 8 l2cap_poly high = drop_bit 8 high" by (rule crc_bits_high) (simp add: high_def bit_simps)
  also have "\<dots> = drop_bit 8 c AND 0xff" unfolding high_def mask_octet
    by (rule bit_word_eqI) (auto simp: bit_simps)
  finally have hi: "drop_bit 8 c AND 0xff = crc_bits 8 l2cap_poly high" by simp
  have "high XOR low = c XOR ucast b" unfolding high_def low_def mask_octet
    by (rule bit_word_eqI) (auto simp: bit_simps not_less dest: b8)
  then show ?thesis using tab hi by (simp add: low_def [symmetric] crc_bits_xor [symmetric])
qed

lemma l2c_fcr_updcrc_crc:
  "l2c_fcr_updcrc icrc icp icnt = crc l2cap_poly icrc (take icnt icp)"
  by (simp add: l2c_fcr_updcrc_def crc_def l2c_step)

section \<open>Detection of errors\<close>

text \<open>A step of the register can be undone when the polynomial has its highest bit.\<close>

lemma xor_cancel_right:
  fixes x y p :: "'a::len word"
  shows "x XOR p = y XOR p \<longleftrightarrow> x = y"
  by (metis xor.assoc xor.right_neutral xor_self_eq)

lemma crc_bit_inj:
  fixes poly :: "'a::len word"
  assumes "bit poly (LENGTH('a) - 1)" "crc_bit poly x = crc_bit poly y"
  shows "x = y"
proof -
  have top: "bit (crc_bit poly z) (LENGTH('a) - 1) = bit z 0" for z
    using assms(1) by (simp add: crc_bit_def bit_xor_iff bit_drop_bit_eq)
  have low: "bit x 0 = bit y 0" using top [of x] top [of y] assms(2) by simp
  then have "drop_bit 1 x = drop_bit 1 y" using assms(2) by (simp add: crc_bit_def xor_cancel_right split: if_splits)
  have "bit x k = bit y k" for k
  proof (cases k)
    case 0
    then show ?thesis using low by simp
  next
    case (Suc m)
    have "bit (drop_bit 1 x) m = bit (drop_bit 1 y) m" using \<open>drop_bit 1 x = drop_bit 1 y\<close> by simp
    then show ?thesis using Suc by (simp add: bit_drop_bit_eq)
  qed
  then show ?thesis by (simp add: bit_eq_iff)
qed

lemma crc_bits_inj:
  fixes poly :: "'a::len word"
  assumes "bit poly (LENGTH('a) - 1)"
  shows "crc_bits n poly x = crc_bits n poly y \<Longrightarrow> x = y"
proof (induction n arbitrary: x y)
  case (Suc n)
  then have "crc_bit poly x = crc_bit poly y" by simp
  then show ?case by (rule crc_bit_inj [OF assms])
qed simp

lemma ucast_octet_inj:
  fixes a b :: u8
  assumes "8 \<le> LENGTH('a::len)" "(ucast a :: 'a word) = ucast b"
  shows "a = b"
proof (rule bit_word_eqI)
  fix n assume "n < LENGTH(8)"
  then have "bit (ucast a :: 'a word) n = bit (ucast b :: 'a word) n" "n < LENGTH('a)" using assms by simp_all
  then show "bit a n = bit b n" by (simp add: bit_ucast_iff)
qed

lemma xor_cancel_left:
  fixes x y p :: "'a::len word"
  shows "p XOR x = p XOR y \<longleftrightarrow> x = y"
  by (metis xor.commute xor_cancel_right)

lemma crc_inj_register:
  fixes poly :: "'a::len word"
  assumes "bit poly (LENGTH('a) - 1)"
  shows "crc poly c bs = crc poly c' bs \<Longrightarrow> c = c'"
proof (induction bs arbitrary: c c')
  case (Cons b bs)
  then have "crc_bits 8 poly (c XOR ucast b) = crc_bits 8 poly (c' XOR ucast b)" by (simp add: crc_def)
  then have "c XOR ucast b = c' XOR ucast b" by (rule crc_bits_inj [OF assms])
  then show ?case by (simp add: xor_cancel_right)
qed (simp add: crc_def)

text \<open>A frame that differs in one byte has another code.\<close>

lemma crc_detects:
  fixes poly :: "'a::len word"
  assumes "bit poly (LENGTH('a) - 1)" "8 \<le> LENGTH('a)" "b \<noteq> b'"
  shows "crc poly c (xs @ b # ys) \<noteq> crc poly c (xs @ b' # ys)"
proof
  assume "crc poly c (xs @ b # ys) = crc poly c (xs @ b' # ys)"
  then have "crc poly (crc_bits 8 poly (crc poly c xs XOR ucast b)) ys = crc poly (crc_bits 8 poly (crc poly c xs XOR ucast b')) ys"
    by (simp add: crc_def)
  then have "crc_bits 8 poly (crc poly c xs XOR ucast b) = crc_bits 8 poly (crc poly c xs XOR ucast b')"
    by (rule crc_inj_register [OF assms(1)])
  then have "crc poly c xs XOR ucast b = crc poly c xs XOR ucast b'" by (rule crc_bits_inj [OF assms(1)])
  then show False using ucast_octet_inj [OF assms(2)] assms(3) by (simp add: xor_cancel_left)
qed

lemma rfcomm_poly_top:
  "bit rfcomm_poly (LENGTH(8) - 1)"
  by code_simp

lemma l2cap_poly_top:
  "bit l2cap_poly (LENGTH(16) - 1)"
  by code_simp

lemma complement_inj:
  fixes a x y :: "'a::len word"
  assumes "a - x = a - y"
  shows "x = y"
proof -
  have "a - (a - x) = a - (a - y)" using assms by (simp only:)
  then show ?thesis by simp
qed

lemma rfc_check_fcs_iff:
  "rfc_check_fcs len p f \<longleftrightarrow> f = rfc_calc_fcs len p"
proof -
  define c where "c = rfc_fcs_loop 0xFF (take len p)"
  have residue: "crc_bits 8 rfcomm_poly 0xFF = 0xCF" by code_simp
  have "rfc_check_fcs len p f \<longleftrightarrow> crc_bits 8 rfcomm_poly (c XOR f) = crc_bits 8 rfcomm_poly 0xFF"
    by (simp add: rfc_check_fcs_def c_def rfc_crctable_nth residue)
  also have "\<dots> \<longleftrightarrow> c XOR f = 0xFF" by (rule iffI, erule crc_bits_inj [OF rfcomm_poly_top], simp only:)
  also have "\<dots> \<longleftrightarrow> c XOR (c XOR f) = c XOR 0xFF" by (rule xor_cancel_left [symmetric])
  also have "c XOR (c XOR f) = f" by (simp flip: xor.assoc)
  also have "c XOR 0xFF = 0xFF - c"
  proof -
    have "(0xFF :: u8) = - 1" by simp
    then show ?thesis by (simp only: bit.xor_one_right not_eq_complement) simp
  qed
  finally show ?thesis by (simp add: rfc_calc_fcs_def c_def)
qed

section \<open>Properties\<close>

text \<open>C26: the table-driven checks compute the cyclic redundancy codes of their polynomials bit by bit, RFCOMM accepts a check
  byte exactly when it is the one it computes, and when one byte of a frame is changed, both codes change.\<close>

theorem frame_check_sequences:
  assumes "len = length xs + 1 + length ys" "b \<noteq> b'"
  shows "rfc_calc_fcs len (xs @ b # ys) = 0xFF - crc rfcomm_poly 0xFF (xs @ b # ys)
    \<and> l2c_fcr_updcrc icrc (xs @ b # ys) len = crc l2cap_poly icrc (xs @ b # ys)
    \<and> (rfc_check_fcs len (xs @ b # ys) f \<longleftrightarrow> f = rfc_calc_fcs len (xs @ b # ys))
    \<and> \<not> rfc_check_fcs len (xs @ b' # ys) (rfc_calc_fcs len (xs @ b # ys))
    \<and> l2c_fcr_updcrc icrc (xs @ b' # ys) len \<noteq> l2c_fcr_updcrc icrc (xs @ b # ys) len"
proof -
  have whole: "take len (xs @ c # ys) = xs @ c # ys" for c using assms(1) by simp
  have calc: "rfc_calc_fcs len (xs @ c # ys) = 0xFF - crc rfcomm_poly 0xFF (xs @ c # ys)" for c
    unfolding rfc_calc_fcs_def rfc_fcs_loop_crc whole ..
  have "crc rfcomm_poly 0xFF (xs @ b # ys) \<noteq> crc rfcomm_poly 0xFF (xs @ b' # ys)"
    by (rule crc_detects [OF rfcomm_poly_top _ assms(2)]) simp
  then have differ: "rfc_calc_fcs len (xs @ b # ys) \<noteq> rfc_calc_fcs len (xs @ b' # ys)"
    unfolding calc by (rule contrapos_nn) (rule complement_inj)
  have differ16: "crc l2cap_poly icrc (xs @ b' # ys) \<noteq> crc l2cap_poly icrc (xs @ b # ys)"
    by (rule crc_detects [OF l2cap_poly_top]) (use assms(2) in simp_all)
  show ?thesis unfolding rfc_check_fcs_iff l2c_fcr_updcrc_crc whole
    by (intro conjI calc refl differ differ16)
qed

theorem frame_check_sequences_witness:
  "rfc_calc_fcs 3 [0x03, 0x3F, 0x01] = 0x1C \<and> \<not> rfc_check_fcs 3 [0x03, 0x3E, 0x01] 0x1C
    \<and> l2c_fcr_updcrc 0 [0x03, 0x3E, 0x01] 3 \<noteq> l2c_fcr_updcrc 0 [0x03, 0x3F, 0x01] 3"
proof -
  have "rfc_calc_fcs 3 [0x03, 0x3F, 0x01] = 0x1C" by code_simp
  moreover have "(3 :: nat) = length [0x03 :: u8] + 1 + length [0x01 :: u8]" "(0x3F :: u8) \<noteq> 0x3E" by simp_all
  note frame_check_sequences [OF this, where f = 0 and icrc = 0]
  ultimately show ?thesis by (auto simp only: append_Cons append_Nil)
qed

end
