(* ===== verification/Spec2Isabelle.thy ===== *)
theory Spec2Isabelle
  imports P256_Properties Crypto_Properties Storage_Properties Acl_Scheduler Round_Robin_Properties
    Le_Reassembler Crc
begin

text \<open>
  Verification of parts of the Android Bluetooth stack. File names are relative to \<open>src/system\<close>.

  \<^bold>\<open>The parts and how they interact.\<close> Pairing derives keys with the functions of the cryptographic toolbox, which rest on
  AES-CMAC and AES, and agrees on a secret with the P-256 curve, which rests on multiprecision arithmetic. The keys and all
  other properties of a device are kept by the configuration cache, an ordered map of sections with a cache of temporary
  devices, which the storage module writes to a file and reads back; sections are named by device addresses. Towards the
  controller, outgoing connections are queued by the ACL scheduler; outgoing data is cut into fragments and sent by the
  round-robin scheduler within the controller's buffers; incoming fragments are joined by the assembler, advertising
  fragments by the LE reassembler. The frames of RFCOMM and of the L2CAP retransmission modes carry check sequences.

  \<^bold>\<open>Conventions.\<close> \<open>Prelude\<close> has the machine integers \<open>u8\<close>, \<open>u16\<close>, \<open>u32\<close>, \<open>u64\<close>, little-endian values and facts on lists.
  An operation on an object takes the object's record and returns the new one with the result. A failed assertion, a call of
  abort and undefined behaviour are the result \<open>None\<close>; an error return is a value. Fixed-width integers are words.
  Flags, the file system, the clock, system properties and generated accessors are arguments or fields of records.

  \<^bold>\<open>P-256.\<close>
  \<^item> \<open>Multiprecision\<close>: the routines on 256-bit numbers of \<open>stack/smp/p_256_multprecision.cc\<close>, lists of eight 32-bit words,
    with their values; the locale \<open>fixed_width\<close> states the laws of addition and subtraction modulo a power of two.
  \<^item> \<open>P256_Field\<close>: the routines modulo the prime of the same file and the constants of \<open>p_256_curvepara.cc\<close>.
    \<open>P256_Reduction\<close> shows when \<open>multiprecision_fast_mod_P256\<close> reduces correctly, \<open>P256_Inverse\<close> that the binary
    inversion ends and inverts.
  \<^item> \<open>P256_Ecc\<close>: \<open>p_256_ecc_pp.cc\<close>. \<open>P256_Curve\<close> relates doubling and addition to the tangent and the chord of the
    curve, \<open>P256_Naf\<close> shows that the non-adjacent form has the value of the scalar.
  \<^item> \<open>P256_Properties\<close>: the properties of all of these, with an input on which the fast reduction is wrong.

  \<^bold>\<open>Cryptographic toolbox.\<close>
  \<^item> \<open>AES\<close>: \<open>gd/crypto_toolbox/aes.cc\<close> as configured by its header. \<open>AES_Tables\<close> has the algebra of the tables,
    \<open>AES_Rounds\<close> the inversion of encryption by decryption through the locale \<open>round_cipher\<close>, \<open>AES_Otfk\<close> and
    \<open>AES_Schedule\<close> the variants that compute the key from round to round and, for 128 and 256 bits, their agreement
    with the key schedule.
  \<^item> \<open>Crypto_Toolbox\<close>: \<open>aes_cmac.cc\<close> and \<open>crypto_toolbox.cc\<close>. \<open>Cmac_Spec\<close> writes AES-CMAC as RFC 4493 does and
    shows that the code refines it. \<open>Crypto_Properties\<close> has the properties.

  \<^bold>\<open>Storage.\<close>
  \<^item> \<open>List_Map\<close>: \<open>gd/common/list_map.h\<close> and \<open>lru_cache.h\<close>, with node names for iterators. \<open>List_Map_Spec\<close> has their
    invariants and the refinement of association lists through the locale \<open>assoc_store\<close>.
  \<^item> \<open>Strings\<close>, \<open>Address\<close>: \<open>gd/common/strings.cc\<close>, and the two address types of \<open>pdl/hci/address.cc\<close> and
    \<open>types/src/address.cc\<close>, with the round trips of their printed forms.
  \<^item> \<open>Config_Cache\<close>: \<open>gd/storage/config_cache.cc\<close>, the mutations and the key store of \<open>btif/src/btif_keystore.cc\<close>.
    \<open>Config_Cache_Store\<close> has the refinement to maps, \<open>Config_Cache_Inv\<close> the invariant and its preservation by every
    operation, \<open>Config_Cache_Access\<close> what is read after a write.
  \<^item> \<open>Config_File\<close>, \<open>Storage_Device\<close>: the file format of \<open>legacy_config_file.cc\<close> with its round trip, and the typed
    access of \<open>config_cache_helper.cc\<close>, \<open>device.cc\<close>, \<open>le_device.cc\<close> and \<open>classic_device.cc\<close>.
  \<^item> \<open>Storage_Module\<close>, \<open>Storage_Saves\<close>: \<open>storage_module.cc\<close> with its handler queue and alarm as a step relation, and
    that no update is lost while the module lives. \<open>Storage_Properties\<close> has the properties.

  \<^bold>\<open>Data and connections.\<close>
  \<^item> \<open>Packet\<close>, \<open>Acl_Data\<close>: the views and inserters of \<open>gd/packet\<close>, \<open>gd/hci/acl_manager/acl_fragmenter.cc\<close> and
    \<open>assembler.h\<close>. What is cut into fragments is reassembled.
  \<^item> \<open>Acl_Scheduler\<close>: \<open>acl_scheduler.cc\<close>. Operations start in the order of the queue, one at a time; a remote name
    request to a connecting peer is an exception.
  \<^item> \<open>Round_Robin\<close>: \<open>round_robin_scheduler.cc\<close> and \<open>gd/common/multi_priority_queue.h\<close>. \<open>Round_Robin_Inv\<close> and
    \<open>Round_Robin_Steps\<close> have the invariant of the credits over the step relation of the callbacks,
    \<open>Round_Robin_Properties\<close> the accounting, exactly when an assertion fails, which callbacks are registered, and
    the stall after a disconnection.
  \<^item> \<open>Le_Reassembler\<close>: \<open>gd/hci/le_scanning_reassembler.cc\<close>. Extended advertising in fragments gives the data of all
    fragments; scannable advertising stays in the cache for its scan response. No advertiser is cached twice.
  \<^item> \<open>Crc\<close>: the check sequences of \<open>stack/rfcomm/rfc_utils.cc\<close> and \<open>stack/l2cap/l2c_fcr.cc\<close> are the cyclic codes of their
    polynomials.

  \<^bold>\<open>Loops.\<close> No definition uses fuel. Loops without a structural measure are functions with a termination proof; the loops
  of the inversion and of the non-adjacent form are partial functions, and it is proved that
  they return, the latter for every scalar below the greatest 256-bit number, where the code leaves its array.

  \<^bold>\<open>Not modelled.\<close> The protocol engines under \<open>stack\<close> other than the parts above (L2CAP, RFCOMM, GATT, SDP, AVDTP, the
  security manager), the profiles under \<open>bta\<close> and the interfaces under \<open>btif\<close>: state machines over global control blocks
  with timers, and callbacks between threads. The HCI layer and the controller: exchange with hardware, in terms of packet
  classes that a generator writes. The operating system layer \<open>osi\<close>: threads, timers and descriptors. Audio processing and
  codecs: floating-point code and libraries. The Java code under \<open>android\<close>, \<open>framework\<close> and \<open>service\<close>, and the Rust code.
  Within the modelled parts, mutexes (each operation is atomic), logging, the posting of calls on a handler, and the branches
  of the preprocessor that are not compiled are left out.
\<close>

end
